(* ===== verification/Prelude.thy ===== *)
theory Prelude
  imports Main "HOL-Library.Word" "HOL-Library.Monad_Syntax"
begin

text \<open>
  Shared vocabulary of the development: fixed-width arithmetic on \<^typ>\<open>nat\<close>, the
  little-endian image of a 64-bit integer, byte-addressed memory with its two bulk
  operations (what \<^verbatim>\<open>std::memcpy\<close> and \<^verbatim>\<open>std::memmove\<close> do to a mapping), and the list
  facts several components use.  A byte is a \<^typ>\<open>char\<close>, as in the code, which reaches
  into its mappings through \<^verbatim>\<open>char*\<close>.
\<close>

unbundle bit_operations_syntax

named_theorems mem_simps \<open>reading back what was written to memory\<close>
named_theorems enc_simps \<open>lengths and round trips of integer encodings\<close>

type_synonym u64 = "64 word"
type_synonym mem = "nat \<Rightarrow> char"

section \<open>Unsigned 64-bit arithmetic on natural numbers\<close>

abbreviation u64_bound :: nat where
  "u64_bound \<equiv> 18446744073709551616"

text \<open>Subtraction and addition of \<^verbatim>\<open>uint64_t\<close> values wrap around.\<close>

definition sub64 :: "nat \<Rightarrow> nat \<Rightarrow> nat" where
  "sub64 a b = (if b \<le> a then a - b else (u64_bound + a - b) mod u64_bound)"

lemma sub64_le [simp]: "b \<le> a \<Longrightarrow> sub64 a b = a - b"
  by (simp add: sub64_def)

lemma sub64_wrap: "a < b \<Longrightarrow> b < u64_bound \<Longrightarrow> sub64 a b = u64_bound + a - b"
  by (simp add: sub64_def)

definition add64 :: "nat \<Rightarrow> nat \<Rightarrow> nat" where
  "add64 a b = (a + b) mod u64_bound"

lemma add64_eq [simp]: "a + b < u64_bound \<Longrightarrow> add64 a b = a + b"
  by (simp add: add64_def)

text \<open>
  The code rounds sizes up to a multiple of a power of two with
  \<^verbatim>\<open>(n + k - 1) & ~(k - 1)\<close>.
\<close>

definition round_up :: "nat \<Rightarrow> nat \<Rightarrow> nat" where
  "round_up e n = unat ((word_of_nat (n + 2 ^ e - 1) :: u64) AND NOT (mask e))"

lemma word_and_not_mask: "(w :: 'a::len word) AND NOT (mask e) = push_bit e (drop_bit e w)"
  by (rule bit_word_eqI) (auto simp: bit_simps)

lemma round_up_eq:
  assumes "n + 2 ^ e \<le> u64_bound"
  shows "round_up e n = (n + 2 ^ e - 1) div 2 ^ e * 2 ^ e"
proof -
  let ?m = "n + 2 ^ e - 1"
  have "(0::nat) < 2 ^ e" by simp
  with assms have m: "?m < 2 ^ 64"
    by (simp del: zero_less_power)
  have "unat (drop_bit e (word_of_nat ?m :: u64)) = ?m div 2 ^ e"
    using m by (subst unat_drop_bit_eq) (simp add: unat_of_nat drop_bit_eq_div)
  then have "drop_bit e (word_of_nat ?m :: u64) = word_of_nat (?m div 2 ^ e)"
    by (metis of_nat_unat ucast_id)
  then have "round_up e n = unat (word_of_nat (?m div 2 ^ e * 2 ^ e) :: u64)"
    by (simp add: round_up_def word_and_not_mask push_bit_eq_mult)
  moreover have "?m div 2 ^ e * 2 ^ e < 2 ^ 64"
    using m by (metis div_times_less_eq_dividend le_less_trans)
  ultimately show ?thesis by (simp only: unat_of_nat) simp
qed

section \<open>Little-endian images of 64-bit integers\<close>

fun enc_le :: "nat \<Rightarrow> nat \<Rightarrow> string" where
  "enc_le 0 n = []"
| "enc_le (Suc k) n = char_of n # enc_le k (n div 256)"

fun dec_le :: "string \<Rightarrow> nat" where
  "dec_le [] = 0"
| "dec_le (c # cs) = of_char c + 256 * dec_le cs"

abbreviation enc64 :: "nat \<Rightarrow> string" where
  "enc64 n \<equiv> enc_le 8 n"

lemma length_enc_le [simp, enc_simps]: "length (enc_le k n) = k"
  by (induction k arbitrary: n) auto

lemma dec_enc_le: "dec_le (enc_le k n) = n mod 256 ^ k"
  by (induction k arbitrary: n) (simp_all add: mod_mult2_eq add.commute)

lemma dec_enc64 [enc_simps]: "n < u64_bound \<Longrightarrow> dec_le (enc64 n) = n"
  by (simp add: dec_enc_le)

lemma dec_le_less: "dec_le cs < 256 ^ length cs"
proof (induction cs)
  case (Cons c cs)
  have "dec_le (c # cs) < 256 * Suc (dec_le cs)"
    by simp
  also have "\<dots> \<le> 256 * 256 ^ length cs"
    using Cons by (intro mult_le_mono2) simp
  finally show ?case by simp
qed simp

section \<open>Byte-addressed memory\<close>

definition load_bytes :: "mem \<Rightarrow> nat \<Rightarrow> nat \<Rightarrow> string" where
  "load_bytes m p n = map m [p..<p + n]"

definition store_bytes :: "mem \<Rightarrow> nat \<Rightarrow> string \<Rightarrow> mem" where
  "store_bytes m p bs = (\<lambda>a. if p \<le> a \<and> a < p + length bs then bs ! (a - p) else m a)"

abbreviation load64 :: "mem \<Rightarrow> nat \<Rightarrow> nat" where
  "load64 m p \<equiv> dec_le (load_bytes m p 8)"

abbreviation store64 :: "mem \<Rightarrow> nat \<Rightarrow> nat \<Rightarrow> mem" where
  "store64 m p v \<equiv> store_bytes m p (enc64 v)"

definition move_bytes :: "mem \<Rightarrow> nat \<Rightarrow> nat \<Rightarrow> nat \<Rightarrow> mem" where
  "move_bytes m dst src n = store_bytes m dst (load_bytes m src n)"

definition zero_mem :: mem where
  "zero_mem = (\<lambda>_. CHR 0x00)"

lemma length_load_bytes [simp]: "length (load_bytes m p n) = n"
  by (simp add: load_bytes_def)

lemma load_bytes_0 [simp]: "load_bytes m p 0 = []"
  by (simp add: load_bytes_def)

lemma load_bytes_Suc_0: "load_bytes m p (Suc 0) = [m p]"
  by (simp add: load_bytes_def)

lemma load_bytes_add: "load_bytes m p (a + b) = load_bytes m p a @ load_bytes m (p + a) b"
  unfolding load_bytes_def add.assoc [symmetric]
  by (subst upt_add_eq_append) simp_all

lemma load_bytes_nth: "i < n \<Longrightarrow> load_bytes m p n ! i = m (p + i)"
  by (simp add: load_bytes_def)

lemma load_bytes_cong: "(\<And>a. p \<le> a \<Longrightarrow> a < p + n \<Longrightarrow> m a = m' a) \<Longrightarrow> load_bytes m p n = load_bytes m' p n"
  by (auto simp: load_bytes_def)

lemma load_store_same [mem_simps]: "length bs = n \<Longrightarrow> load_bytes (store_bytes m p bs) p n = bs"
  by (rule nth_equalityI) (auto simp: load_bytes_nth store_bytes_def)

lemma load_store_disjoint [mem_simps]:
  "q + n \<le> p \<or> p + length bs \<le> q \<Longrightarrow> load_bytes (store_bytes m p bs) q n = load_bytes m q n"
  by (rule load_bytes_cong) (auto simp: store_bytes_def)

lemma load_bytes_sub:
  assumes "load_bytes m p n = bs" and "i + k \<le> n"
  shows "load_bytes m (p + i) k = take k (drop i bs)"
proof (rule nth_equalityI)
  show "length (load_bytes m (p + i) k) = length (take k (drop i bs))"
    using assms by auto
next
  fix j assume "j < length (load_bytes m (p + i) k)"
  then have j: "j < k" by simp
  have "bs ! (i + j) = m (p + (i + j))"
    using assms j by (auto simp: load_bytes_nth)
  with assms j show "load_bytes m (p + i) k ! j = take k (drop i bs) ! j"
    by (auto simp: load_bytes_nth add.assoc)
qed

lemma load_zero_mem [simp]: "load_bytes zero_mem p n = replicate n (CHR 0x00)"
  by (simp add: load_bytes_def zero_mem_def map_replicate_const)

text \<open>
  The interface of a byte store, as the log and the stat file use a mapping: reading back a
  written range, and reading past it.  The client lemma says that a sequence of two writes to
  disjoint ranges keeps both.
\<close>

locale byte_store =
  fixes load :: "'m \<Rightarrow> nat \<Rightarrow> nat \<Rightarrow> 'b list"
    and store :: "'m \<Rightarrow> nat \<Rightarrow> 'b list \<Rightarrow> 'm"
  assumes length_load: "length (load m p n) = n"
    and load_store: "load (store m p bs) p (length bs) = bs"
    and load_frame: "q + n \<le> p \<or> p + length bs \<le> q \<Longrightarrow> load (store m p bs) q n = load m q n"
    and load_split: "load m p (a + b) = load m p a @ load m (p + a) b"
begin

lemma store_twice_first:
  "p + length bs \<le> q \<or> q + length cs \<le> p \<Longrightarrow> load (store (store m p bs) q cs) p (length bs) = bs"
  by (metis load_frame load_store)

lemma store_adjacent:
  "load (store (store m p bs) (p + length bs) cs) p (length bs + length cs) = bs @ cs"
  by (simp add: load_split load_store store_twice_first)

lemma load_prefix: "k \<le> n \<Longrightarrow> load m p k = take k (load m p n)"
  by (metis append_eq_conv_conj le_add_diff_inverse length_load load_split)

lemma load_suffix: "k \<le> n \<Longrightarrow> load m (p + k) (n - k) = drop k (load m p n)"
  by (metis append_eq_conv_conj le_add_diff_inverse length_load load_split)

end

interpretation bytes: byte_store load_bytes store_bytes
  by unfold_locales (auto simp: mem_simps load_bytes_add)

section \<open>Lists\<close>

fun join :: "'a \<Rightarrow> 'a list list \<Rightarrow> 'a list" where
  "join sep [] = []"
| "join sep [x] = x"
| "join sep (x # xs) = x @ sep # join sep xs"

lemma join_Cons: "join sep (x # xs) = (if xs = [] then x else x @ sep # join sep xs)"
  by (cases xs) auto

section \<open>Decimal strings\<close>

text \<open>\<^verbatim>\<open>std::to_string\<close> of an unsigned integer.\<close>

definition digit_char :: "nat \<Rightarrow> char" where
  "digit_char d = char_of (48 + d)"

definition char_digit :: "char \<Rightarrow> nat" where
  "char_digit c = of_char c - 48"

definition is_digit :: "char \<Rightarrow> bool" where
  "is_digit c \<longleftrightarrow> 48 \<le> (of_char c :: nat) \<and> (of_char c :: nat) \<le> 57"

fun to_string :: "nat \<Rightarrow> string" where
  "to_string n = (if n < 10 then [digit_char n] else to_string (n div 10) @ [digit_char (n mod 10)])"

declare to_string.simps [simp del]

definition digits_value :: "string \<Rightarrow> nat" where
  "digits_value ds = foldl (\<lambda>acc c. 10 * acc + char_digit c) 0 ds"

lemma digit_char [simp]: "d < 10 \<Longrightarrow> is_digit (digit_char d)" "d < 10 \<Longrightarrow> char_digit (digit_char d) = d"
  by (simp_all add: is_digit_def digit_char_def char_digit_def)

lemma to_string_digits: "list_all is_digit (to_string n)"
  by (induction n rule: to_string.induct) (subst to_string.simps, simp)

lemma to_string_not_Nil [simp]: "to_string n \<noteq> []"
  by (subst to_string.simps) simp

lemma digits_value_to_string [simp]: "digits_value (to_string n) = n"
proof (induction n rule: to_string.induct)
  case (1 n)
  then show ?case
    by (subst to_string.simps) (auto simp: digits_value_def)
qed

end
