(* ===== verification/Mapped_File.thy ===== *)
theory Mapped_File
  imports Prelude
begin

text \<open>
  \<^verbatim>\<open>src/raft/mapped_file.hpp\<close>: a file mapped \<^verbatim>\<open>MAP_SHARED\<close> into memory.  The operating
  system is a parameter: a record that decides which calls fail, and a file system that maps
  names to a size and contents.  Because the mapping is shared, the bytes of a mapped file are
  the bytes of its mapping; \<open>fs_view\<close> is the file system another process (or the next start
  of this one) sees.  Two ghost fields record what the code does to the kernel without looking at
  it again: the ranges passed to \<^verbatim>\<open>msync\<close> and the number of mappings alive.
\<close>

section \<open>Error codes\<close>

datatype rc_errno =
    RC_NOT_LEADER
  | RC_CONF_ERROR
  | RC_MMAP_NEW_FILE
  | RC_MMAP_NOT_MAPPED
  | RC_MMAP_ALREADY_MAPPED
  | RC_MMAP_INVALID_FILE
  | RC_MMAP_ERROR
  | RC_OOR
  | RC_OOM
  | RC_ERROR
  | RC_GOOD

text \<open>The enumeration starts at -10.\<close>

fun rc_code :: "rc_errno \<Rightarrow> int" where
  "rc_code RC_NOT_LEADER = -10"
| "rc_code RC_CONF_ERROR = -9"
| "rc_code RC_MMAP_NEW_FILE = -8"
| "rc_code RC_MMAP_NOT_MAPPED = -7"
| "rc_code RC_MMAP_ALREADY_MAPPED = -6"
| "rc_code RC_MMAP_INVALID_FILE = -5"
| "rc_code RC_MMAP_ERROR = -4"
| "rc_code RC_OOR = -3"
| "rc_code RC_OOM = -2"
| "rc_code RC_ERROR = -1"
| "rc_code RC_GOOD = 0"

lemma rc_code_inj: "rc_code a = rc_code b \<Longrightarrow> a = b"
  by (cases a; cases b) simp_all

instantiation rc_errno :: linorder
begin

definition less_eq_rc_errno :: "rc_errno \<Rightarrow> rc_errno \<Rightarrow> bool" where
  "a \<le> b \<longleftrightarrow> rc_code a \<le> rc_code b"

definition less_rc_errno :: "rc_errno \<Rightarrow> rc_errno \<Rightarrow> bool" where
  "a < b \<longleftrightarrow> rc_code a < rc_code b"

instance
  by standard (auto simp: less_eq_rc_errno_def less_rc_errno_def intro: rc_code_inj)

end

section \<open>The operating system\<close>

datatype errno = ENOENT | ENOMEM | EOTHER

type_synonym fs = "string \<rightharpoonup> nat \<times> mem"

record os =
  os_open :: "string \<Rightarrow> bool \<Rightarrow> bool"  \<comment> \<open>does \<^verbatim>\<open>open\<close> succeed; the flag says \<^verbatim>\<open>O_CREAT\<close>\<close>
  os_fd :: "string \<Rightarrow> int"            \<comment> \<open>the descriptor it returns\<close>
  os_fstat :: "string \<Rightarrow> bool"
  os_ftruncate :: "string \<Rightarrow> nat \<Rightarrow> bool"
  os_mmap :: "string \<Rightarrow> nat \<Rightarrow> errno option"
  os_munmap :: "nat \<Rightarrow> bool"
  os_msync :: "nat \<Rightarrow> nat \<Rightarrow> bool"
  os_madvise :: "int \<Rightarrow> bool"

definition os_good :: "os \<Rightarrow> bool" where
  "os_good os \<longleftrightarrow> (\<forall>f c. os_open os f c) \<and> (\<forall>f. 0 \<le> os_fd os f) \<and> (\<forall>f. os_fstat os f) \<and>
     (\<forall>f n. os_ftruncate os f n) \<and> (\<forall>f n. os_mmap os f n = None) \<and> (\<forall>n. os_munmap os n) \<and>
     (\<forall>a n. os_msync os a n) \<and> (\<forall>a. os_madvise os a)"

definition page_bits :: nat where
  "page_bits = 12"

abbreviation page_size :: nat where
  "page_size \<equiv> 2 ^ page_bits"

definition page_round :: "nat \<Rightarrow> nat" where
  "page_round n = round_up page_bits n"

section \<open>State\<close>

record mapped_file =
  mf_filename :: string
  mf_fd :: int
  mf_size :: nat
  mf_length :: nat
  mf_mapped :: bool
  mf_mem :: mem             \<comment> \<open>the bytes behind \<^verbatim>\<open>addr_\<close>\<close>
  mf_file :: string         \<comment> \<open>the file the descriptor refers to\<close>
  mf_synced :: "(nat \<times> nat) list"
  mf_live :: nat

definition new_mapped_file :: "string \<Rightarrow> nat \<Rightarrow> nat \<Rightarrow> mapped_file" where
  "new_mapped_file t sz len =
     \<lparr>mf_filename = t, mf_fd = -1, mf_size = sz, mf_length = len, mf_mapped = False,
      mf_mem = zero_mem, mf_file = t, mf_synced = [], mf_live = 0\<rparr>"

section \<open>Operations\<close>

definition file_bytes :: "fs \<Rightarrow> string \<Rightarrow> mem" where
  "file_bytes fs f = (case fs f of None \<Rightarrow> zero_mem
     | Some (n, m) \<Rightarrow> (\<lambda>a. if a < n then m a else CHR 0x00))"

definition file_size :: "fs \<Rightarrow> string \<Rightarrow> nat" where
  "file_size fs f = (case fs f of None \<Rightarrow> 0 | Some (n, _) \<Rightarrow> n)"

text \<open>A failing \<^verbatim>\<open>ftruncate\<close> in \<^verbatim>\<open>map\<close> goes unnoticed: the result is not checked.\<close>

definition do_ftruncate :: "os \<Rightarrow> string \<Rightarrow> nat \<Rightarrow> fs \<Rightarrow> fs" where
  "do_ftruncate os f n fs = (if os_ftruncate os f n then fs(f \<mapsto> (n, file_bytes fs f)) else fs)"

text \<open>The first half of \<open>map\<close>: get a descriptor, creating the file when it is missing.\<close>

definition map_open :: "os \<Rightarrow> mapped_file \<Rightarrow> fs \<Rightarrow> rc_errno + (mapped_file \<times> fs \<times> bool)" where
  "map_open os mf fs =
     (if mf_fd mf < 0 then
        if fs (mf_filename mf) \<noteq> None then
          if os_open os (mf_filename mf) False
          then Inr (mf\<lparr>mf_fd := os_fd os (mf_filename mf), mf_file := mf_filename mf\<rparr>, fs, False)
          else Inr (mf, fs, False)
        else if os_open os (mf_filename mf) True then
          let fs1 = fs(mf_filename mf \<mapsto> (0, zero_mem));
              sz = page_round (mf_size mf)
          in Inr (mf\<lparr>mf_fd := os_fd os (mf_filename mf), mf_file := mf_filename mf, mf_size := sz\<rparr>,
               do_ftruncate os (mf_filename mf) sz fs1, True)
        else Inl RC_MMAP_INVALID_FILE
      else Inr (mf\<lparr>mf_filename := ''unknown''\<rparr>, fs, False))"

text \<open>The size of the mapping: the file's, rounded up, or the default length.\<close>

definition map_size :: "os \<Rightarrow> mapped_file \<Rightarrow> fs \<Rightarrow> rc_errno + (mapped_file \<times> fs)" where
  "map_size os mf fs =
     (if mf_size mf = 0 then
        if mf_fd mf < 0 \<or> \<not> os_fstat os (mf_file mf) then Inl RC_MMAP_ERROR
        else
          let sz = page_round (file_size fs (mf_file mf)) in
          if sz \<noteq> 0 then Inr (mf\<lparr>mf_size := sz\<rparr>, fs)
          else
            let sz' = page_round (mf_length mf) in
            Inr (mf\<lparr>mf_size := sz'\<rparr>, do_ftruncate os (mf_file mf) sz' fs)
      else Inr (mf, fs))"

definition map_file :: "os \<Rightarrow> mapped_file \<Rightarrow> fs \<Rightarrow> rc_errno \<times> mapped_file \<times> fs" where
  "map_file os mf fs =
     (if mf_mapped mf then (RC_MMAP_ALREADY_MAPPED, mf, fs)
      else if mf_filename mf = [] \<and> mf_fd mf < 0 then (RC_MMAP_INVALID_FILE, mf, fs)
      else case map_open os mf fs of
        Inl rc \<Rightarrow> (rc, mf, fs)
      | Inr (mf1, fs1, created) \<Rightarrow>
          (case map_size os mf1 fs1 of
             Inl rc \<Rightarrow> (rc, mf1, fs1)
           | Inr (mf2, fs2) \<Rightarrow>
               if mf_fd mf2 < 0 \<or> os_mmap os (mf_file mf2) (mf_size mf2) \<noteq> None
               then (RC_MMAP_ERROR, mf2, fs2)
               else
                 let mf3 = mf2\<lparr>mf_mapped := True, mf_mem := file_bytes fs2 (mf_file mf2),
                               mf_live := Suc (mf_live mf2)\<rparr>
                 in if created
                    then (RC_MMAP_NEW_FILE, mf3\<lparr>mf_mem := zero_mem\<rparr>, fs2)
                    else (RC_GOOD, mf3, fs2)))"

definition unmap :: "os \<Rightarrow> mapped_file \<Rightarrow> rc_errno \<times> mapped_file" where
  "unmap os mf =
     (if \<not> mf_mapped mf then (RC_GOOD, mf)
      else if \<not> os_munmap os (mf_size mf) then (RC_MMAP_ERROR, mf)
      else (RC_GOOD, mf\<lparr>mf_mapped := False, mf_live := mf_live mf - 1\<rparr>))"

text \<open>
  The build does not define \<^verbatim>\<open>HAVE_MREMAP\<close>, so \<open>remap\<close> is its second branch.  It clears
  \<^verbatim>\<open>mapped\<close> before it calls \<open>unmap\<close>, which therefore does nothing.
\<close>

definition remap :: "os \<Rightarrow> nat \<Rightarrow> mapped_file \<Rightarrow> rc_errno \<times> mapped_file" where
  "remap os new_size mf =
     (if \<not> mf_mapped mf then (RC_MMAP_NOT_MAPPED, mf)
      else
        let n = page_round new_size;
            mf1 = mf\<lparr>mf_mapped := False\<rparr>
        in case unmap os mf1 of (r, mf2) \<Rightarrow>
          if r \<noteq> RC_GOOD then (r, mf2)
          else if \<not> os_ftruncate os (mf_file mf2) n then (RC_MMAP_ERROR, mf2)
          else case os_mmap os (mf_file mf2) n of
            Some ENOMEM \<Rightarrow> (RC_OOM, mf2)
          | Some _ \<Rightarrow> (RC_MMAP_ERROR, mf2)
          | None \<Rightarrow>
              (RC_GOOD, mf2\<lparr>mf_mapped := True, mf_size := n, mf_live := Suc (mf_live mf2),
                 mf_mem := (\<lambda>a. if a < mf_size mf2 \<and> a < n then mf_mem mf2 a else CHR 0x00)\<rparr>))"

text \<open>
  \<open>addr\<close> is an offset into the mapping, whose base is page aligned, so the alignment of the
  pointer is the alignment of the offset.
\<close>

definition sync_range :: "os \<Rightarrow> nat \<Rightarrow> nat \<Rightarrow> mapped_file \<Rightarrow> rc_errno \<times> mapped_file" where
  "sync_range os addr len mf =
     (if \<not> mf_mapped mf then (RC_MMAP_NOT_MAPPED, mf)
      else
        let left = addr mod page_size;
            aligned = addr - left
        in if \<not> os_msync os aligned (len + left) then (RC_MMAP_ERROR, mf)
           else (RC_GOOD, mf\<lparr>mf_synced := mf_synced mf @ [(aligned, len + left)]\<rparr>))"

definition sync_all :: "os \<Rightarrow> mapped_file \<Rightarrow> rc_errno \<times> mapped_file" where
  "sync_all os mf = sync_range os 0 (mf_size mf) mf"

definition advise :: "os \<Rightarrow> int \<Rightarrow> mapped_file \<Rightarrow> rc_errno" where
  "advise os a mf =
     (if \<not> mf_mapped mf then RC_MMAP_NOT_MAPPED
      else if \<not> os_madvise os a then RC_MMAP_ERROR
      else RC_GOOD)"

definition destroy :: "os \<Rightarrow> mapped_file \<Rightarrow> mapped_file" where
  "destroy os mf = (if mf_size mf > 0 then snd (unmap os mf) else mf)"

text \<open>Writes through \<^verbatim>\<open>addr()\<close>.\<close>

definition mf_store :: "nat \<Rightarrow> string \<Rightarrow> mapped_file \<Rightarrow> mapped_file" where
  "mf_store p bs mf = mf\<lparr>mf_mem := store_bytes (mf_mem mf) p bs\<rparr>"

definition fs_view :: "mapped_file \<Rightarrow> fs \<Rightarrow> fs" where
  "fs_view mf fs = fs(mf_file mf \<mapsto> (mf_size mf, mf_mem mf))"

section \<open>Properties\<close>

lemma os_goodD [simp]:
  assumes "os_good os"
  shows "os_open os f c" "0 \<le> os_fd os f" "\<not> os_fd os f < 0" "os_fstat os f" "os_ftruncate os f n" "os_mmap os f n = None"
    "os_munmap os n" "os_msync os a n" "os_madvise os b"
  using assms by (auto simp: os_good_def not_less)

lemma page_round_eq:
  "n + 4096 \<le> u64_bound \<Longrightarrow> page_round n = (n + 4095) div 4096 * 4096"
  using round_up_eq [of n 12] by (simp add: page_round_def page_bits_def)

lemma page_round_bounds:
  assumes "n + 4096 \<le> u64_bound"
  shows "n \<le> page_round n" "page_round n < n + 4096" "4096 dvd page_round n"
  unfolding page_round_eq [OF assms] by auto

lemma page_round_0 [simp]: "page_round 0 = 0"
  by (subst page_round_eq) simp_all

lemma page_round_id: "4096 dvd n \<Longrightarrow> n + 4096 \<le> u64_bound \<Longrightarrow> page_round n = n"
  by (subst page_round_eq) auto

lemma mf_store_simps [simp]:
  "mf_mem (mf_store p bs mf) = store_bytes (mf_mem mf) p bs"
  "mf_size (mf_store p bs mf) = mf_size mf" "mf_mapped (mf_store p bs mf) = mf_mapped mf"
  "mf_file (mf_store p bs mf) = mf_file mf" "mf_filename (mf_store p bs mf) = mf_filename mf"
  "mf_fd (mf_store p bs mf) = mf_fd mf" "mf_synced (mf_store p bs mf) = mf_synced mf"
  "mf_length (mf_store p bs mf) = mf_length mf" "mf_live (mf_store p bs mf) = mf_live mf"
  by (simp_all add: mf_store_def)

lemma remap_cases:
  assumes "remap os n mf = (rc, mf')" and "mf_mapped mf"
  shows "if rc = RC_GOOD then mf_mapped mf' \<and> mf_size mf' = page_round n \<and> mf_file mf' = mf_file mf \<and>
            mf_mem mf' = (\<lambda>a. if a < mf_size mf \<and> a < page_round n then mf_mem mf a else CHR 0x00) \<and>
            mf_synced mf' = mf_synced mf \<and> mf_live mf' = Suc (mf_live mf)
         else \<not> mf_mapped mf' \<and> mf_size mf' = mf_size mf \<and> mf_mem mf' = mf_mem mf \<and> mf_file mf' = mf_file mf \<and>
            mf_live mf' = mf_live mf"
  using assms by (auto simp: remap_def unmap_def Let_def split: if_splits option.splits errno.splits)

lemma remap_good:
  assumes "os_good os" and "mf_mapped mf"
  shows "fst (remap os n mf) = RC_GOOD"
  using assms by (simp add: remap_def unmap_def Let_def)

lemma remap_load:
  assumes "remap os n mf = (RC_GOOD, mf')" and "mf_mapped mf" and "p + k \<le> mf_size mf" and "p + k \<le> page_round n"
  shows "load_bytes (mf_mem mf') p k = load_bytes (mf_mem mf) p k"
  using remap_cases [OF assms(1,2)] assms(3,4) by (auto intro!: load_bytes_cong)

lemma sync_range_cases:
  assumes "sync_range os a n mf = (rc, mf')"
  shows "mf_mem mf' = mf_mem mf" "mf_size mf' = mf_size mf" "mf_mapped mf' = mf_mapped mf" "mf_file mf' = mf_file mf"
    "mf_filename mf' = mf_filename mf" "mf_fd mf' = mf_fd mf" "mf_length mf' = mf_length mf"
    "rc = RC_GOOD \<longleftrightarrow> mf_mapped mf \<and> os_msync os (a - a mod page_size) (n + a mod page_size)"
    "rc = RC_GOOD \<Longrightarrow> mf_synced mf' = mf_synced mf @ [(a - a mod page_size, n + a mod page_size)]"
  using assms by (auto simp: sync_range_def Let_def split: if_splits)

end
