(* ===== verification/Utils.thy ===== *)
theory Utils
  imports Prelude "HOL-Library.Char_ord"
begin

text \<open>
  The helpers of \<^verbatim>\<open>src/raft/utils.hpp\<close>: byte order (\<open>reverse\<close>, \<open>hton64\<close>,
  \<open>ntoh64\<close>), case mapping, \<open>replace_all\<close> and \<open>split\<close>.  The search loops are
  modelled with the indices the code keeps; \<open>replace_all\<close> may run forever (an empty pattern),
  so it is a \<^theory_text>\<open>partial_function\<close> whose value \<^const>\<open>None\<close> is "does not return".
  The lemmas relate each loop to a structural specification (\<open>pieces\<close>, \<open>subst_all\<close>),
  from which the round trips follow.
\<close>

section \<open>Byte order\<close>

text \<open>\<^verbatim>\<open>*((char*)&one)\<close> for the 16-bit value 1, over the memory image of the prelude.\<close>

definition little_endian :: bool where
  "little_endian \<longleftrightarrow> hd (enc_le 2 1) \<noteq> CHR 0x00"

definition reverse :: "u64 \<Rightarrow> u64" where
  "reverse n =
     (drop_bit 56 n OR
      drop_bit 40 (n AND 0x00ff000000000000) OR
      drop_bit 24 (n AND 0x0000ff0000000000) OR
      drop_bit 8 (n AND 0x000000ff00000000) OR
      push_bit 8 (n AND 0x00000000ff000000) OR
      push_bit 24 (n AND 0x0000000000ff0000) OR
      push_bit 40 (n AND 0x000000000000ff00) OR
      push_bit 56 n)"

definition hton64 :: "u64 \<Rightarrow> u64" where
  "hton64 n = (if little_endian then reverse n else n)"

definition ntoh64 :: "u64 \<Rightarrow> u64" where
  "ntoh64 n = hton64 n"

text \<open>Byte \<open>j\<close> of the result is byte \<open>7 - j\<close> of the argument.\<close>

lemma bit_byte_mask: "bit (push_bit (8 * j) (mask 8) :: u64) i \<longleftrightarrow> 8 * j \<le> i \<and> i < 8 * j + 8 \<and> i < 64"
  by (auto simp: bit_simps)

lemma byte_masks:
  "(0x00ff000000000000 :: u64) = push_bit 48 (mask 8)"
  "(0x0000ff0000000000 :: u64) = push_bit 40 (mask 8)"
  "(0x000000ff00000000 :: u64) = push_bit 32 (mask 8)"
  "(0x00000000ff000000 :: u64) = push_bit 24 (mask 8)"
  "(0x0000000000ff0000 :: u64) = push_bit 16 (mask 8)"
  "(0x000000000000ff00 :: u64) = push_bit 8 (mask 8)"
  by (simp_all add: mask_eq_exp_minus_1 push_bit_eq_mult)

lemma bit_reverse:
  assumes "i < 64"
  shows "bit (reverse n) i = bit n (8 * (7 - i div 8) + i mod 8)"
proof -
  have hi: "\<not> bit n k" if "64 \<le> k" for k
    using that by (auto dest: bit_imp_le_length)
  define q r where "q = i div 8" and "r = i mod 8"
  then have i: "i = 8 * q + r" and r: "r < 8" by simp_all
  from assms i have "q < 8" by simp
  then consider "q = 0" | "q = 1" | "q = 2" | "q = 3" | "q = 4" | "q = 5" | "q = 6" | "q = 7"
    by linarith
  then have "bit (reverse n) (8 * q + r) = bit n (8 * (7 - q) + r)"
    unfolding reverse_def byte_masks using r by cases (auto simp: bit_simps hi)
  then show ?thesis by (simp add: i r)
qed

lemma reverse_reverse [simp]: "reverse (reverse n) = n"
proof (rule bit_word_eqI)
  fix i assume "i < LENGTH(64)"
  then have i: "i < 64" by simp
  let ?j = "8 * (7 - i div 8) + i mod 8"
  from i have d: "i div 8 \<le> 7" by simp
  have j: "?j < 64" "?j div 8 = 7 - i div 8" "?j mod 8 = i mod 8"
    using d by simp_all
  then show "bit (reverse (reverse n)) i = bit n i"
    using i d by (simp add: bit_reverse)
qed

lemma ntoh64_hton64 [simp]: "ntoh64 (hton64 n) = n"
  by (simp add: ntoh64_def hton64_def)

section \<open>Case mapping\<close>

text \<open>\<^verbatim>\<open>std::tolower\<close> and \<^verbatim>\<open>std::toupper\<close> in the "C" locale.\<close>

definition tolower_char :: "char \<Rightarrow> char" where
  "tolower_char c = (if CHR ''A'' \<le> c \<and> c \<le> CHR ''Z'' then char_of (of_char c + 32 :: nat) else c)"

definition toupper_char :: "char \<Rightarrow> char" where
  "toupper_char c = (if CHR ''a'' \<le> c \<and> c \<le> CHR ''z'' then char_of (of_char c - 32 :: nat) else c)"

definition str_tolower :: "string \<Rightarrow> string" where
  "str_tolower s = map tolower_char s"

definition str_toupper :: "string \<Rightarrow> string" where
  "str_toupper s = map toupper_char s"

section \<open>Searching and replacing\<close>

text \<open>
  \<^verbatim>\<open>s.find(what, next, length)\<close>: the least position from \<open>nxt\<close> on where the pattern
  occurs, \<^const>\<open>None\<close> for \<^verbatim>\<open>npos\<close>.
\<close>

function str_find :: "string \<Rightarrow> string \<Rightarrow> nat \<Rightarrow> nat option" where
  "str_find s what nxt =
     (if nxt + length what \<le> length s then
        if take (length what) (drop nxt s) = what then Some nxt
        else str_find s what (Suc nxt)
      else None)"
  by pat_completeness auto
termination
  by (relation "measure (\<lambda>(s, what, nxt). Suc (length s) - nxt)") auto

declare str_find.simps [simp del]

partial_function (option) replace_loop ::
    "string \<Rightarrow> string \<Rightarrow> string \<Rightarrow> nat \<Rightarrow> nat \<Rightarrow> (string \<times> nat) option" where
  "replace_loop s what with nxt count =
     (case str_find s what nxt of
        None \<Rightarrow> Some (s, count)
      | Some p \<Rightarrow>
          replace_loop (take p s @ with @ drop (p + length what) s) what with
            (p + length with) (Suc count))"

definition replace_all :: "string \<Rightarrow> string \<Rightarrow> string \<Rightarrow> (string \<times> nat) option" where
  "replace_all s what with = replace_loop s what with 0 0"

text \<open>The specification: a left-to-right scan of the subject.\<close>

function subst_all :: "string \<Rightarrow> string \<Rightarrow> string \<Rightarrow> string" where
  "subst_all [] what with = []"
| "subst_all (c # s) what with =
     (if what \<noteq> [] \<and> take (length what) (c # s) = what
      then with @ subst_all (drop (length what) (c # s)) what with
      else c # subst_all s what with)"
  by pat_completeness auto
termination
  by (relation "measure (\<lambda>(s, what, with). length s)") (auto simp: Suc_le_eq)

lemma subst_all_match:
  "what \<noteq> [] \<Longrightarrow> take (length what) s = what \<Longrightarrow>
   subst_all s what with = with @ subst_all (drop (length what) s) what with"
  by (cases s) auto

lemma subst_all_short: "length s < length what \<Longrightarrow> subst_all s what with = s"
proof (induction s)
  case (Cons c s)
  then have "take (length what) (c # s) \<noteq> what"
    by (metis length_take min.strict_order_iff nat_neq_iff)
  with Cons show ?case by simp
qed simp

text \<open>The scan up to the first occurrence leaves the prefix alone.\<close>

lemma str_find_Some:
  "str_find s what nxt = Some p \<Longrightarrow>
   nxt \<le> p \<and> p + length what \<le> length s \<and> take (length what) (drop p s) = what \<and>
   (what \<noteq> [] \<longrightarrow> subst_all (drop nxt s) what with =
     take (p - nxt) (drop nxt s) @ subst_all (drop p s) what with)"
proof (induction s what nxt rule: str_find.induct)
  case (1 s what nxt)
  show ?case
  proof (cases "nxt + length what \<le> length s \<and> take (length what) (drop nxt s) \<noteq> what")
    case True
    with "1.prems" have p: "str_find s what (Suc nxt) = Some p"
      by (simp add: str_find.simps [of s what nxt])
    note IH = "1.IH" [OF conjunct1 [OF True] conjunct2 [OF True] p]
    show ?thesis
    proof (cases "what = []")
      case False
      with True have "nxt < length s" by (cases what) auto
      then have d: "drop nxt s = s ! nxt # drop (Suc nxt) s"
        by (simp add: Cons_nth_drop_Suc)
      then have "subst_all (drop nxt s) what with = s ! nxt # subst_all (drop (Suc nxt) s) what with"
        using True by (simp only: subst_all.simps) simp
      moreover from IH have "p - nxt = Suc (p - Suc nxt)" by linarith
      ultimately show ?thesis using IH False d by simp
    qed (use True in simp)
  next
    case False
    with "1.prems" show ?thesis
      by (auto simp: str_find.simps [of s what nxt] split: if_splits)
  qed
qed

lemma str_find_None:
  "str_find s what nxt = None \<Longrightarrow> what \<noteq> [] \<Longrightarrow> subst_all (drop nxt s) what with = drop nxt s"
proof (induction s what nxt rule: str_find.induct)
  case (1 s what nxt)
  show ?case
  proof (cases "nxt + length what \<le> length s")
    case True
    with "1.prems" have n: "take (length what) (drop nxt s) \<noteq> what"
      and f: "str_find s what (Suc nxt) = None"
      by (auto simp: str_find.simps [of s what nxt] split: if_splits)
    from True "1.prems"(2) have "nxt < length s" by (cases what) auto
    then have d: "drop nxt s = s ! nxt # drop (Suc nxt) s"
      by (simp add: Cons_nth_drop_Suc)
    with n have "subst_all (drop nxt s) what with = s ! nxt # subst_all (drop (Suc nxt) s) what with"
      by (simp only: subst_all.simps) simp
    with "1.IH" [OF True n f "1.prems"(2)] d show ?thesis by simp
  next
    case False
    with "1.prems"(2) have "length (drop nxt s) < length what"
      by (cases what) auto
    then show ?thesis by (rule subst_all_short)
  qed
qed

lemma str_find_empty: "nxt \<le> length s \<Longrightarrow> str_find s [] nxt = Some nxt"
  by (simp add: str_find.simps)

text \<open>The loop returns on every nonempty pattern, and computes the scan.\<close>

lemma replace_loop_returns:
  assumes "what \<noteq> []" and "nxt \<le> length s"
  shows "\<exists>n. replace_loop s what with nxt count = Some (take nxt s @ subst_all (drop nxt s) what with, n)"
  using assms(2)
proof (induction "length s - nxt" arbitrary: s nxt count rule: less_induct)
  case less
  show ?case
  proof (cases "str_find s what nxt")
    case None
    then show ?thesis
      using str_find_None [OF None assms(1)] by (simp add: replace_loop.simps)
  next
    case (Some p)
    let ?s = "take p s @ with @ drop (p + length what) s"
    from str_find_Some [OF Some, of "with"] assms(1) have p: "nxt \<le> p"
      "p + length what \<le> length s" "take (length what) (drop p s) = what"
      and sp: "subst_all (drop nxt s) what with =
        take (p - nxt) (drop nxt s) @ subst_all (drop p s) what with" by auto
    have ds: "drop (p + length with) ?s = drop (p + length what) s"
      and ts: "take (p + length with) ?s = take p s @ with" using p by simp_all
    have lt: "length ?s - (p + length with) < length s - nxt"
      using p assms(1) by (cases what) auto
    have le: "p + length with \<le> length ?s" using p(2) by simp
    from less(1) [OF lt le] obtain n where
      "replace_loop ?s what with (p + length with) (Suc count) =
        Some (take p s @ with @ subst_all (drop (p + length what) s) what with, n)"
      unfolding ds ts append_assoc by blast
    moreover have "subst_all (drop p s) what with = with @ subst_all (drop (p + length what) s) what with"
      using subst_all_match [OF assms(1) p(3)] by (simp add: add.commute)
    moreover have "take p s = take nxt s @ take (p - nxt) (drop nxt s)"
      using p(1) by (metis le_add_diff_inverse take_add)
    ultimately show ?thesis
      using Some sp by (simp add: replace_loop.simps [of s])
  qed
qed

theorem replace_all_returns:
  "what \<noteq> [] \<Longrightarrow> \<exists>n. replace_all s what with = Some (subst_all s what with, n)"
  using replace_loop_returns [of what 0 s "with" 0] by (simp add: replace_all_def)

lemma replace_loop_empty:
  assumes ret: "replace_loop s what with nxt count = Some r"
  shows "what = [] \<longrightarrow> length s < nxt"
proof (rule replace_loop.raw_induct
    [where P = "\<lambda>s what with nxt count r. what = [] \<longrightarrow> length s < nxt", OF _ ret])
  fix f s "what" "with" nxt count r
  assume IH: "\<And>s what with nxt count r. f s what with nxt count = Some r \<Longrightarrow> what = [] \<longrightarrow> length s < nxt"
    and eq: "(case str_find s what nxt of None \<Rightarrow> Some (s, count)
      | Some p \<Rightarrow> f (take p s @ with @ drop (p + length what) s) what with
          (p + length with) (Suc count)) = Some r"
  show "what = [] \<longrightarrow> length s < nxt"
  proof (rule impI, rule ccontr)
    assume "what = []" and "\<not> length s < nxt"
    with eq have "f (take nxt s @ with @ drop nxt s) [] with (nxt + length with) (Suc count) = Some r"
      by (simp add: str_find_empty)
    from IH [OF this] \<open>\<not> length s < nxt\<close> show False by simp
  qed
qed

theorem replace_all_empty_diverges: "replace_all s [] with = None"
  using replace_loop_empty [of s "[]" "with" 0 0]
  by (cases "replace_all s [] with") (auto simp: replace_all_def)

lemma str_find_NoneD:
  "str_find s what nxt = None \<Longrightarrow> what \<noteq> [] \<Longrightarrow> nxt \<le> p \<Longrightarrow> take (length what) (drop p s) \<noteq> what"
proof (induction s what nxt rule: str_find.induct)
  case (1 s what nxt)
  show ?case
  proof (cases "nxt + length what \<le> length s")
    case True
    with "1.prems" have n: "take (length what) (drop nxt s) \<noteq> what"
      and f: "str_find s what (Suc nxt) = None"
      by (auto simp: str_find.simps [of s what nxt] split: if_splits)
    show ?thesis
      using n "1.IH" [OF True n f "1.prems"(2)] "1.prems"(3) by (cases "nxt = p") auto
  next
    case False
    with "1.prems"(2,3) have "length (take (length what) (drop p s)) < length what"
      by (cases what) auto
    then show ?thesis by (metis less_irrefl)
  qed
qed

text \<open>
  The configuration client encodes blanks as \<^verbatim>\<open>%20\<close> and the append handler decodes them: the
  two calls of \<open>replace_all\<close> are inverse on a text without a literal \<^verbatim>\<open>%20\<close>.
\<close>

lemma take2_encoded:
  assumes "take 2 (subst_all s '' '' ''%20'') = ''20''"
  shows "take 2 s = ''20''"
proof (cases s)
  case (Cons a u)
  with assms have u: "a = CHR ''2''" "take 1 (subst_all u '' '' ''%20'') = ''0''"
    by (auto simp: numeral_2_eq_2 split: if_splits)
  then show ?thesis
    using Cons by (cases u) (auto simp: numeral_2_eq_2 split: if_splits)
qed (use assms in simp)

lemma decode_encoded:
  "\<forall>p. take 3 (drop p s) \<noteq> ''%20'' \<Longrightarrow> subst_all (subst_all s '' '' ''%20'') ''%20'' '' '' = s"
proof (induction s)
  case (Cons c s)
  have tl: "\<forall>p. take 3 (drop p s) \<noteq> ''%20''"
    using Cons.prems by (metis drop_Suc_Cons)
  show ?case
  proof (cases "c = CHR '' ''")
    case True
    then show ?thesis using Cons.IH [OF tl] by simp
  next
    case False
    have take3: "take 3 (x # xs) = x # take 2 xs" for x :: char and xs
      by (simp add: numeral_eq_Suc)
    from Cons.prems have "take 3 (c # s) \<noteq> ''%20''"
      by (metis drop_0)
    then have "take 3 (c # subst_all s '' '' ''%20'') \<noteq> ''%20''"
      using take2_encoded [of s] unfolding take3 by auto
    then show ?thesis using False Cons.IH [OF tl] unfolding take3 by (simp add: numeral_2_eq_2)
  qed
qed simp

section \<open>Splitting\<close>

text \<open>\<^verbatim>\<open>src.find_first_of(sep, next)\<close>: the first position from \<open>nxt\<close> on that holds a
  character of \<open>sep\<close>.\<close>

function find_first_of :: "string \<Rightarrow> string \<Rightarrow> nat \<Rightarrow> nat option" where
  "find_first_of src sep nxt =
     (if nxt < length src then
        if src ! nxt \<in> set sep then Some nxt else find_first_of src sep (Suc nxt)
      else None)"
  by pat_completeness auto
termination
  by (relation "measure (\<lambda>(src, sep, nxt). length src - nxt)") auto

declare find_first_of.simps [simp del]

lemma find_first_of_bounds: "find_first_of src sep nxt = Some p \<Longrightarrow> nxt \<le> p \<and> p < length src"
  by (induction src sep nxt rule: find_first_of.induct)
    (subst (asm) (2) find_first_of.simps, force split: if_splits)

function split_loop :: "string \<Rightarrow> string \<Rightarrow> nat \<Rightarrow> string list \<Rightarrow> string list" where
  "split_loop src sep nxt v =
     (case find_first_of src sep nxt of
        Some cur \<Rightarrow> split_loop src sep (Suc cur) (v @ [take (cur - nxt) (drop nxt src)])
      | None \<Rightarrow> v @ [if v = [] then src else drop nxt src])"
  by pat_completeness auto
termination
  by (relation "measure (\<lambda>(src, sep, nxt, v). length src - nxt)")
    (auto dest: find_first_of_bounds)

declare split_loop.simps [simp del]

definition split :: "string \<Rightarrow> string \<Rightarrow> string list" where
  "split src sep = split_loop src sep 0 []"

text \<open>The specification: the maximal runs without a separator.\<close>

fun pieces :: "string \<Rightarrow> string \<Rightarrow> string list" where
  "pieces sep [] = [[]]"
| "pieces sep (c # s) =
     (if c \<in> set sep then [] # pieces sep s
      else (c # hd (pieces sep s)) # tl (pieces sep s))"

lemma pieces_not_Nil [simp]: "pieces sep s \<noteq> []"
  by (cases s) auto

lemma pieces_None: "find_first_of s sep nxt = None \<Longrightarrow> pieces sep (drop nxt s) = [drop nxt s]"
proof (induction s sep nxt rule: find_first_of.induct)
  case (1 s sep nxt)
  show ?case
  proof (cases "nxt < length s")
    case True
    with "1.prems" have "s ! nxt \<notin> set sep" "find_first_of s sep (Suc nxt) = None"
      by (auto simp: find_first_of.simps [of s sep nxt] split: if_splits)
    with "1.IH" True show ?thesis by (simp add: Cons_nth_drop_Suc [symmetric])
  qed simp
qed

lemma pieces_Some:
  "find_first_of s sep nxt = Some p \<Longrightarrow>
   pieces sep (drop nxt s) = take (p - nxt) (drop nxt s) # pieces sep (drop (Suc p) s)"
proof (induction s sep nxt rule: find_first_of.induct)
  case (1 s sep nxt)
  from find_first_of_bounds [OF "1.prems"] have n: "nxt < length s" by simp
  then have d: "drop nxt s = s ! nxt # drop (Suc nxt) s"
    by (simp add: Cons_nth_drop_Suc)
  show ?case
  proof (cases "s ! nxt \<in> set sep")
    case True
    with "1.prems" n have "p = nxt" by (simp add: find_first_of.simps [of s sep nxt])
    with True d show ?thesis by simp
  next
    case False
    with "1.prems" n have f: "find_first_of s sep (Suc nxt) = Some p"
      by (simp add: find_first_of.simps [of s sep nxt])
    from find_first_of_bounds [OF this] have "p - nxt = Suc (p - Suc nxt)" by linarith
    with "1.IH" [OF n False f] False d show ?thesis by simp
  qed
qed

lemma split_loop_pieces:
  "v \<noteq> [] \<or> nxt = 0 \<Longrightarrow> split_loop s sep nxt v = v @ pieces sep (drop nxt s)"
proof (induction s sep nxt v rule: split_loop.induct)
  case (1 s sep nxt v)
  then show ?case
    by (cases "find_first_of s sep nxt")
      (auto simp: split_loop.simps [of s sep nxt v] pieces_None pieces_Some)
qed

lemma split_pieces: "split s sep = pieces sep s"
  by (simp add: split_def split_loop_pieces)

lemma pieces_no_sep: "x \<in> set (pieces sep s) \<Longrightarrow> set x \<inter> set sep = {}"
proof (induction s arbitrary: x)
  case (Cons c s)
  have "set (hd (pieces sep s)) \<inter> set sep = {}"
    by (intro Cons.IH) simp
  with Cons show ?case
    by (fastforce split: if_splits dest: list.set_sel(2) [OF pieces_not_Nil])
qed simp

lemma join_pieces: "join c (pieces [c] s) = s"
proof (induction s)
  case (Cons a s)
  then show ?case
    by (cases "pieces [c] s" rule: list.exhaust) (auto simp: join_Cons split: if_splits)
qed simp

lemma pieces_append_sep:
  "set x \<inter> set sep = {} \<Longrightarrow> c \<in> set sep \<Longrightarrow> pieces sep (x @ c # s) = x # pieces sep s"
  by (induction x) auto

lemma pieces_no_occ: "set x \<inter> set sep = {} \<Longrightarrow> pieces sep x = [x]"
  by (induction x) auto

lemma pieces_join:
  "xs \<noteq> [] \<Longrightarrow> \<forall>x \<in> set xs. c \<notin> set x \<Longrightarrow> pieces [c] (join c xs) = xs"
proof (induction xs)
  case (Cons x xs)
  then show ?case
    by (cases "xs = []") (auto simp: join_Cons pieces_no_occ pieces_append_sep)
qed simp

end
