(* ===== verification/Entry_Layout.thy ===== *)
theory Entry_Layout
  imports Mapped_File Utils
begin

text \<open>
  The two structures \<^verbatim>\<open>src/raft/entry_logger.hpp\<close> keeps in mapped files, \<open>log_entry\<close> and
  \<open>states\<close>, with the byte images they have in the mapping (x86-64: five 8-byte fields, the
  \<^verbatim>\<open>bool cfg\<close> padded to 8 bytes; then the flexible array), and the functions that build them.
  The lemmas say that a structure read back from its image is the structure, that a built entry is
  well formed, and that the text and the previous configuration index it carries come back out.
\<close>

section \<open>struct log\_entry\<close>

record log_entry =
  e_size :: nat
  e_index :: nat
  e_term :: nat
  e_cfg :: bool
  e_len :: nat
  e_data :: string

definition log_entry_size :: nat where
  "log_entry_size = 40"

definition log_entry_alignment_bits :: nat where
  "log_entry_alignment_bits = 3"

definition log_end_marker :: nat where
  "log_end_marker = 0"

definition log_end_marker_size :: nat where
  "log_end_marker_size = 8"

lemmas layout_consts [simp] =
  log_entry_size_def log_entry_alignment_bits_def log_end_marker_def log_end_marker_size_def

definition log_entry_sentry :: log_entry where
  "log_entry_sentry = \<lparr>e_size = log_entry_size, e_index = 0, e_term = 0, e_cfg = False, e_len = 0, e_data = []\<rparr>"

definition entry_bytes :: "log_entry \<Rightarrow> string" where
  "entry_bytes e = enc64 (e_size e) @ enc64 (e_index e) @ enc64 (e_term e) @
     (if e_cfg e then CHR 0x01 else CHR 0x00) # replicate 7 (CHR 0x00) @ enc64 (e_len e) @ e_data e"

definition read_entry :: "mem \<Rightarrow> nat \<Rightarrow> log_entry" where
  "read_entry m p = \<lparr>e_size = load64 m p, e_index = load64 m (p + 8), e_term = load64 m (p + 16),
     e_cfg = (m (p + 24) \<noteq> CHR 0x00), e_len = load64 m (p + 32),
     e_data = load_bytes m (p + 40) (load64 m p - 40)\<rparr>"

text \<open>\<^verbatim>\<open>cfg * sizeof(uint64_t)\<close>: a configuration entry starts with the index of the previous one.\<close>

definition cfg_offset :: "bool \<Rightarrow> nat" where
  "cfg_offset cfg = (if cfg then 8 else 0)"

definition str :: "log_entry \<Rightarrow> string" where
  "str e = take (e_len e - cfg_offset (e_cfg e)) (drop (cfg_offset (e_cfg e)) (e_data e))"

definition prev_cfg :: "log_entry \<Rightarrow> nat" where
  "prev_cfg e = unat (ntoh64 (word_of_nat (dec_le (take 8 (e_data e)))))"

definition entry_to_string :: "log_entry \<Rightarrow> string" where
  "entry_to_string t =
     ''[size: '' @ to_string (e_size t) @ '', '' @
     ''index: '' @ to_string (e_index t) @ '', '' @
     ''term: '' @ to_string (e_term t) @ '', '' @
     ''cfg: '' @ to_string (of_bool (e_cfg t)) @ '', '' @
     ''data: '' @ [CHR 0x27] @ str t @ [CHR 0x27, CHR '']'']"

definition make_log_entry :: "nat \<Rightarrow> bool \<Rightarrow> log_entry" where
  "make_log_entry len cfg =
     (let offset = cfg_offset cfg;
          total = round_up log_entry_alignment_bits (log_entry_size + offset + len)
      in \<lparr>e_size = total, e_index = 0, e_term = 0, e_cfg = False, e_len = len + offset,
          e_data = replicate (total - log_entry_size) (CHR 0x00)\<rparr>)"

definition overwrite :: "nat \<Rightarrow> string \<Rightarrow> string \<Rightarrow> string" where
  "overwrite i bs xs = take i xs @ bs @ drop (i + length bs) xs"

text \<open>
  \<open>entry_logger::copy(entry, data, cfg)\<close>; \<open>last_cfg\<close> is the logger's configuration index.
  \<^verbatim>\<open>data.c_str()\<close> is the text and a NUL.
\<close>

definition copy_entry :: "nat \<Rightarrow> log_entry \<Rightarrow> string \<Rightarrow> bool \<Rightarrow> log_entry" where
  "copy_entry last_cfg e d cfg =
     (let offset = cfg_offset cfg;
          data1 = (if cfg then overwrite 0 (enc64 (unat (hton64 (word_of_nat last_cfg)))) (e_data e) else e_data e)
      in e\<lparr>e_data := overwrite offset (take (e_len e - offset) (d @ [CHR 0x00])) data1\<rparr>)"

text \<open>\<open>raft_impl::make_entry(data, index, term, cfg)\<close>.\<close>

definition make_entry :: "nat \<Rightarrow> string \<Rightarrow> nat \<Rightarrow> nat \<Rightarrow> bool \<Rightarrow> log_entry" where
  "make_entry last_cfg d idx term cfg =
     (let e = make_log_entry (length d) cfg in
      copy_entry last_cfg (e\<lparr>e_index := idx, e_term := term, e_cfg := cfg\<rparr>) d cfg)"

definition wf_entry :: "log_entry \<Rightarrow> bool" where
  "wf_entry e \<longleftrightarrow> e_size e = 40 + length (e_data e) \<and> e_size e < u64_bound \<and> e_index e < u64_bound \<and>
     e_term e < u64_bound \<and> e_len e \<le> length (e_data e) \<and> cfg_offset (e_cfg e) \<le> e_len e"

lemma wf_entryD:
  assumes "wf_entry e"
  shows "e_size e = 40 + length (e_data e)" "e_size e < u64_bound" "e_index e < u64_bound"
    "e_term e < u64_bound" "e_len e \<le> length (e_data e)" "cfg_offset (e_cfg e) \<le> e_len e"
    "40 \<le> e_size e" "e_len e < u64_bound"
  using assms by (auto simp: wf_entry_def)

lemma wf_sentry [simp]: "wf_entry log_entry_sentry"
  by (simp add: wf_entry_def log_entry_sentry_def cfg_offset_def)

lemma sentry_sel [simp]:
  "e_size log_entry_sentry = 40" "e_index log_entry_sentry = 0" "e_term log_entry_sentry = 0"
  "e_cfg log_entry_sentry = False" "e_len log_entry_sentry = 0" "e_data log_entry_sentry = []"
  by (simp_all add: log_entry_sentry_def)

lemma length_entry_bytes [simp]: "length (entry_bytes e) = 40 + length (e_data e)"
  by (simp add: entry_bytes_def)

lemma length_overwrite [simp]: "i + length bs \<le> length xs \<Longrightarrow> length (overwrite i bs xs) = length xs"
  by (simp add: overwrite_def)

subsection \<open>Reading an entry back\<close>

lemma image_parts:
  assumes "load_bytes m p (e_size e) = entry_bytes e" and "wf_entry e"
  shows "load_bytes m p 8 = enc64 (e_size e)" "load_bytes m (p + 8) 8 = enc64 (e_index e)"
    "load_bytes m (p + 16) 8 = enc64 (e_term e)"
    "load_bytes m (p + 24) 1 = [if e_cfg e then CHR 0x01 else CHR 0x00]"
    "load_bytes m (p + 32) 8 = enc64 (e_len e)"
    "load_bytes m (p + 40) (length (e_data e)) = e_data e"
proof -
  note sub = load_bytes_sub [OF assms(1)]
  from assms(2) have s: "e_size e = 40 + length (e_data e)" by (simp add: wf_entry_def)
  show "load_bytes m p 8 = enc64 (e_size e)"
    using sub [of 0 8] s by (simp add: entry_bytes_def)
  show "load_bytes m (p + 8) 8 = enc64 (e_index e)"
    using sub [of 8 8] s by (simp add: entry_bytes_def)
  show "load_bytes m (p + 16) 8 = enc64 (e_term e)"
    using sub [of 16 8] s by (simp add: entry_bytes_def)
  show "load_bytes m (p + 24) 1 = [if e_cfg e then CHR 0x01 else CHR 0x00]"
    using sub [of 24 1] s by (simp add: entry_bytes_def)
  show "load_bytes m (p + 32) 8 = enc64 (e_len e)"
    using sub [of 32 8] s by (simp add: entry_bytes_def)
  show "load_bytes m (p + 40) (length (e_data e)) = e_data e"
    using sub [of 40 "length (e_data e)"] s by (simp add: entry_bytes_def)
qed

lemma read_entry_image:
  assumes "load_bytes m p (e_size e) = entry_bytes e" and "wf_entry e"
  shows "read_entry m p = e"
proof -
  note parts = image_parts [OF assms] and wf = wf_entryD [OF assms(2)]
  have "[m (p + 24)] = [if e_cfg e then CHR 0x01 else CHR 0x00]"
    using parts(4) by (simp add: load_bytes_Suc_0)
  with parts wf show ?thesis
    by (intro log_entry.equality) (simp_all add: read_entry_def dec_enc64 split: if_splits)
qed

lemma load_size_image:
  "load_bytes m p (e_size e) = entry_bytes e \<Longrightarrow> wf_entry e \<Longrightarrow> load64 m p = e_size e"
  using image_parts(1) [of m p e] wf_entryD(2) [of e] by (simp add: dec_enc64)

subsection \<open>Built entries\<close>

lemma align8:
  assumes "n + 8 \<le> u64_bound"
  shows "n \<le> round_up 3 n" "round_up 3 n < n + 8" "8 dvd round_up 3 n"
  using assms by (auto simp: round_up_eq)

lemma make_log_entry_sel [simp]:
  "e_size (make_log_entry n cfg) = round_up 3 (40 + cfg_offset cfg + n)"
  "e_len (make_log_entry n cfg) = n + cfg_offset cfg"
  "e_data (make_log_entry n cfg) = replicate (round_up 3 (40 + cfg_offset cfg + n) - 40) (CHR 0x00)"
  by (simp_all add: make_log_entry_def Let_def)

lemma copy_entry_sel [simp]:
  "e_size (copy_entry lc e d cfg) = e_size e" "e_index (copy_entry lc e d cfg) = e_index e"
  "e_term (copy_entry lc e d cfg) = e_term e" "e_cfg (copy_entry lc e d cfg) = e_cfg e"
  "e_len (copy_entry lc e d cfg) = e_len e"
  by (simp_all add: copy_entry_def Let_def)

lemma make_entry_sel [simp]:
  "e_size (make_entry lc d i t cfg) = round_up 3 (40 + cfg_offset cfg + length d)"
  "e_index (make_entry lc d i t cfg) = i" "e_term (make_entry lc d i t cfg) = t"
  "e_cfg (make_entry lc d i t cfg) = cfg" "e_len (make_entry lc d i t cfg) = length d + cfg_offset cfg"
  by (simp_all add: make_entry_def Let_def)

lemma cfg_offset_cases: "cfg_offset cfg = 0 \<and> \<not> cfg \<or> cfg_offset cfg = 8 \<and> cfg"
  by (simp add: cfg_offset_def)

lemma overwrite_0: "overwrite 0 bs xs = bs @ drop (length bs) xs"
  by (simp add: overwrite_def)

lemma overwrite_8: "length as = 8 \<Longrightarrow> overwrite 8 bs (as @ xs) = as @ bs @ drop (length bs) xs"
  by (simp add: overwrite_def)

lemma make_entry_data:
  assumes "length d + 56 \<le> u64_bound"
  shows "e_data (make_entry lc d i t cfg) =
    (if cfg then enc64 (unat (hton64 (word_of_nat lc))) else []) @ d @
    replicate (round_up 3 (40 + cfg_offset cfg + length d) - 40 - cfg_offset cfg - length d) (CHR 0x00)"
proof -
  let ?r = "round_up 3 (40 + cfg_offset cfg + length d)"
  have r: "40 + cfg_offset cfg + length d \<le> ?r"
    using assms by (intro align8(1)) (simp add: cfg_offset_def)
  show ?thesis
  proof (cases cfg)
    case True
    with r show ?thesis
      by (simp add: make_entry_def copy_entry_def Let_def cfg_offset_def overwrite_0 overwrite_8)
  next
    case False
    with r show ?thesis
      by (simp add: make_entry_def copy_entry_def Let_def cfg_offset_def overwrite_0)
  qed
qed

lemma wf_make_entry:
  assumes "length d + 56 \<le> u64_bound" and "i < u64_bound" and "t < u64_bound"
  shows "wf_entry (make_entry lc d i t cfg)"
proof -
  have "40 + cfg_offset cfg + length d + 8 \<le> u64_bound"
    using assms by (simp add: cfg_offset_def)
  note align8 [OF this]
  then show ?thesis
    using assms cfg_offset_cases [of cfg] by (auto simp: wf_entry_def make_entry_data)
qed

lemma str_make_entry:
  "length d + 56 \<le> u64_bound \<Longrightarrow> str (make_entry lc d i t cfg) = d"
  by (simp add: str_def make_entry_data cfg_offset_def)

lemma prev_cfg_make_entry:
  "length d + 56 \<le> u64_bound \<Longrightarrow> lc < u64_bound \<Longrightarrow> prev_cfg (make_entry lc d i t True) = lc"
proof -
  assume d: "length d + 56 \<le> u64_bound" and lc: "lc < u64_bound"
  let ?w = "hton64 (word_of_nat lc :: u64)"
  have "unat ?w < 2 ^ LENGTH(64)" by (rule unsigned_less)
  then have "dec_le (enc64 (unat ?w)) = unat ?w" by (simp add: dec_enc64)
  then have "prev_cfg (make_entry lc d i t True) = unat (ntoh64 (word_of_nat (unat ?w)))"
    by (simp add: prev_cfg_def make_entry_data [OF d])
  also have "\<dots> = unat (word_of_nat lc :: u64)"
    by (metis ntoh64_hton64 of_nat_unat ucast_id)
  finally show ?thesis using lc by (simp add: unat_of_nat)
qed

section \<open>struct states\<close>

record states =
  s_size :: nat
  s_last_index :: nat
  s_last_term :: nat
  s_last_len :: nat
  s_last_config :: string

definition states_size :: nat where
  "states_size = 32"

lemmas states_consts [simp] = states_size_def

definition states_bytes :: "states \<Rightarrow> string" where
  "states_bytes s = enc64 (s_size s) @ enc64 (s_last_index s) @ enc64 (s_last_term s) @
     enc64 (s_last_len s) @ s_last_config s"

text \<open>\<open>make_states\<close>: nothing for an empty configuration.\<close>

definition make_states :: "string \<Rightarrow> states option" where
  "make_states d =
     (let last_len = length d in
      if last_len = 0 then None
      else
        let total = round_up log_entry_alignment_bits (states_size + last_len)
        in Some \<lparr>s_size = total, s_last_index = 0, s_last_term = 0, s_last_len = last_len,
             s_last_config = overwrite 0 d (replicate (total - states_size) (CHR 0x00))\<rparr>)"

lemma length_states_bytes [simp]: "length (states_bytes s) = 32 + length (s_last_config s)"
  by (simp add: states_bytes_def)

lemma make_states_Some:
  assumes "make_states d = Some s" and "length d + 40 \<le> u64_bound"
  shows "s_size s = 32 + length (s_last_config s)" "s_last_len s = length d" "d \<noteq> []"
    "take (length d) (s_last_config s) = d" "8 dvd s_size s" "length d \<le> length (s_last_config s)"
    "s_size s < length d + 40"
proof -
  have "32 + length d + 8 \<le> u64_bound" using assms(2) by simp
  note al = align8 [OF this]
  show "s_size s = 32 + length (s_last_config s)" "s_last_len s = length d" "d \<noteq> []"
    "take (length d) (s_last_config s) = d" "8 dvd s_size s" "length d \<le> length (s_last_config s)"
    "s_size s < length d + 40"
    using assms al by (auto simp: make_states_def Let_def overwrite_def split: if_splits)
qed

end
