(* ===== verification/Entry_Logger.thy ===== *)
theory Entry_Logger
  imports Entry_Layout Complex_Main
begin

text \<open>
  \<^verbatim>\<open>src/raft/entry_logger.hpp\<close>, class \<open>entry_logger\<close>, at the level of bytes: the log file
  (\<open>ldbs\<close>) is a mapping that starts with a sentry entry, holds the entries one after the other
  and ends with a zero size; the stat file holds the index, term and configuration up to which the
  log has been compacted; \<open>infos\<close> is the in-memory index of offsets.  A pointer into the mapping
  is its offset.  Operations that walk memory, loop over \<^verbatim>\<open>remap\<close> or dereference what
  \<^verbatim>\<open>operator[]\<close> returned have an \<^typ>\<open>'a option\<close> result: \<^const>\<open>None\<close> is undefined behaviour (a
  null pointer dereferenced, a vector read out of range, the mapping left) or a loop that does not
  return.  The theory of the refinement shows that none of these happens.
\<close>

section \<open>State\<close>

record log_entry_info =
  i_index :: nat
  i_amount :: nat

record logger =
  lg_ldbs_size :: nat
  lg_stat_size :: nat
  lg_stat_map :: mapped_file
  lg_ldbs_map :: mapped_file
  lg_factor :: rat
  lg_infos :: "log_entry_info list"
  lg_payload :: nat
  lg_cfg :: nat               \<comment> \<open>\<^verbatim>\<open>cfg_entry_index_\<close>\<close>

text \<open>
  The constructor.  Its body corrects a growth factor below one in the parameter, which shadows
  the member: the member keeps the value it was initialised with.
\<close>

definition new_logger :: "string \<Rightarrow> string \<Rightarrow> rat \<Rightarrow> logger" where
  "new_logger stat_file ldbs_file factor =
     \<lparr>lg_ldbs_size = 0, lg_stat_size = 0,
      lg_stat_map = new_mapped_file stat_file 0 states_size,
      lg_ldbs_map = new_mapped_file ldbs_file 0 (log_entry_size + log_end_marker_size),
      lg_factor = factor, lg_infos = [], lg_payload = 0, lg_cfg = 0\<rparr>"

section \<open>Reading\<close>

definition ldbs :: "logger \<Rightarrow> mem" where
  "ldbs l = mf_mem (lg_ldbs_map l)"

definition stat :: "logger \<Rightarrow> mem" where
  "stat l = mf_mem (lg_stat_map l)"

definition last_index :: "logger \<Rightarrow> nat" where
  "last_index l = load64 (stat l) 8"

definition last_term :: "logger \<Rightarrow> nat" where
  "last_term l = load64 (stat l) 16"

definition last_config :: "logger \<Rightarrow> string" where
  "last_config l = load_bytes (stat l) 32 (load64 (stat l) 24)"

definition first_entry :: "logger \<Rightarrow> nat" where
  "first_entry l = i_amount (hd (lg_infos l))"

definition last_entry :: "logger \<Rightarrow> nat" where
  "last_entry l = i_amount (last (lg_infos l))"

text \<open>\<^verbatim>\<open>operator[]\<close>: an offset, \<^const>\<open>None\<close> for the null pointer.\<close>

definition lookup :: "logger \<Rightarrow> nat \<Rightarrow> nat option" where
  "lookup l index =
     (let infos = lg_infos l in
      if infos = [] \<or> index < i_index (hd infos) \<or> index > i_index (last infos) \<or>
         (index \<noteq> 0 \<and> length infos > 1 \<and> index < i_index (infos ! 1))
      then None
      else if index = 0 then Some (first_entry l)
      else Some (i_amount (infos ! sub64 (sub64 index (last_index l)) (i_index (hd infos)))))"

definition get_entry :: "logger \<Rightarrow> nat \<Rightarrow> log_entry option" where
  "get_entry l index = map_option (read_entry (ldbs l)) (lookup l index)"

definition first_entry_index :: "logger \<Rightarrow> nat" where
  "first_entry_index l = load64 (ldbs l) (first_entry l + 8)"

definition first_entry_term :: "logger \<Rightarrow> nat" where
  "first_entry_term l = load64 (ldbs l) (first_entry l + 16)"

definition last_entry_index :: "logger \<Rightarrow> nat" where
  "last_entry_index l = (if length (lg_infos l) = 1 then last_index l else load64 (ldbs l) (last_entry l + 8))"

definition last_entry_term :: "logger \<Rightarrow> nat" where
  "last_entry_term l = (if length (lg_infos l) = 1 then last_term l else load64 (ldbs l) (last_entry l + 16))"

definition last_entry_size :: "logger \<Rightarrow> nat" where
  "last_entry_size l = load64 (ldbs l) (last_entry l)"

definition last_entry_len :: "logger \<Rightarrow> nat" where
  "last_entry_len l = load64 (ldbs l) (last_entry l + 32)"

definition has_entry :: "logger \<Rightarrow> nat \<Rightarrow> nat \<Rightarrow> bool" where
  "has_entry l index term =
     (case get_entry l index of
        None \<Rightarrow> \<not> (last_index l \<noteq> index \<or> last_term l \<noteq> term)
      | Some entry \<Rightarrow> \<not> (e_index entry \<noteq> index \<or> e_term entry \<noteq> term))"

definition entry_conflicted :: "logger \<Rightarrow> nat \<Rightarrow> nat \<Rightarrow> bool" where
  "entry_conflicted l index term =
     (case get_entry l index of None \<Rightarrow> False | Some entry \<Rightarrow> e_term entry \<noteq> term)"

definition config_entry :: "logger \<Rightarrow> log_entry option" where
  "config_entry l = get_entry l (lg_cfg l)"

definition config :: "logger \<Rightarrow> string" where
  "config l = (case config_entry l of None \<Rightarrow> [] | Some e \<Rightarrow> str e)"

section \<open>Iterating\<close>

text \<open>
  \<open>entry_iterator\<close> holds a pointer and the size field behind it; iterators are compared by the
  size alone.
\<close>

type_synonym iterator = "nat \<times> nat"

definition iter_at :: "mem \<Rightarrow> nat \<Rightarrow> iterator" where
  "iter_at m t = (t, load64 m t)"

definition iter_neq :: "iterator \<Rightarrow> iterator \<Rightarrow> bool" where
  "iter_neq a b \<longleftrightarrow> snd a \<noteq> snd b"

definition iter_next :: "mem \<Rightarrow> iterator \<Rightarrow> iterator" where
  "iter_next m it = iter_at m (fst it + snd it)"

definition log_begin :: "mem \<Rightarrow> iterator" where
  "log_begin m = iter_at m 0"

definition log_end :: iterator where
  "log_end = (0, log_end_marker)"

text \<open>
  The offsets that \<^verbatim>\<open>for (it = begin(); it != end(); ++it)\<close> visits from \<open>it\<close> on;
  \<^const>\<open>None\<close> when an entry header does not lie in the mapping of \<open>limit\<close> bytes.
\<close>

function walk :: "mem \<Rightarrow> nat \<Rightarrow> iterator \<Rightarrow> nat list option" where
  "walk m limit it =
     (if limit < fst it + log_end_marker_size then None
      else if iter_neq it log_end then
        if limit < fst it + log_entry_size then None
        else map_option ((#) (fst it)) (walk m limit (iter_next m it))
      else Some [])"
  by pat_completeness auto
termination
  by (relation "measure (\<lambda>(m, limit, it). limit - fst it)")
    (auto simp: iter_neq_def log_end_def iter_next_def iter_at_def)

declare walk.simps [simp del]

text \<open>\<open>entry_logger::to_string\<close>.\<close>

definition log_to_string :: "logger \<Rightarrow> string option" where
  "log_to_string l =
     do {
       ps \<leftarrow> walk (ldbs l) (lg_ldbs_size l) (log_begin (ldbs l));
       Some (concat (map (\<lambda>p.
         let it = iter_at (ldbs l) p in
         str (read_entry (ldbs l) p) @
           (if iter_neq it (log_begin (ldbs l)) \<and> iter_neq (iter_next (ldbs l) it) log_end then '','' else []))
         ps))
     }"

section \<open>Growing the files\<close>

definition scaled :: "nat \<Rightarrow> rat \<Rightarrow> nat" where
  "scaled n f = nat \<lfloor>of_nat n * f\<rfloor>"

definition grow_ldbs :: "os \<Rightarrow> logger \<Rightarrow> rc_errno \<times> logger" where
  "grow_ldbs os l =
     (case remap os (scaled (lg_ldbs_size l) (lg_factor l)) (lg_ldbs_map l) of (rc, mf) \<Rightarrow>
        if rc \<noteq> RC_GOOD then (rc, l\<lparr>lg_ldbs_map := mf\<rparr>)
        else (rc, l\<lparr>lg_ldbs_map := mf, lg_ldbs_size := mf_size mf\<rparr>))"

definition grow_stat :: "os \<Rightarrow> logger \<Rightarrow> rc_errno \<times> logger" where
  "grow_stat os l =
     (case remap os (scaled (lg_stat_size l) (lg_factor l)) (lg_stat_map l) of (rc, mf) \<Rightarrow>
        if rc \<noteq> RC_GOOD then (rc, l\<lparr>lg_stat_map := mf\<rparr>)
        else (rc, l\<lparr>lg_stat_map := mf, lg_stat_size := mf_size mf\<rparr>))"

partial_function (option) grow_ldbs_loop :: "os \<Rightarrow> nat \<Rightarrow> logger \<Rightarrow> (rc_errno \<times> logger) option" where
  "grow_ldbs_loop os size_bytes l =
     (if sub64 (sub64 (lg_ldbs_size l) (lg_payload l)) log_end_marker_size \<le> size_bytes then
        (case grow_ldbs os l of (rc, l') \<Rightarrow>
           if rc \<noteq> RC_GOOD then Some (rc, l') else grow_ldbs_loop os size_bytes l')
      else Some (RC_GOOD, l))"

partial_function (option) grow_stat_loop :: "os \<Rightarrow> nat \<Rightarrow> logger \<Rightarrow> (rc_errno \<times> logger) option" where
  "grow_stat_loop os len l =
     (if sub64 (lg_stat_size l) states_size < len then
        (case grow_stat os l of (rc, l') \<Rightarrow>
           if rc \<noteq> RC_GOOD then Some (rc, l') else grow_stat_loop os len l')
      else Some (RC_GOOD, l))"

section \<open>Appending\<close>

record copy_state =
  c_mem :: mem
  c_infos :: "log_entry_info list"
  c_cfg :: nat
  c_pos :: nat
  c_tail :: nat

definition copy_step :: "log_entry \<Rightarrow> copy_state \<Rightarrow> copy_state" where
  "copy_step e c =
     (let nxt = c_tail c + load64 (c_mem c) (c_tail c);
          m = store_bytes (c_mem c) nxt (take (e_size e) (entry_bytes e));
          pos = c_pos c + load64 m (c_tail c)
      in \<lparr>c_mem = m, c_infos = c_infos c @ [\<lparr>i_index = e_index e, i_amount = pos\<rparr>],
          c_cfg = (if e_cfg e then e_index e else c_cfg c), c_pos = pos, c_tail = nxt\<rparr>)"

definition append :: "os \<Rightarrow> log_entry list \<Rightarrow> bool \<Rightarrow> logger \<Rightarrow> (rc_errno \<times> logger) option" where
  "append os entries sync l =
     (let size_bytes = sum_list (map e_size entries) in
      do {
        (rc, l1) \<leftarrow> grow_ldbs_loop os size_bytes l;
        if rc \<noteq> RC_GOOD then Some (rc, l1)
        else if lg_infos l1 = [] then None
        else
          let c = fold copy_step entries
                    \<lparr>c_mem = ldbs l1, c_infos = lg_infos l1, c_cfg = lg_cfg l1,
                     c_pos = i_amount (last (lg_infos l1)), c_tail = last_entry l1\<rparr>;
              tail = i_amount (last (c_infos c));
              nxt = tail + load64 (c_mem c) tail;
              mf = (lg_ldbs_map l1)\<lparr>mf_mem := store64 (c_mem c) nxt log_end_marker\<rparr>;
              l2 = l1\<lparr>lg_ldbs_map := mf, lg_infos := c_infos c, lg_cfg := c_cfg c,
                      lg_payload := lg_payload l1 + size_bytes\<rparr>
          in if sync then
               (case sync_range os (nxt - size_bytes) (size_bytes + log_end_marker_size) mf of
                  (rc, mf') \<Rightarrow> Some (rc, l2\<lparr>lg_ldbs_map := mf'\<rparr>))
             else Some (RC_GOOD, l2)
      })"

section \<open>Chopping the tail off\<close>

definition out_of_range :: "logger \<Rightarrow> nat \<Rightarrow> bool" where
  "out_of_range l index \<longleftrightarrow>
     index = 0 \<or> lg_infos l = [] \<or> index < i_index (hd (lg_infos l)) \<or> index > i_index (last (lg_infos l)) \<or>
     (length (lg_infos l) > 1 \<and> index < i_index (lg_infos l ! 1))"

text \<open>The previous configuration index, read from the first eight bytes of an entry's data.\<close>

definition prev_cfg_at :: "logger \<Rightarrow> nat \<Rightarrow> nat" where
  "prev_cfg_at l p = unat (ntoh64 (word_of_nat (load64 (ldbs l) (p + 40))))"

partial_function (option) chop_walk :: "logger \<Rightarrow> nat \<Rightarrow> nat \<Rightarrow> nat option" where
  "chop_walk l index cfg =
     (if index \<le> cfg then Option.bind (lookup l cfg) (\<lambda>p. chop_walk l index (prev_cfg_at l p))
      else Some cfg)"

definition chop :: "os \<Rightarrow> nat \<Rightarrow> bool \<Rightarrow> logger \<Rightarrow> (rc_errno \<times> logger) option" where
  "chop os index sync l =
     (if out_of_range l index then Some (RC_OOR, l)
      else do {
        cfg \<leftarrow> chop_walk l index (lg_cfg l);
        let i = sub64 (sub64 index (last_index l)) (i_index (hd (lg_infos l)));
            p = i_amount (lg_infos l ! i);
            mf = mf_store p (enc64 log_end_marker) (lg_ldbs_map l);
            l1 = l\<lparr>lg_cfg := cfg, lg_ldbs_map := mf, lg_payload := p,
                   lg_infos := take (sub64 index (last_index l)) (lg_infos l)\<rparr>
        in if length (lg_infos l) \<le> i then None
           else if sync then
             (case sync_range os p log_end_marker_size mf of
                (rc, mf') \<Rightarrow> Some (rc, l1\<lparr>lg_ldbs_map := mf'\<rparr>))
           else Some (RC_GOOD, l1)
      })"

section \<open>Dropping the head\<close>

text \<open>\<open>copy(states_ptr, index, term)\<close>: record what the log has been compacted up to.\<close>

definition copy_states :: "os \<Rightarrow> states option \<Rightarrow> nat \<Rightarrow> nat \<Rightarrow> logger \<Rightarrow> (rc_errno \<times> logger) option" where
  "copy_states os ps index term l =
     (let finish = (\<lambda>l. case sync_range os 0 (load64 (stat l) 0) (lg_stat_map l) of
                     (rc, mf) \<Rightarrow> Some (rc, l\<lparr>lg_stat_map := mf\<rparr>))
      in case ps of
        Some p \<Rightarrow>
          do {
            (rc, l1) \<leftarrow> grow_stat_loop os (s_last_len p) l;
            if rc \<noteq> RC_GOOD then Some (rc, l1)
            else
              let p1 = p\<lparr>s_last_index := index, s_last_term := term\<rparr>
              in finish (l1\<lparr>lg_stat_map := mf_store 0 (take (s_size p) (states_bytes p1)) (lg_stat_map l1)\<rparr>)
          }
      | None \<Rightarrow> finish (l\<lparr>lg_stat_map := mf_store 16 (enc64 term) (mf_store 8 (enc64 index) (lg_stat_map l))\<rparr>))"

partial_function (option) drop_walk :: "logger \<Rightarrow> nat \<Rightarrow> nat \<Rightarrow> nat option" where
  "drop_walk l index cfg =
     (if cfg \<noteq> 0 \<and> index < cfg then Option.bind (lookup l cfg) (\<lambda>p. drop_walk l index (prev_cfg_at l p))
      else Some cfg)"

text \<open>The move itself: the entries after \<open>index\<close> slide down behind the sentry.\<close>

definition drop_move :: "nat \<Rightarrow> logger \<Rightarrow> (nat \<times> nat \<times> logger) option" where
  "drop_move index l =
     (let infos = lg_infos l;
          nxt = index + 1;
          front = i_index (hd infos);
          i = sub64 (sub64 nxt (last_index l)) front;
          first = i_amount (infos ! (1 - front));
          final = i_amount (last infos);
          from = i_amount (infos ! i);
          until = final + last_entry_size l;
          bytes_moved = until - from;
          bytes_dropped = from - first
      in if length infos \<le> i \<or> length infos \<le> 1 - front then None
         else do {
           cur \<leftarrow> lookup l nxt;
           head \<leftarrow> lookup l (last_index l + 1);
           let m = move_bytes (ldbs l) head cur bytes_moved;
               kept = drop (index - last_index l + 1) infos;
               infos' = hd infos # map (\<lambda>x. x\<lparr>i_amount := i_amount x - bytes_dropped\<rparr>) kept;
               tail = until - bytes_dropped
           in Some (head, bytes_moved,
                l\<lparr>lg_payload := lg_payload l - bytes_dropped, lg_infos := infos',
                  lg_ldbs_map := (lg_ldbs_map l)\<lparr>mf_mem := store64 m tail log_end_marker\<rparr>\<rparr>)
         })"

definition drop_entries :: "os \<Rightarrow> nat \<Rightarrow> bool \<Rightarrow> logger \<Rightarrow> (rc_errno \<times> logger) option" where
  "drop_entries os index sync l =
     (if out_of_range l index then Some (RC_OOR, l)
      else do {
        cur_cfg \<leftarrow> drop_walk l index (lg_cfg l);
        let l1 = (if lg_cfg l \<le> index then l\<lparr>lg_cfg := 0\<rparr> else l);
            cfg_data = (if cur_cfg \<noteq> 0 then (case get_entry l1 cur_cfg of None \<Rightarrow> [] | Some e \<Rightarrow> str e) else [])
        in do {
          e \<leftarrow> get_entry l1 index;
          if index = i_index (last (lg_infos l1)) then
            do {
              (rc, l2) \<leftarrow> chop os (last_index l1 + 1) sync l1;
              if rc \<noteq> RC_GOOD then Some (rc, l2)
              else copy_states os (make_states cfg_data) index (e_term e) l2
            }
          else
            do {
              (head, bytes_moved, l2) \<leftarrow> drop_move index l1;
              (rc, l3) \<leftarrow> copy_states os (make_states cfg_data) index (e_term e) l2;
              if rc \<noteq> RC_GOOD then Some (rc, l3)
              else if sync then
                (case sync_range os head (bytes_moved + log_end_marker_size) (lg_ldbs_map l3) of
                   (rc, mf) \<Rightarrow> Some (rc, l3\<lparr>lg_ldbs_map := mf\<rparr>))
              else Some (RC_GOOD, l3)
            }
        }
      })"

section \<open>Opening the log\<close>

definition scan_step :: "mem \<Rightarrow> nat \<Rightarrow> log_entry_info list \<times> nat \<times> nat \<Rightarrow> log_entry_info list \<times> nat \<times> nat" where
  "scan_step m p = (\<lambda>(infos, payload, cfg).
     let e = read_entry m p in
     (infos @ [\<lparr>i_index = e_index e, i_amount = payload\<rparr>], payload + e_size e,
      if e_cfg e then e_index e else cfg))"

definition init_ldbs :: "os \<Rightarrow> fs \<Rightarrow> logger \<Rightarrow> (rc_errno \<times> logger \<times> fs) option" where
  "init_ldbs os fs l =
     (case map_file os (lg_ldbs_map l) fs of (rc, mf, fs1) \<Rightarrow>
        if rc \<noteq> RC_GOOD \<and> rc \<noteq> RC_MMAP_NEW_FILE then Some (rc, l\<lparr>lg_ldbs_map := mf\<rparr>, fs1)
        else
          let mf1 = (if rc = RC_MMAP_NEW_FILE
                     then snd (sync_all os (mf_store 0 (entry_bytes log_entry_sentry) mf)) else mf)
          in do {
            ps \<leftarrow> walk (mf_mem mf1) (mf_size mf1) (log_begin (mf_mem mf1));
            let (infos, payload, cfg) = fold (scan_step (mf_mem mf1)) ps (lg_infos l, lg_payload l, lg_cfg l)
            in Some (RC_GOOD, l\<lparr>lg_ldbs_map := mf1, lg_infos := infos, lg_payload := payload, lg_cfg := cfg,
                 lg_ldbs_size := mf_size mf1\<rparr>, fs1)
          })"

definition init_stat :: "os \<Rightarrow> fs \<Rightarrow> logger \<Rightarrow> rc_errno \<times> logger \<times> fs" where
  "init_stat os fs l =
     (case map_file os (lg_stat_map l) fs of (rc, mf, fs1) \<Rightarrow>
        if rc \<noteq> RC_GOOD \<and> rc \<noteq> RC_MMAP_NEW_FILE then (rc, l\<lparr>lg_stat_map := mf\<rparr>, fs1)
        else
          let t = \<lparr>s_size = states_size, s_last_index = 0, s_last_term = 0, s_last_len = 0, s_last_config = []\<rparr>;
              mf1 = (if rc = RC_MMAP_NEW_FILE then snd (sync_all os (mf_store 0 (states_bytes t) mf)) else mf)
          in (RC_GOOD, l\<lparr>lg_stat_map := mf1, lg_stat_size := mf_size mf1\<rparr>, fs1))"

definition init :: "os \<Rightarrow> fs \<Rightarrow> logger \<Rightarrow> (rc_errno \<times> logger \<times> fs) option" where
  "init os fs l =
     do {
       (rc, l1, fs1) \<leftarrow> init_ldbs os fs l;
       if rc \<noteq> RC_GOOD then Some (rc, l1, fs1) else Some (init_stat os fs1 l1)
     }"

end
