(* ===== verification/Logger_Rep.thy ===== *)
theory Logger_Rep
  imports Entry_Logger
begin

text \<open>
  The abstract log and its representation.  An abstract log is the point up to which the log has
  been compacted (index, term and configuration) and the list of entries after it.
  \<open>log_rep l a\<close> says that the bytes of the two mappings, the offset index and the counters
  of the logger \<open>l\<close> represent the abstract log \<open>a\<close>.  The lemmas compute every reading
  operation of the logger on the abstract log.
\<close>

section \<open>Offsets and images\<close>

definition total :: "log_entry list \<Rightarrow> nat" where
  "total es = sum_list (map e_size es)"

definition image :: "log_entry list \<Rightarrow> string" where
  "image es = concat (map entry_bytes es)"

fun amounts :: "nat \<Rightarrow> log_entry list \<Rightarrow> log_entry_info list" where
  "amounts p [] = []"
| "amounts p (e # es) = \<lparr>i_index = e_index e, i_amount = p\<rparr> # amounts (p + e_size e) es"

lemma total_simps [simp]:
  "total [] = 0" "total (e # es) = e_size e + total es" "total (xs @ ys) = total xs + total ys"
  by (simp_all add: total_def)

lemma image_simps [simp]:
  "image [] = []" "image (e # es) = entry_bytes e @ image es" "image (xs @ ys) = image xs @ image ys"
  by (simp_all add: image_def)

lemma length_image: "list_all wf_entry es \<Longrightarrow> length (image es) = total es"
  by (induction es) (auto simp: wf_entryD)

lemma length_amounts [simp]: "length (amounts p es) = length es"
  by (induction es arbitrary: p) auto

lemma amounts_Nil_iff [simp]: "amounts p es = [] \<longleftrightarrow> es = []"
  by (cases es) auto

lemma amounts_append: "amounts p (xs @ ys) = amounts p xs @ amounts (p + total xs) ys"
  by (induction xs arbitrary: p) (auto simp: add.assoc)

lemma amounts_nth:
  "i < length es \<Longrightarrow> amounts p es ! i = \<lparr>i_index = e_index (es ! i), i_amount = p + total (take i es)\<rparr>"
proof (induction es arbitrary: p i)
  case (Cons e es)
  then show ?case by (cases i) (auto simp: add.assoc)
qed simp

lemma take_amounts: "take i (amounts p es) = amounts p (take i es)"
  by (induction es arbitrary: p i) (simp_all add: take_Cons split: nat.split)

lemma drop_amounts: "drop i (amounts p es) = amounts (p + total (take i es)) (drop i es)"
  by (induction es arbitrary: p i) (simp_all add: drop_Cons take_Cons add.assoc split: nat.split)

lemma last_amounts:
  "es \<noteq> [] \<Longrightarrow> last (amounts p es) = \<lparr>i_index = e_index (last es), i_amount = p + total (butlast es)\<rparr>"
  by (induction es arbitrary: p) (auto simp: add.assoc)

lemma amounts_shift:
  "d \<le> p \<Longrightarrow> map (\<lambda>x. x\<lparr>i_amount := i_amount x - d\<rparr>) (amounts p es) = amounts (p - d) es"
  by (induction es arbitrary: p) auto

text \<open>An entry inside an image.\<close>

lemma image_entry:
  assumes "load_bytes m p (total (xs @ e # ys)) = image (xs @ e # ys)" and "list_all wf_entry (xs @ e # ys)"
  shows "load_bytes m (p + total xs) (e_size e) = entry_bytes e"
  using load_bytes_sub [OF assms(1), of "total xs" "e_size e"] assms(2)
  by (auto simp: length_image wf_entryD)

lemma image_entry_nth:
  assumes "load_bytes m p (total es) = image es" and "list_all wf_entry es" and "i < length es"
  shows "read_entry m (p + total (take i es)) = es ! i"
    "load64 m (p + total (take i es)) = e_size (es ! i)"
proof -
  have es: "es = take i es @ es ! i # drop (Suc i) es"
    using assms(3) by (rule id_take_nth_drop)
  have "load_bytes m (p + total (take i es)) (e_size (es ! i)) = entry_bytes (es ! i)"
    using assms(1,2) es by (intro image_entry [where ys = "drop (Suc i) es"]) auto
  moreover have "wf_entry (es ! i)" using assms(2,3) by (simp add: list_all_length)
  ultimately show "read_entry m (p + total (take i es)) = es ! i"
    "load64 m (p + total (take i es)) = e_size (es ! i)"
    by (simp_all add: read_entry_image load_size_image)
qed

section \<open>The abstract log\<close>

record alog =
  al_index :: nat
  al_term :: nat
  al_config :: string
  al_entries :: "log_entry list"

abbreviation al_last :: "alog \<Rightarrow> nat" where
  "al_last a \<equiv> al_index a + length (al_entries a)"

definition al_last_term :: "alog \<Rightarrow> nat" where
  "al_last_term a = (if al_entries a = [] then al_term a else e_term (last (al_entries a)))"

definition al_get :: "alog \<Rightarrow> nat \<Rightarrow> log_entry option" where
  "al_get a i =
     (if i = 0 then Some log_entry_sentry
      else if al_index a < i \<and> i \<le> al_last a then Some (al_entries a ! (i - al_index a - 1))
      else None)"

fun contiguous :: "nat \<Rightarrow> log_entry list \<Rightarrow> bool" where
  "contiguous base [] = True"
| "contiguous base (e # es) = (e_index e = base + 1 \<and> contiguous (base + 1) es)"

text \<open>
  The configuration entries form a chain through the indices they start with: each points below
  itself, and to a configuration entry when its target has not been compacted away.
\<close>

definition cfg_link :: "alog \<Rightarrow> nat \<Rightarrow> bool" where
  "cfg_link a i \<longleftrightarrow> i \<le> al_last a \<and>
     (al_index a < i \<longrightarrow> e_cfg (al_entries a ! (i - al_index a - 1)))"

definition cfg_chain :: "alog \<Rightarrow> bool" where
  "cfg_chain a \<longleftrightarrow> (\<forall>k < length (al_entries a). e_cfg (al_entries a ! k) \<longrightarrow>
     prev_cfg (al_entries a ! k) \<le> al_index a + k \<and> cfg_link a (prev_cfg (al_entries a ! k)))"

definition wf_alog :: "alog \<Rightarrow> bool" where
  "wf_alog a \<longleftrightarrow> list_all wf_entry (al_entries a) \<and> contiguous (al_index a) (al_entries a) \<and>
     al_last a < u64_bound \<and> al_term a < u64_bound \<and> cfg_chain a"

section \<open>Representation\<close>

definition ldbs_rep :: "logger \<Rightarrow> log_entry list \<Rightarrow> bool" where
  "ldbs_rep l es \<longleftrightarrow>
     lg_infos l = amounts 0 (log_entry_sentry # es) \<and>
     lg_payload l = total (log_entry_sentry # es) \<and>
     load_bytes (ldbs l) 0 (lg_payload l) = image (log_entry_sentry # es) \<and>
     load64 (ldbs l) (lg_payload l) = log_end_marker \<and>
     lg_payload l + log_end_marker_size \<le> lg_ldbs_size l \<and>
     mf_size (lg_ldbs_map l) = lg_ldbs_size l \<and> 4096 dvd lg_ldbs_size l"

definition stat_rep :: "logger \<Rightarrow> nat \<Rightarrow> nat \<Rightarrow> string \<Rightarrow> bool" where
  "stat_rep l i t c \<longleftrightarrow>
     load64 (stat l) 8 = i \<and> load64 (stat l) 16 = t \<and> load64 (stat l) 24 = length c \<and>
     load_bytes (stat l) 32 (length c) = c \<and> states_size + length c \<le> lg_stat_size l \<and>
     mf_size (lg_stat_map l) = lg_stat_size l \<and> 4096 dvd lg_stat_size l"

definition log_rep :: "logger \<Rightarrow> alog \<Rightarrow> bool" where
  "log_rep l a \<longleftrightarrow> wf_alog a \<and> ldbs_rep l (al_entries a) \<and>
     stat_rep l (al_index a) (al_term a) (al_config a) \<and> cfg_link a (lg_cfg l)"

lemma log_repD:
  assumes "log_rep l a"
  shows "wf_alog a" "ldbs_rep l (al_entries a)" "stat_rep l (al_index a) (al_term a) (al_config a)"
    "cfg_link a (lg_cfg l)" "list_all wf_entry (al_entries a)" "contiguous (al_index a) (al_entries a)"
    "al_last a < u64_bound" "al_term a < u64_bound" "cfg_chain a"
  using assms by (auto simp: log_rep_def wf_alog_def)

lemma log_rep_ldbs_map:
  "log_rep l a \<Longrightarrow> mf_mem mf = mf_mem (lg_ldbs_map l) \<Longrightarrow> mf_size mf = mf_size (lg_ldbs_map l) \<Longrightarrow>
   log_rep (l\<lparr>lg_ldbs_map := mf\<rparr>) a"
  by (auto simp: log_rep_def ldbs_rep_def stat_rep_def ldbs_def stat_def)

lemma contiguous_nth: "contiguous b es \<Longrightarrow> i < length es \<Longrightarrow> e_index (es ! i) = b + 1 + i"
  by (induction es arbitrary: b i) (auto simp: nth_Cons split: nat.split)

lemma contiguous_append:
  "contiguous b (xs @ ys) \<longleftrightarrow> contiguous b xs \<and> contiguous (b + length xs) ys"
  by (induction xs arbitrary: b) auto

lemma contiguous_take: "contiguous b es \<Longrightarrow> contiguous b (take n es)"
  by (metis append_take_drop_id contiguous_append)

lemma contiguous_drop: "contiguous b es \<Longrightarrow> n \<le> length es \<Longrightarrow> contiguous (b + n) (drop n es)"
  by (metis append_take_drop_id contiguous_append length_take min.absorb2)

section \<open>Reading operations on a represented log\<close>

lemma rep_infos:
  assumes "ldbs_rep l es"
  shows "lg_infos l = \<lparr>i_index = 0, i_amount = 0\<rparr> # amounts 40 es"
    "lg_infos l \<noteq> []" "hd (lg_infos l) = \<lparr>i_index = 0, i_amount = 0\<rparr>"
    "length (lg_infos l) = Suc (length es)"
    "lg_payload l = 40 + total es"
    "es \<noteq> [] \<Longrightarrow> last (lg_infos l) = \<lparr>i_index = e_index (last es), i_amount = 40 + total (butlast es)\<rparr>"
    "k < length es \<Longrightarrow> lg_infos l ! Suc k = \<lparr>i_index = e_index (es ! k), i_amount = 40 + total (take k es)\<rparr>"
  using assms by (auto simp: ldbs_rep_def amounts_nth last_amounts)

lemma rep_read:
  assumes "ldbs_rep l es" and "list_all wf_entry es"
  shows "read_entry (ldbs l) 0 = log_entry_sentry" "load64 (ldbs l) 0 = 40"
    "k < length es \<Longrightarrow> read_entry (ldbs l) (40 + total (take k es)) = es ! k"
    "k < length es \<Longrightarrow> load64 (ldbs l) (40 + total (take k es)) = e_size (es ! k)"
proof -
  have im: "load_bytes (ldbs l) 0 (total (log_entry_sentry # es)) = image (log_entry_sentry # es)"
    and wf: "list_all wf_entry (log_entry_sentry # es)"
    using assms by (auto simp: ldbs_rep_def)
  from image_entry_nth [OF im wf, of 0]
  show "read_entry (ldbs l) 0 = log_entry_sentry" "load64 (ldbs l) 0 = 40" by simp_all
  assume "k < length es"
  with image_entry_nth [OF im wf, of "Suc k"]
  show "read_entry (ldbs l) (40 + total (take k es)) = es ! k"
    "load64 (ldbs l) (40 + total (take k es)) = e_size (es ! k)" by simp_all
qed

lemma rep_last_index:
  "log_rep l a \<Longrightarrow> last_index l = al_index a"
  "log_rep l a \<Longrightarrow> last_term l = al_term a"
  "log_rep l a \<Longrightarrow> last_config l = al_config a"
  by (simp_all add: log_rep_def stat_rep_def last_index_def last_term_def last_config_def)

lemma butlast_take_last: "es \<noteq> [] \<Longrightarrow> butlast es = take (length es - 1) es"
  by (simp add: butlast_conv_take)

lemma rep_last_entry:
  assumes "log_rep l a" and "al_entries a \<noteq> []"
  shows "read_entry (ldbs l) (last_entry l) = last (al_entries a)"
    "load64 (ldbs l) (last_entry l) = e_size (last (al_entries a))"
    "last_entry l = 40 + total (butlast (al_entries a))"
    "i_index (last (lg_infos l)) = al_last a"
proof -
  let ?es = "al_entries a"
  from log_repD [OF assms(1)] have l: "ldbs_rep l ?es" "list_all wf_entry ?es" "contiguous (al_index a) ?es"
    by auto
  show le: "last_entry l = 40 + total (butlast ?es)"
    using rep_infos(6) [OF l(1) assms(2)] by (simp add: last_entry_def)
  from assms(2) have k: "length ?es - 1 < length ?es" by (cases ?es) auto
  from rep_read(3,4) [OF l(1,2) k]
  show "read_entry (ldbs l) (last_entry l) = last ?es" "load64 (ldbs l) (last_entry l) = e_size (last ?es)"
    using assms(2) by (simp_all add: le butlast_conv_take last_conv_nth)
  have "e_index (last ?es) = al_last a"
    using contiguous_nth [OF l(3) k] assms(2) k by (simp add: last_conv_nth)
  then show "i_index (last (lg_infos l)) = al_last a"
    using rep_infos(6) [OF l(1) assms(2)] by simp
qed

lemma rep_lookup:
  assumes "log_rep l a"
  shows "lookup l i =
    (if i = 0 then Some 0
     else if al_index a < i \<and> i \<le> al_last a then Some (40 + total (take (i - al_index a - 1) (al_entries a)))
     else None)"
proof -
  let ?es = "al_entries a"
  from log_repD [OF assms] have l: "ldbs_rep l ?es" "contiguous (al_index a) ?es" by auto
  note inf = rep_infos [OF l(1)]
  show ?thesis
  proof (cases "?es = []")
    case True
    then show ?thesis using inf(1) by (auto simp: lookup_def first_entry_def)
  next
    case False
    have one: "i_index (lg_infos l ! Suc 0) = al_index a + 1"
      using inf(7) [of 0] contiguous_nth [OF l(2), of 0] False by simp
    have lst: "i_index (last (lg_infos l)) = al_last a"
      using rep_last_entry(4) [OF assms False] .
    have nth: "i_amount (lg_infos l ! (i - al_index a)) = 40 + total (take (i - al_index a - 1) ?es)"
      if i: "al_index a < i" "i \<le> al_last a"
    proof -
      obtain k where k: "i - al_index a = Suc k" "k < length ?es"
        using i by (cases "i - al_index a") auto
      with inf(7) [of k] show ?thesis by simp
    qed
    from False inf(2,3,4) one lst nth rep_last_index(1) [OF assms] show ?thesis
      by (auto simp: lookup_def first_entry_def Let_def)
  qed
qed

lemma rep_get:
  assumes "log_rep l a"
  shows "get_entry l i = al_get a i"
proof -
  from log_repD [OF assms] have l: "ldbs_rep l (al_entries a)" "list_all wf_entry (al_entries a)" by auto
  have "read_entry (ldbs l) (40 + total (take (i - al_index a - 1) (al_entries a))) =
      al_entries a ! (i - al_index a - 1)" if "al_index a < i" "i \<le> al_last a"
    using that by (intro rep_read(3) [OF l]) simp
  with rep_read(1) [OF l] show ?thesis
    by (auto simp: get_entry_def rep_lookup [OF assms] al_get_def)
qed

lemma rep_last_entry_index:
  assumes "log_rep l a"
  shows "last_entry_index l = al_last a" "last_entry_term l = al_last_term a"
proof -
  let ?es = "al_entries a"
  have "ldbs_rep l ?es" using log_repD [OF assms] by auto
  note len = rep_infos(4) [OF this]
  have re: "load64 m (p + 8) = e_index (read_entry m p)" "load64 m (p + 16) = e_term (read_entry m p)" for m p
    by (simp_all add: read_entry_def)
  show "last_entry_index l = al_last a"
  proof (cases "?es = []")
    case False
    with contiguous_nth [OF log_repD(6) [OF assms], of "length ?es - 1"]
    have "e_index (last ?es) = al_last a" by (cases ?es) (auto simp: last_conv_nth)
    then show ?thesis using False len
      by (simp add: last_entry_index_def re rep_last_entry(1) [OF assms False])
  qed (use len rep_last_index [OF assms] in \<open>simp add: last_entry_index_def\<close>)
  show "last_entry_term l = al_last_term a"
    using len rep_last_index [OF assms] rep_last_entry(1) [OF assms]
    by (auto simp: last_entry_term_def al_last_term_def re)
qed

lemma al_get_index: "wf_alog a \<Longrightarrow> al_get a i = Some e \<Longrightarrow> e_index e = i"
  using contiguous_nth [of "al_index a" "al_entries a" "i - al_index a - 1"]
  by (auto simp: al_get_def wf_alog_def split: if_splits)

lemma rep_has_entry:
  "log_rep l a \<Longrightarrow> has_entry l i t \<longleftrightarrow>
     (case al_get a i of Some e \<Rightarrow> e_term e = t | None \<Rightarrow> i = al_index a \<and> t = al_term a)"
  by (auto simp: has_entry_def rep_get rep_last_index dest: log_repD(1) al_get_index split: option.splits)

lemma rep_conflicted:
  "log_rep l a \<Longrightarrow> entry_conflicted l i t \<longleftrightarrow> (case al_get a i of Some e \<Rightarrow> e_term e \<noteq> t | None \<Rightarrow> False)"
  by (simp add: entry_conflicted_def rep_get)

lemma rep_config:
  "log_rep l a \<Longrightarrow> config l = (case al_get a (lg_cfg l) of None \<Rightarrow> [] | Some e \<Rightarrow> str e)"
  by (simp add: config_def config_entry_def rep_get)

end
