(* ===== verification/Logger_Append.thy ===== *)
theory Logger_Append
  imports Logger_Rep
begin

text \<open>
  \<open>entry_logger::append\<close> on a represented log: the growth loop returns and keeps the bytes,
  the copies extend the image and the offset index, and the result represents the abstract log with
  the entries appended.  Nothing past the new end marker is written.
\<close>

section \<open>The growth loop\<close>

text \<open>Sizes stay below \<open>2 ^ 60\<close>, far from wrapping around.\<close>

abbreviation size_cap :: nat where
  "size_cap \<equiv> 1152921504606846976"

definition os_ready :: "os \<Rightarrow> logger \<Rightarrow> bool" where
  "os_ready os l \<longleftrightarrow> os_good os \<and> mf_mapped (lg_ldbs_map l) \<and> mf_mapped (lg_stat_map l) \<and> lg_factor l = 5 / 4"

lemma scaled_quarter: "scaled n (5 / 4) = 5 * n div 4"
proof -
  have "of_nat n * (5 / 4 :: rat) = of_nat (5 * n) / of_nat 4" by simp
  then show ?thesis unfolding scaled_def
    by (simp only: floor_divide_of_nat_eq nat_int)
qed

lemma quarter_grows:
  assumes "4096 dvd n" and "0 < n" and "n < size_cap"
  shows "n < page_round (5 * n div 4)" "4096 dvd page_round (5 * n div 4)" "page_round (5 * n div 4) < 2 * size_cap"
proof -
  have "5 * n div 4 + 4096 \<le> u64_bound" using assms(3) by simp
  note pr = page_round_bounds [OF this]
  from assms(1,2) have "n < 5 * n div 4" by (auto elim!: dvdE)
  with pr show "n < page_round (5 * n div 4)" "4096 dvd page_round (5 * n div 4)" by simp_all
  have "5 * n div 4 \<le> 5 * size_cap div 4"
    using assms(3) by (intro div_le_mono mult_le_mono2) simp
  with pr(2) show "page_round (5 * n div 4) < 2 * size_cap" by simp
qed

definition grown_ldbs :: "logger \<Rightarrow> logger \<Rightarrow> bool" where
  "grown_ldbs l l' \<longleftrightarrow>
     l' = l\<lparr>lg_ldbs_map := lg_ldbs_map l', lg_ldbs_size := lg_ldbs_size l'\<rparr> \<and>
     mf_mapped (lg_ldbs_map l') \<and> mf_size (lg_ldbs_map l') = lg_ldbs_size l' \<and>
     lg_ldbs_size l \<le> lg_ldbs_size l' \<and> 4096 dvd lg_ldbs_size l' \<and>
     mf_file (lg_ldbs_map l') = mf_file (lg_ldbs_map l) \<and>
     mf_synced (lg_ldbs_map l') = mf_synced (lg_ldbs_map l) \<and>
     (\<forall>a < lg_ldbs_size l. ldbs l' a = ldbs l a)"

lemma grown_ldbs_refl:
  "mf_mapped (lg_ldbs_map l) \<Longrightarrow> mf_size (lg_ldbs_map l) = lg_ldbs_size l \<Longrightarrow> 4096 dvd lg_ldbs_size l \<Longrightarrow>
   grown_ldbs l l"
  by (cases l) (simp add: grown_ldbs_def)

lemma grown_ldbs_sel:
  assumes "grown_ldbs l l'"
  shows "lg_infos l' = lg_infos l" "lg_payload l' = lg_payload l" "lg_cfg l' = lg_cfg l"
    "lg_stat_map l' = lg_stat_map l" "lg_stat_size l' = lg_stat_size l" "lg_factor l' = lg_factor l"
  using assms by (cases l; cases l'; simp add: grown_ldbs_def)+

lemma grown_ldbs_trans: "grown_ldbs l1 l2 \<Longrightarrow> grown_ldbs l2 l3 \<Longrightarrow> grown_ldbs l1 l3"
  by (cases l1; cases l2; cases l3) (auto simp: grown_ldbs_def)

lemma grow_ldbs_grown:
  assumes "os_ready os l" and "mf_size (lg_ldbs_map l) = lg_ldbs_size l" and "4096 dvd lg_ldbs_size l"
    and "0 < lg_ldbs_size l" and "lg_ldbs_size l < size_cap"
  obtains l' where "grow_ldbs os l = (RC_GOOD, l')" "grown_ldbs l l'" "lg_ldbs_size l < lg_ldbs_size l'"
proof -
  obtain rc mf where r: "remap os (scaled (lg_ldbs_size l) (lg_factor l)) (lg_ldbs_map l) = (rc, mf)"
    by fastforce
  have m: "mf_mapped (lg_ldbs_map l)" "os_good os" "lg_factor l = 5 / 4"
    using assms(1) by (auto simp: os_ready_def)
  with r remap_good have rc: "rc = RC_GOOD" by (metis fst_conv)
  let ?n = "page_round (5 * lg_ldbs_size l div 4)"
  note q = quarter_grows [OF assms(3,4,5)]
  from remap_cases [OF r m(1)] rc m(3)
  have mf: "mf_mapped mf" "mf_size mf = ?n" "mf_file mf = mf_file (lg_ldbs_map l)"
    "mf_synced mf = mf_synced (lg_ldbs_map l)"
    "mf_mem mf = (\<lambda>a. if a < mf_size (lg_ldbs_map l) \<and> a < ?n then mf_mem (lg_ldbs_map l) a else CHR 0x00)"
    by (auto simp: scaled_quarter)
  show ?thesis
  proof (rule that)
    show "grow_ldbs os l = (RC_GOOD, l\<lparr>lg_ldbs_map := mf, lg_ldbs_size := mf_size mf\<rparr>)"
      using r rc by (simp add: grow_ldbs_def)
    show "grown_ldbs l (l\<lparr>lg_ldbs_map := mf, lg_ldbs_size := mf_size mf\<rparr>)"
      using mf q assms(2) by (auto simp: grown_ldbs_def ldbs_def)
  qed (use mf q in simp)
qed

lemma grow_ldbs_loop_returns:
  assumes "os_ready os l" and "mf_size (lg_ldbs_map l) = lg_ldbs_size l" and "4096 dvd lg_ldbs_size l"
    and "lg_payload l + 8 \<le> lg_ldbs_size l" and "lg_payload l + 8 + n < size_cap"
  shows "\<exists>l'. grow_ldbs_loop os n l = Some (RC_GOOD, l') \<and> grown_ldbs l l' \<and>
    lg_payload l + 8 + n < lg_ldbs_size l'"
  using assms
proof (induction "lg_payload l + 8 + n + 1 - lg_ldbs_size l" arbitrary: l rule: less_induct)
  case less
  show ?case
  proof (cases "lg_payload l + 8 + n < lg_ldbs_size l")
    case True
    then have "\<not> lg_ldbs_size l - lg_payload l - 8 \<le> n"
      using less.prems(4) by linarith
    then have "grow_ldbs_loop os n l = Some (RC_GOOD, l)"
      using less.prems(4) by (simp add: grow_ldbs_loop.simps)
    moreover have "grown_ldbs l l"
      using less.prems(1,2,3) by (intro grown_ldbs_refl) (auto simp: os_ready_def)
    ultimately show ?thesis using True by blast
  next
    case False
    then obtain l1 where l1: "grow_ldbs os l = (RC_GOOD, l1)" "grown_ldbs l l1" "lg_ldbs_size l < lg_ldbs_size l1"
      using grow_ldbs_grown [OF less.prems(1,2,3)] less.prems(4,5) by auto
    then have same: "lg_payload l1 = lg_payload l" "os_ready os l1" "mf_size (lg_ldbs_map l1) = lg_ldbs_size l1"
      "4096 dvd lg_ldbs_size l1"
      using less.prems(1) grown_ldbs_sel [OF l1(2)] by (auto simp: grown_ldbs_def os_ready_def)
    have "lg_payload l1 + 8 + n + 1 - lg_ldbs_size l1 < lg_payload l + 8 + n + 1 - lg_ldbs_size l"
      using False l1(3) same(1) by simp
    from less.hyps [OF this same(2,3,4)] l1(3) less.prems(4,5) same(1) obtain l2 where
      "grow_ldbs_loop os n l1 = Some (RC_GOOD, l2)" "grown_ldbs l1 l2" "lg_payload l + 8 + n < lg_ldbs_size l2"
      by auto
    moreover have "lg_ldbs_size l - lg_payload l - 8 \<le> n"
      using False less.prems(4) by linarith
    then have "grow_ldbs_loop os n l = grow_ldbs_loop os n l1"
      using less.prems(4) l1(1) by (simp add: grow_ldbs_loop.simps [of os n l])
    ultimately show ?thesis using grown_ldbs_trans [OF l1(2)] by auto
  qed
qed

lemma grown_ldbs_rep:
  assumes "grown_ldbs l l'" and "ldbs_rep l es"
  shows "ldbs_rep l' es"
proof -
  have "load_bytes (ldbs l') p k = load_bytes (ldbs l) p k" if "p + k \<le> lg_ldbs_size l" for p k
    using assms(1) that by (intro load_bytes_cong) (auto simp: grown_ldbs_def)
  with assms(2) grown_ldbs_sel [OF assms(1)] show ?thesis
    using assms(1) by (auto simp: ldbs_rep_def grown_ldbs_def)
qed

section \<open>The copies\<close>

definition copy_inv :: "log_entry list \<Rightarrow> copy_state \<Rightarrow> bool" where
  "copy_inv es c \<longleftrightarrow> es \<noteq> [] \<and> load_bytes (c_mem c) 0 (total es) = image es \<and> c_infos c = amounts 0 es \<and>
     c_pos c = total (butlast es) \<and> c_tail c = total (butlast es)"

lemma total_butlast_last: "es \<noteq> [] \<Longrightarrow> total (butlast es) + e_size (last es) = total es"
  by (metis append_butlast_last_id total_simps(1,2,3) add_0_right)

lemma last_size_read:
  assumes "load_bytes m 0 (total es) = image es" and "list_all wf_entry es" and "es \<noteq> []"
  shows "load64 m (total (butlast es)) = e_size (last es)"
proof -
  have es: "es = butlast es @ last es # []" using assms(3) by simp
  have "load_bytes m (0 + total (butlast es)) (e_size (last es)) = entry_bytes (last es)"
    using assms(1,2) es by (intro image_entry [where ys = "[]"]) auto
  moreover have "wf_entry (last es)" using assms(2,3) by (simp add: list_all_iff)
  ultimately show ?thesis by (simp add: load_size_image)
qed

lemma copy_step_inv:
  assumes c: "copy_inv es c" and wf: "list_all wf_entry es" "wf_entry e"
  shows "copy_inv (es @ [e]) (copy_step e c)"
    and "c_cfg (copy_step e c) = (if e_cfg e then e_index e else c_cfg c)"
    and "\<And>a. a < total es \<or> total es + e_size e \<le> a \<Longrightarrow> c_mem (copy_step e c) a = c_mem c a"
proof -
  from c have es: "es \<noteq> []" and im: "load_bytes (c_mem c) 0 (total es) = image es"
    and inf: "c_infos c = amounts 0 es" and pos: "c_pos c = total (butlast es)" "c_tail c = total (butlast es)"
    by (auto simp: copy_inv_def)
  have sz: "load64 (c_mem c) (total (butlast es)) = e_size (last es)"
    using im wf(1) es by (rule last_size_read)
  have nxt: "total (butlast es) + e_size (last es) = total es"
    using es by (rule total_butlast_last)
  have tk: "take (e_size e) (entry_bytes e) = entry_bytes e" "length (entry_bytes e) = e_size e"
    using wf(2) by (auto simp: wf_entryD)
  let ?m = "store_bytes (c_mem c) (total es) (entry_bytes e)"
  have pre: "load_bytes ?m 0 (total es) = image es"
    using im by (simp add: mem_simps)
  have sz': "load64 ?m (total (butlast es)) = e_size (last es)"
    using pre wf(1) es by (rule last_size_read)
  have step: "copy_step e c = \<lparr>c_mem = ?m, c_infos = amounts 0 es @ [\<lparr>i_index = e_index e, i_amount = total es\<rparr>],
      c_cfg = (if e_cfg e then e_index e else c_cfg c), c_pos = total es, c_tail = total es\<rparr>"
    by (simp add: copy_step_def Let_def pos sz nxt tk sz' inf)
  have "load_bytes ?m 0 (total es + e_size e) = image es @ entry_bytes e"
    using pre tk(2) by (simp add: load_bytes_add mem_simps)
  then show "copy_inv (es @ [e]) (copy_step e c)"
    by (simp add: copy_inv_def step amounts_append)
  show "c_cfg (copy_step e c) = (if e_cfg e then e_index e else c_cfg c)" by (simp add: step)
  show "c_mem (copy_step e c) a = c_mem c a" if "a < total es \<or> total es + e_size e \<le> a" for a
    using that tk(2) by (auto simp: step store_bytes_def)
qed

definition cfg_after :: "nat \<Rightarrow> log_entry list \<Rightarrow> nat" where
  "cfg_after c es = fold (\<lambda>e c. if e_cfg e then e_index e else c) es c"

lemma cfg_after_simps [simp]:
  "cfg_after c [] = c" "cfg_after c (e # es) = cfg_after (if e_cfg e then e_index e else c) es"
  "cfg_after c (xs @ ys) = cfg_after (cfg_after c xs) ys"
  by (simp_all add: cfg_after_def)

lemma copy_fold_inv:
  assumes "copy_inv es c" and "list_all wf_entry es" and "list_all wf_entry new"
  shows "copy_inv (es @ new) (fold copy_step new c) \<and>
    c_cfg (fold copy_step new c) = cfg_after (c_cfg c) new \<and>
    (\<forall>a. a < total es \<or> total (es @ new) \<le> a \<longrightarrow> c_mem (fold copy_step new c) a = c_mem c a)"
  using assms
proof (induction new arbitrary: es c)
  case (Cons e new)
  then have wf: "list_all wf_entry (es @ [e])" "wf_entry e" by auto
  note step = copy_step_inv [OF Cons.prems(1,2) wf(2)]
  from Cons.IH [OF step(1) wf(1)] Cons.prems(3) step(2,3) show ?case
    by auto
qed simp

section \<open>Appending to the abstract log\<close>

definition al_append :: "alog \<Rightarrow> log_entry list \<Rightarrow> alog" where
  "al_append a new = a\<lparr>al_entries := al_entries a @ new\<rparr>"

lemma al_append_simps [simp]:
  "al_index (al_append a new) = al_index a" "al_term (al_append a new) = al_term a"
  "al_config (al_append a new) = al_config a" "al_entries (al_append a new) = al_entries a @ new"
  "al_append a [] = a" "al_append (al_append a xs) ys = al_append a (xs @ ys)"
  by (simp_all add: al_append_def)

lemma cfg_link_append: "cfg_link a i \<Longrightarrow> cfg_link (al_append a new) i"
  by (auto simp: cfg_link_def nth_append)

lemma cfg_after_link:
  assumes "cfg_link a c" and "contiguous (al_last a) new"
  shows "cfg_link (al_append a new) (cfg_after c new)"
  using assms
proof (induction new arbitrary: a c)
  case (Cons e new)
  have "cfg_link (al_append a [e]) (if e_cfg e then e_index e else c)"
    using Cons.prems cfg_link_append [OF Cons.prems(1), of "[e]"] by (simp add: cfg_link_def)
  moreover have "contiguous (al_last (al_append a [e])) new"
    using Cons.prems(2) by simp
  ultimately show ?case using Cons.IH [of "al_append a [e]"] by simp
qed simp

text \<open>
  What \<open>append\<close> leaves behind: the appended log, the configuration index, the bytes outside
  the written range, and with \<open>sync\<close> a flushed range that covers everything written.
\<close>

lemma append_ldbs:
  assumes "ldbs_rep l es" and "list_all wf_entry es" and "list_all wf_entry new" and "os_ready os l"
    and "lg_payload l + 8 + total new < size_cap"
  shows "\<exists>l'. append os new sync l = Some (RC_GOOD, l') \<and> ldbs_rep l' (es @ new) \<and>
    lg_cfg l' = cfg_after (lg_cfg l) new \<and> lg_stat_map l' = lg_stat_map l \<and> lg_stat_size l' = lg_stat_size l \<and>
    os_ready os l' \<and> (\<forall>a < lg_payload l. ldbs l' a = ldbs l a) \<and>
    (sync \<longrightarrow> (\<exists>p n. (p, n) \<in> set (mf_synced (lg_ldbs_map l')) \<and> p \<le> lg_payload l \<and> lg_payload l' + 8 \<le> p + n))"
proof -
  let ?old = "log_entry_sentry # es"
  have old: "list_all wf_entry ?old" "?old \<noteq> []" using assms(2) by auto
  have r: "mf_size (lg_ldbs_map l) = lg_ldbs_size l" "4096 dvd lg_ldbs_size l" "lg_payload l + 8 \<le> lg_ldbs_size l"
    using assms(1) by (auto simp: ldbs_rep_def)
  obtain l1 where l1: "grow_ldbs_loop os (total new) l = Some (RC_GOOD, l1)" "grown_ldbs l l1"
    "lg_payload l + 8 + total new < lg_ldbs_size l1"
    using grow_ldbs_loop_returns [OF assms(4) r assms(5)] by blast
  note sel = grown_ldbs_sel [OF l1(2)]
  have rep1: "ldbs_rep l1 es" using grown_ldbs_rep [OF l1(2) assms(1)] .
  have pay: "lg_payload l1 = total ?old" "lg_payload l = total ?old"
    using rep1 assms(1) by (simp_all add: ldbs_rep_def)
  define c0 where "c0 = \<lparr>c_mem = ldbs l1, c_infos = lg_infos l1, c_cfg = lg_cfg l1,
      c_pos = i_amount (last (lg_infos l1)), c_tail = last_entry l1\<rparr>"
  have "lg_infos l1 = amounts 0 ?old" using rep1 by (simp add: ldbs_rep_def)
  then have pos: "i_amount (last (lg_infos l1)) = total (butlast ?old)"
    by (simp add: last_amounts del: amounts.simps butlast.simps)
  have "load_bytes (ldbs l1) 0 (total ?old) = image ?old"
    using rep1 unfolding ldbs_rep_def by metis
  then have "copy_inv ?old c0"
    using pos \<open>lg_infos l1 = amounts 0 ?old\<close> by (simp add: copy_inv_def c0_def last_entry_def del: amounts.simps butlast.simps total_simps image_simps)
  note fold = copy_fold_inv [OF this old(1) assms(3)]
  define c where "c = fold copy_step new c0"
  have c: "copy_inv (?old @ new) c" "c_cfg c = cfg_after (lg_cfg l) new"
    "\<And>a. a < total ?old \<Longrightarrow> c_mem c a = ldbs l1 a"
    using fold sel(3) by (auto simp: c_def c0_def)
  have wf: "list_all wf_entry (?old @ new)" using old assms(3) by simp
  have tail: "i_amount (last (c_infos c)) = total (butlast (?old @ new))"
    using c(1) by (simp add: copy_inv_def last_amounts del: amounts.simps butlast.simps)
  have im: "load_bytes (c_mem c) 0 (total (?old @ new)) = image (?old @ new)"
    using c(1) by (simp add: copy_inv_def)
  have nxt: "total (butlast (?old @ new)) + load64 (c_mem c) (total (butlast (?old @ new))) = total ?old + total new"
    using last_size_read [OF im wf] total_butlast_last [of "?old @ new"] by simp
  define mf where "mf = (lg_ldbs_map l1)\<lparr>mf_mem := store64 (c_mem c) (total ?old + total new) log_end_marker\<rparr>"
  define l2 where "l2 = l1\<lparr>lg_ldbs_map := mf, lg_infos := c_infos c, lg_cfg := c_cfg c,
      lg_payload := lg_payload l1 + total new\<rparr>"
  have rep2: "ldbs_rep (l2\<lparr>lg_ldbs_map := mf'\<rparr>) (es @ new)" if "mf_mem mf' = mf_mem mf" "mf_size mf' = mf_size mf" for mf'
  proof -
    have "load_bytes (c_mem c) 0 (total ?old + total new) = image (log_entry_sentry # es @ new)"
      using im by (simp add: add.assoc)
    then show ?thesis using c(1) rep1 l1(3) pay that
      by (simp add: ldbs_rep_def l2_def mf_def ldbs_def copy_inv_def mem_simps enc_simps add.assoc)
  qed
  have app: "append os new sync l = (if sync then
      (case sync_range os (total ?old) (total new + 8) mf of (rc, mf') \<Rightarrow> Some (rc, l2\<lparr>lg_ldbs_map := mf'\<rparr>))
      else Some (RC_GOOD, l2))"
    using l1(1) rep1 tail nxt
    by (simp add: append_def Let_def total_def [symmetric] rep_infos(2) c0_def [symmetric] c_def [symmetric]
        mf_def l2_def)
  have mp: "mf_mapped mf" "os_good os" "mf_mapped (lg_ldbs_map l1)"
    using assms(4) l1(2) by (auto simp: mf_def grown_ldbs_def os_ready_def)
  obtain rc mf' where s: "sync_range os (total ?old) (total new + 8) mf = (rc, mf')" by fastforce
  note sr = sync_range_cases [OF s]
  have good: "rc = RC_GOOD" using sr(8) mp by simp
  define l' where "l' = l2\<lparr>lg_ldbs_map := if sync then mf' else mf\<rparr>"
  have "append os new sync l = Some (RC_GOOD, l')"
    using app s good by (simp add: l'_def l2_def)
  moreover have "ldbs_rep l' (es @ new)"
    using rep2 sr(1,2) by (simp add: l'_def)
  moreover have "lg_cfg l' = cfg_after (lg_cfg l) new" "lg_stat_map l' = lg_stat_map l"
    "lg_stat_size l' = lg_stat_size l" "os_ready os l'"
    using c(2) sel assms(4) mp sr(3) by (auto simp: l'_def l2_def os_ready_def)
  moreover have "\<forall>a < lg_payload l. ldbs l' a = ldbs l a"
  proof (intro allI impI)
    fix a assume a: "a < lg_payload l"
    then have "ldbs l1 a = ldbs l a"
      using l1(2) r(3) by (auto simp: grown_ldbs_def)
    moreover have "c_mem c a = ldbs l1 a" using a pay by (intro c(3)) simp
    ultimately show "ldbs l' a = ldbs l a"
      using a pay sr(1) by (auto simp: l'_def ldbs_def mf_def store_bytes_def)
  qed
  moreover have "\<exists>p n. (p, n) \<in> set (mf_synced (lg_ldbs_map l')) \<and> p \<le> lg_payload l \<and> lg_payload l' + 8 \<le> p + n"
    if sync
  proof -
    have "(total ?old - total ?old mod page_size, total new + 8 + total ?old mod page_size)
        \<in> set (mf_synced (lg_ldbs_map l'))"
      using that sr(9) [OF good] by (simp add: l'_def)
    moreover have "lg_payload l' + 8 \<le> total ?old - total ?old mod page_size + (total new + 8 + total ?old mod page_size)"
    proof -
      have "k + 8 \<le> t - t mod page_size + (n + 8 + t mod page_size)" if "k = t + n" for k t n :: nat
        using that by simp
      moreover have "lg_payload l' = total ?old + total new" using pay by (simp add: l'_def l2_def)
      ultimately show ?thesis by blast
    qed
    moreover have "total ?old - total ?old mod page_size \<le> lg_payload l"
      using pay(2) by (simp del: total_simps)
    ultimately show ?thesis by blast
  qed
  ultimately show ?thesis by blast
qed


theorem append_rep:
  assumes "log_rep l a" and "wf_alog (al_append a new)" and "os_ready os l"
    and "lg_payload l + 8 + total new < size_cap"
  shows "\<exists>l'. append os new sync l = Some (RC_GOOD, l') \<and> log_rep l' (al_append a new) \<and> os_ready os l' \<and>
    lg_cfg l' = cfg_after (lg_cfg l) new \<and> lg_payload l' = lg_payload l + total new \<and>
    (\<forall>p < lg_payload l. ldbs l' p = ldbs l p) \<and>
    (sync \<longrightarrow> (\<exists>p n. (p, n) \<in> set (mf_synced (lg_ldbs_map l')) \<and> p \<le> lg_payload l \<and> lg_payload l' + 8 \<le> p + n))"
proof -
  note rep = log_repD [OF assms(1)]
  have new: "list_all wf_entry new" "contiguous (al_last a) new"
    using assms(2) by (auto simp: wf_alog_def contiguous_append)
  obtain l' where l': "append os new sync l = Some (RC_GOOD, l')" "ldbs_rep l' (al_entries a @ new)"
    "lg_cfg l' = cfg_after (lg_cfg l) new" "lg_stat_map l' = lg_stat_map l" "lg_stat_size l' = lg_stat_size l"
    "os_ready os l'" "\<forall>p < lg_payload l. ldbs l' p = ldbs l p"
    "sync \<longrightarrow> (\<exists>p n. (p, n) \<in> set (mf_synced (lg_ldbs_map l')) \<and> p \<le> lg_payload l \<and> lg_payload l' + 8 \<le> p + n)"
    using append_ldbs [OF rep(2,5) new(1) assms(3,4), of sync] by blast
  have "stat_rep l' (al_index a) (al_term a) (al_config a)"
    using rep(3) l'(4,5) by (simp add: stat_rep_def stat_def)
  moreover have "cfg_link (al_append a new) (lg_cfg l')"
    using cfg_after_link [OF rep(4) new(2)] l'(3) by simp
  moreover have "lg_payload l' = lg_payload l + total new"
    using l'(2) rep(2) by (simp add: rep_infos(5))
  ultimately show ?thesis using l' assms(2) by (auto simp: log_rep_def)
qed

end
