(* ===== verification/Logger_Chop.thy ===== *)
theory Logger_Chop
  imports Logger_Append
begin

text \<open>
  \<open>entry_logger::chop\<close> on a represented log: out of range it changes nothing; otherwise
  the walk along the chain of configuration entries ends below the cut, the new end marker is
  written where the first removed entry was, and the result represents the log without its tail.
  When the chain is complete, the configuration index left behind is that of the last
  configuration entry kept.
\<close>

section \<open>The range check\<close>

lemma rep_front:
  assumes "log_rep l a"
  shows "i_index (hd (lg_infos l)) = 0" "lg_infos l \<noteq> []"
    "length (lg_infos l) = Suc (length (al_entries a))"
    "al_entries a \<noteq> [] \<Longrightarrow> i_index (lg_infos l ! Suc 0) = al_index a + 1"
  using log_repD(2,6) [OF assms]
    contiguous_nth [of "al_index a" "al_entries a" 0] rep_infos(7) [of l "al_entries a" 0]
  by (auto simp: rep_infos)

lemma rep_out_of_range:
  assumes "log_rep l a"
  shows "out_of_range l index \<longleftrightarrow> \<not> (al_index a < index \<and> index \<le> al_last a)"
proof (cases "al_entries a = []")
  case True
  with log_repD(2) [OF assms] have "lg_infos l = [\<lparr>i_index = 0, i_amount = 0\<rparr>]"
    by (simp add: rep_infos(1))
  with True show ?thesis by (auto simp: out_of_range_def)
next
  case False
  with rep_front [OF assms] rep_last_entry(4) [OF assms False] show ?thesis
    by (auto simp: out_of_range_def)
qed

section \<open>Following the configuration chain\<close>

lemma prev_cfg_read:
  assumes "read_entry m p = e" and "8 \<le> length (e_data e)"
  shows "unat (ntoh64 (word_of_nat (load64 m (p + 40)))) = prev_cfg e"
proof -
  have "e_data e = load_bytes m (p + 40) (load64 m p - 40)"
    using assms(1) by (auto simp: read_entry_def)
  moreover from this assms(2) have "8 \<le> load64 m p - 40" by simp
  ultimately have "take 8 (e_data e) = load_bytes m (p + 40) 8"
    using bytes.load_prefix [of 8 "load64 m p - 40" m "p + 40"] by simp
  then show ?thesis by (simp add: prev_cfg_def)
qed

lemma rep_prev_cfg:
  assumes "log_rep l a" and "k < length (al_entries a)" and "e_cfg (al_entries a ! k)"
  shows "lookup l (al_index a + k + 1) = Some (40 + total (take k (al_entries a)))"
    "prev_cfg_at l (40 + total (take k (al_entries a))) = prev_cfg (al_entries a ! k)"
proof -
  note rep = log_repD [OF assms(1)]
  have "wf_entry (al_entries a ! k)" using rep(5) assms(2) by (simp add: list_all_length)
  then have "8 \<le> length (e_data (al_entries a ! k))"
    using wf_entryD(5,6) assms(3) by (fastforce simp: cfg_offset_def)
  moreover have "read_entry (ldbs l) (40 + total (take k (al_entries a))) = al_entries a ! k"
    using rep_read(3) [OF rep(2,5) assms(2)] .
  ultimately show "prev_cfg_at l (40 + total (take k (al_entries a))) = prev_cfg (al_entries a ! k)"
    unfolding prev_cfg_at_def by (intro prev_cfg_read) auto
  show "lookup l (al_index a + k + 1) = Some (40 + total (take k (al_entries a)))"
    using assms(2) by (simp add: rep_lookup [OF assms(1)])
qed

text \<open>The walk of \<open>drop\<close> is that of \<open>chop\<close> one position further.\<close>

lemma cfg_walk_step:
  assumes "log_rep l a" and "k < length (al_entries a)" and "e_cfg (al_entries a ! k)"
    and "al_index a < index" and "index \<le> al_index a + k + 1"
  shows "chop_walk l index (al_index a + k + 1) = chop_walk l index (prev_cfg (al_entries a ! k))"
    "drop_walk l (index - 1) (al_index a + k + 1) = drop_walk l (index - 1) (prev_cfg (al_entries a ! k))"
proof -
  have "index - 1 < al_index a + k + 1" using assms(4,5) by linarith
  then show "chop_walk l index (al_index a + k + 1) = chop_walk l index (prev_cfg (al_entries a ! k))"
    "drop_walk l (index - 1) (al_index a + k + 1) = drop_walk l (index - 1) (prev_cfg (al_entries a ! k))"
    using assms(5) rep_prev_cfg [OF assms(1-3)]
    by (simp_all add: chop_walk.simps [of l index "Suc (al_index a + k)"]
        drop_walk.simps [of l "index - Suc 0" "Suc (al_index a + k)"])
qed

lemma cfg_walk_done:
  assumes "c < index"
  shows "chop_walk l index c = Some c" "drop_walk l (index - 1) c = Some c"
  using assms by (auto simp: chop_walk.simps [of l index c] drop_walk.simps [of l "index - Suc 0" c])

lemma cfg_walk_returns:
  assumes "log_rep l a" and "al_index a < index" and "cfg_link a c"
  shows "\<exists>c'. chop_walk l index c = Some c' \<and> drop_walk l (index - 1) c = Some c' \<and> c' < index \<and> cfg_link a c'"
  using assms(3)
proof (induction c rule: less_induct)
  case (less c)
  show ?case
  proof (cases "index \<le> c")
    case True
    define k where "k = c - al_index a - 1"
    have c: "c = al_index a + k + 1" using True assms(2) by (simp add: k_def)
    with less.prems have k: "k < length (al_entries a)" "e_cfg (al_entries a ! k)"
      by (auto simp: cfg_link_def)
    have prev: "prev_cfg (al_entries a ! k) < c" "cfg_link a (prev_cfg (al_entries a ! k))"
      using k log_repD(9) [OF assms(1)] c by (auto simp: cfg_chain_def less_Suc_eq_le)
    show ?thesis
      using less.IH [OF prev] cfg_walk_step [OF assms(1) k assms(2)] True c by simp
  next
    case False
    with less.prems cfg_walk_done [of c index l] show ?thesis by simp
  qed
qed

text \<open>
  The chain is complete, from a configuration index \<open>b\<close> up to the compaction point on, when
  every configuration entry points to the configuration entry right before it.
\<close>

definition cfg_complete :: "nat \<Rightarrow> log_entry list \<Rightarrow> bool" where
  "cfg_complete b es \<longleftrightarrow> (\<forall>k < length es. e_cfg (es ! k) \<longrightarrow> prev_cfg (es ! k) = cfg_after b (take k es))"

lemma cfg_after_take_Suc:
  "k < length es \<Longrightarrow> cfg_after b (take (Suc k) es) = (if e_cfg (es ! k) then e_index (es ! k) else cfg_after b (take k es))"
  by (simp add: take_Suc_conv_app_nth)

lemma cfg_after_bound:
  "contiguous i es \<Longrightarrow> b \<le> i \<Longrightarrow> cfg_after b es \<le> i + length es"
  by (induction es arbitrary: i b) (fastforce)+

lemma cfg_walk_complete:
  assumes "log_rep l a" and "cfg_complete b (al_entries a)" and "b \<le> al_index a"
    and "n \<le> j" and "j \<le> length (al_entries a)" and "index = al_index a + n + 1"
  shows "chop_walk l index (cfg_after b (take j (al_entries a))) = Some (cfg_after b (take n (al_entries a))) \<and>
    drop_walk l (index - 1) (cfg_after b (take j (al_entries a))) = Some (cfg_after b (take n (al_entries a)))"
  using assms(4,5)
proof (induction "j - n" arbitrary: j)
  case 0
  have "cfg_after b (take n (al_entries a)) \<le> al_index a + length (take n (al_entries a))"
    using contiguous_take [OF log_repD(6) [OF assms(1)]] assms(3) by (rule cfg_after_bound)
  then have "cfg_after b (take n (al_entries a)) < index" using assms(6) by simp
  with 0 show ?case using cfg_walk_done by simp
next
  case (Suc d)
  then obtain i where j: "j = Suc i" "i < length (al_entries a)" "n \<le> i" by (cases j) auto
  with Suc have IH: "chop_walk l index (cfg_after b (take i (al_entries a))) = Some (cfg_after b (take n (al_entries a))) \<and>
    drop_walk l (index - 1) (cfg_after b (take i (al_entries a))) = Some (cfg_after b (take n (al_entries a)))"
    by simp
  show ?case
  proof (cases "e_cfg (al_entries a ! i)")
    case True
    have "e_index (al_entries a ! i) = al_index a + i + 1"
      using contiguous_nth [OF log_repD(6) [OF assms(1)] j(2)] by simp
    moreover have "prev_cfg (al_entries a ! i) = cfg_after b (take i (al_entries a))"
      using assms(2) True j(2) by (simp add: cfg_complete_def)
    ultimately show ?thesis
      using cfg_walk_step [OF assms(1) j(2) True, of index] assms(6) j(1,3) IH
      by (simp add: cfg_after_take_Suc j(2) True)
  next
    case False
    with IH j show ?thesis by (simp add: cfg_after_take_Suc)
  qed
qed

section \<open>The cut\<close>

definition al_chop :: "alog \<Rightarrow> nat \<Rightarrow> alog" where
  "al_chop a index = a\<lparr>al_entries := take (index - al_index a - 1) (al_entries a)\<rparr>"

lemma al_chop_simps [simp]:
  "al_index (al_chop a i) = al_index a" "al_term (al_chop a i) = al_term a" "al_config (al_chop a i) = al_config a"
  "al_entries (al_chop a i) = take (i - al_index a - 1) (al_entries a)"
  by (simp_all add: al_chop_def)

lemma cfg_link_chop:
  assumes "cfg_link a c" and "c < index" and "al_index a < index" and "index \<le> al_last a"
  shows "cfg_link (al_chop a index) c"
  using assms by (auto simp: cfg_link_def)

lemma wf_al_chop:
  assumes "wf_alog a" and "al_index a < index" and "index \<le> al_last a"
  shows "wf_alog (al_chop a index)"
proof -
  have "list_all wf_entry (take (index - al_index a - 1) (al_entries a))"
    using assms(1) by (auto simp: wf_alog_def list_all_iff dest: in_set_takeD)
  moreover have "cfg_chain (al_chop a index)"
    unfolding cfg_chain_def
  proof (intro allI impI conjI)
    fix k assume k: "k < length (al_entries (al_chop a index))" "e_cfg (al_entries (al_chop a index) ! k)"
    then have e: "k < length (al_entries a)" "e_cfg (al_entries a ! k)"
      "al_entries (al_chop a index) ! k = al_entries a ! k" by auto
    with assms(1) have p: "prev_cfg (al_entries a ! k) \<le> al_index a + k" "cfg_link a (prev_cfg (al_entries a ! k))"
      by (auto simp: wf_alog_def cfg_chain_def)
    then show "prev_cfg (al_entries (al_chop a index) ! k) \<le> al_index (al_chop a index) + k" using e by simp
    from p(1) k(1) assms(2) have "prev_cfg (al_entries a ! k) < index" by (auto simp: less_diff_conv)
    from cfg_link_chop [OF p(2) this assms(2,3)]
    show "cfg_link (al_chop a index) (prev_cfg (al_entries (al_chop a index) ! k))" using e by simp
  qed
  ultimately show ?thesis
    using assms by (auto simp: wf_alog_def contiguous_take)
qed

lemma ldbs_rep_cut:
  assumes "ldbs_rep l es" and "list_all wf_entry es" and "k \<le> length es" and p: "p = 40 + total (take k es)"
    and "mf_mem mf = store64 (ldbs l) p log_end_marker" and "mf_size mf = lg_ldbs_size l"
    and "lg_ldbs_map l' = mf" and "lg_ldbs_size l' = lg_ldbs_size l" and "lg_payload l' = p"
    and "lg_infos l' = take (Suc k) (lg_infos l)"
  shows "ldbs_rep l' (take k es)"
proof -
  note inf = rep_infos [OF assms(1)]
  have tot: "total es = total (take k es) + total (drop k es)"
    by (metis append_take_drop_id total_simps(3))
  have im: "load_bytes (ldbs l) 0 (lg_payload l) = image (log_entry_sentry # es)"
    "lg_payload l + 8 \<le> lg_ldbs_size l" "4096 dvd lg_ldbs_size l"
    using assms(1) by (auto simp: ldbs_rep_def)
  have wf: "list_all wf_entry (log_entry_sentry # take k es)"
    using assms(2) by (auto simp: list_all_iff dest: in_set_takeD)
  have "image (log_entry_sentry # es) = image (log_entry_sentry # take k es) @ image (drop k es)"
    by (simp flip: image_simps(3))
  then have "take p (image (log_entry_sentry # es)) = image (log_entry_sentry # take k es)"
    using length_image [OF wf] by (simp add: p)
  moreover have "load_bytes (ldbs l) 0 p = take p (load_bytes (ldbs l) 0 (lg_payload l))"
    using tot inf(5) by (intro bytes.load_prefix) (simp add: p)
  ultimately have "load_bytes (ldbs l) 0 p = image (log_entry_sentry # take k es)"
    using im(1) by simp
  then have "load_bytes (mf_mem mf) 0 p = image (log_entry_sentry # take k es)"
    by (simp add: assms(5) mem_simps)
  with assms(5-10) im(2,3) inf(1,5) tot show ?thesis
    by (simp add: ldbs_rep_def ldbs_def mem_simps enc_simps take_amounts p)
qed

theorem chop_rep:
  assumes "log_rep l a" and "os_ready os l" and "al_index a < index" and "index \<le> al_last a"
  shows "\<exists>l'. chop os index sync l = Some (RC_GOOD, l') \<and> log_rep l' (al_chop a index) \<and> os_ready os l' \<and>
    chop_walk l index (lg_cfg l) = Some (lg_cfg l') \<and> lg_cfg l' < index \<and> lg_stat_map l' = lg_stat_map l"
proof -
  note rep = log_repD [OF assms(1)]
  define k where "k = index - al_index a - 1"
  have k: "k < length (al_entries a)" "index - al_index a = Suc k" using assms(3,4) by (auto simp: k_def)
  let ?p = "40 + total (take k (al_entries a))"
  obtain c' where c': "chop_walk l index (lg_cfg l) = Some c'" "c' < index" "cfg_link a c'"
    using cfg_walk_returns [OF assms(1,3) rep(4)] by blast
  have nth: "i_amount (lg_infos l ! Suc k) = ?p" using rep_infos(7) [OF rep(2) k(1)] by simp
  have mp: "mf_mapped (lg_ldbs_map l)" "os_good os" using assms(2) by (auto simp: os_ready_def)
  let ?mf = "mf_store ?p (enc64 log_end_marker) (lg_ldbs_map l)"
  obtain rc mf' where s: "sync_range os ?p log_end_marker_size ?mf = (rc, mf')" by fastforce
  note sr = sync_range_cases [OF s]
  have good: "rc = RC_GOOD" using sr(8) mp by simp
  define l' where "l' = l\<lparr>lg_cfg := c', lg_ldbs_map := if sync then mf' else ?mf, lg_payload := ?p,
      lg_infos := take (Suc k) (lg_infos l)\<rparr>"
  have "\<not> out_of_range l index" using assms(3,4) by (simp add: rep_out_of_range [OF assms(1)])
  then have "chop os index sync l = Some (RC_GOOD, l')"
    using c'(1) nth k s good rep_front(1,3) [OF assms(1)] rep_last_index(1) [OF assms(1)] assms(3)
    by (simp add: chop_def Let_def l'_def)
  moreover have "ldbs_rep l' (take k (al_entries a))"
    by (rule ldbs_rep_cut [OF rep(2,5), where p = ?p and mf = "lg_ldbs_map l'"])
      (use k(1) sr(1,2) rep(2) in \<open>auto simp: l'_def ldbs_def ldbs_rep_def\<close>)
  moreover have "stat_rep l' (al_index a) (al_term a) (al_config a)"
    using rep(3) by (simp add: stat_rep_def stat_def l'_def)
  moreover have "os_ready os l'" "lg_cfg l' = c'" "lg_stat_map l' = lg_stat_map l"
    using assms(2) sr(3) by (auto simp: l'_def os_ready_def)
  moreover have "wf_alog (al_chop a index)" using rep(1) assms(3,4) by (rule wf_al_chop)
  moreover have "cfg_link (al_chop a index) c'" using c'(3,2) assms(3,4) by (rule cfg_link_chop)
  ultimately show ?thesis using c' by (auto simp: log_rep_def k_def)
qed

lemma chop_out_of_range:
  assumes "log_rep l a" and "\<not> (al_index a < index \<and> index \<le> al_last a)"
  shows "chop os index sync l = Some (RC_OOR, l)"
  using assms by (simp add: chop_def rep_out_of_range)

end
