(* ===== verification/Logger_Drop.thy ===== *)
theory Logger_Drop
  imports Logger_Chop
begin

text \<open>
  \<open>entry_logger::drop\<close> on a represented log: the entries up to \<open>index\<close> leave the log, the
  rest slides down behind the sentry, and the stat file takes over the index and term of the last
  dropped entry and the configuration in force there.
\<close>

section \<open>Recording the compaction point\<close>

definition grown_stat :: "logger \<Rightarrow> logger \<Rightarrow> bool" where
  "grown_stat l l' \<longleftrightarrow>
     l' = l\<lparr>lg_stat_map := lg_stat_map l', lg_stat_size := lg_stat_size l'\<rparr> \<and>
     mf_mapped (lg_stat_map l') \<and> mf_size (lg_stat_map l') = lg_stat_size l' \<and>
     lg_stat_size l \<le> lg_stat_size l' \<and> 4096 dvd lg_stat_size l' \<and>
     mf_file (lg_stat_map l') = mf_file (lg_stat_map l) \<and>
     (\<forall>a < lg_stat_size l. stat l' a = stat l a)"

lemma grown_stat_refl:
  "mf_mapped (lg_stat_map l) \<Longrightarrow> mf_size (lg_stat_map l) = lg_stat_size l \<Longrightarrow> 4096 dvd lg_stat_size l \<Longrightarrow>
   grown_stat l l"
  by (cases l) (simp add: grown_stat_def)

lemma grown_stat_sel:
  assumes "grown_stat l l'"
  shows "lg_infos l' = lg_infos l" "lg_payload l' = lg_payload l" "lg_cfg l' = lg_cfg l"
    "lg_ldbs_map l' = lg_ldbs_map l" "lg_ldbs_size l' = lg_ldbs_size l" "lg_factor l' = lg_factor l"
  using assms by (cases l; cases l'; simp add: grown_stat_def)+

lemma grown_stat_trans: "grown_stat l1 l2 \<Longrightarrow> grown_stat l2 l3 \<Longrightarrow> grown_stat l1 l3"
  by (cases l1; cases l2; cases l3) (auto simp: grown_stat_def)

lemma grow_stat_grown:
  assumes "os_ready os l" and "mf_size (lg_stat_map l) = lg_stat_size l" and "4096 dvd lg_stat_size l"
    and "0 < lg_stat_size l" and "lg_stat_size l < size_cap"
  obtains l' where "grow_stat os l = (RC_GOOD, l')" "grown_stat l l'" "lg_stat_size l < lg_stat_size l'"
proof -
  obtain rc mf where r: "remap os (scaled (lg_stat_size l) (lg_factor l)) (lg_stat_map l) = (rc, mf)"
    by fastforce
  have m: "mf_mapped (lg_stat_map l)" "os_good os" "lg_factor l = 5 / 4"
    using assms(1) by (auto simp: os_ready_def)
  with r remap_good have rc: "rc = RC_GOOD" by (metis fst_conv)
  let ?n = "page_round (5 * lg_stat_size l div 4)"
  note q = quarter_grows [OF assms(3,4,5)]
  from remap_cases [OF r m(1)] rc m(3)
  have mf: "mf_mapped mf" "mf_size mf = ?n" "mf_file mf = mf_file (lg_stat_map l)"
    "mf_mem mf = (\<lambda>a. if a < mf_size (lg_stat_map l) \<and> a < ?n then mf_mem (lg_stat_map l) a else CHR 0x00)"
    by (auto simp: scaled_quarter)
  show ?thesis
  proof (rule that)
    show "grow_stat os l = (RC_GOOD, l\<lparr>lg_stat_map := mf, lg_stat_size := mf_size mf\<rparr>)"
      using r rc by (simp add: grow_stat_def)
    show "grown_stat l (l\<lparr>lg_stat_map := mf, lg_stat_size := mf_size mf\<rparr>)"
      using mf q assms(2) by (auto simp: grown_stat_def stat_def)
  qed (use mf q in simp)
qed

lemma grow_stat_loop_returns:
  assumes "os_ready os l" and "mf_size (lg_stat_map l) = lg_stat_size l" and "4096 dvd lg_stat_size l"
    and "32 \<le> lg_stat_size l" and "32 + n < size_cap"
  shows "\<exists>l'. grow_stat_loop os n l = Some (RC_GOOD, l') \<and> grown_stat l l' \<and> 32 + n \<le> lg_stat_size l'"
  using assms
proof (induction "32 + n - lg_stat_size l" arbitrary: l rule: less_induct)
  case less
  show ?case
  proof (cases "32 + n \<le> lg_stat_size l")
    case True
    then have "\<not> lg_stat_size l - 32 < n" by linarith
    then have "grow_stat_loop os n l = Some (RC_GOOD, l)"
      using less.prems(4) by (simp add: grow_stat_loop.simps)
    moreover have "grown_stat l l"
      using less.prems(1,2,3) by (intro grown_stat_refl) (auto simp: os_ready_def)
    ultimately show ?thesis using True by blast
  next
    case False
    then obtain l1 where l1: "grow_stat os l = (RC_GOOD, l1)" "grown_stat l l1" "lg_stat_size l < lg_stat_size l1"
      using grow_stat_grown [OF less.prems(1,2,3)] less.prems(4,5) by auto
    then have same: "os_ready os l1" "mf_size (lg_stat_map l1) = lg_stat_size l1" "4096 dvd lg_stat_size l1"
      using less.prems(1) grown_stat_sel [OF l1(2)] by (auto simp: grown_stat_def os_ready_def)
    have "32 + n - lg_stat_size l1 < 32 + n - lg_stat_size l" using False l1(3) by simp
    from less.hyps [OF this same] l1(3) less.prems(4,5) obtain l2 where
      "grow_stat_loop os n l1 = Some (RC_GOOD, l2)" "grown_stat l1 l2" "32 + n \<le> lg_stat_size l2"
      by auto
    moreover have "lg_stat_size l - 32 < n" using False less.prems(4) by linarith
    then have "grow_stat_loop os n l = grow_stat_loop os n l1"
      using less.prems(4) l1(1) by (simp add: grow_stat_loop.simps [of os n l])
    ultimately show ?thesis using grown_stat_trans [OF l1(2)] by auto
  qed
qed

text \<open>What \<open>copy(states_ptr, ...)\<close> leaves alone.\<close>

definition same_ldbs :: "logger \<Rightarrow> logger \<Rightarrow> bool" where
  "same_ldbs l l' \<longleftrightarrow> lg_infos l' = lg_infos l \<and> lg_payload l' = lg_payload l \<and> lg_cfg l' = lg_cfg l \<and>
     lg_ldbs_map l' = lg_ldbs_map l \<and> lg_ldbs_size l' = lg_ldbs_size l \<and> lg_factor l' = lg_factor l"

lemma states_bytes_stored:
  assumes "m' = store_bytes m 0 (states_bytes s)" and "s_last_index s < u64_bound" and "s_last_term s < u64_bound"
    and "s_last_len s < u64_bound" and "k \<le> length (s_last_config s)"
  shows "load64 m' 8 = s_last_index s" "load64 m' 16 = s_last_term s" "load64 m' 24 = s_last_len s"
    "load_bytes m' 32 k = take k (s_last_config s)"
proof -
  have im: "load_bytes m' 0 (length (states_bytes s)) = states_bytes s"
    by (simp add: assms(1) mem_simps)
  note sub = load_bytes_sub [OF im]
  show "load64 m' 8 = s_last_index s" "load64 m' 16 = s_last_term s" "load64 m' 24 = s_last_len s"
    using sub [of 8 8] sub [of 16 8] sub [of 24 8] assms(2-4)
    by (simp_all add: states_bytes_def dec_enc64)
  show "load_bytes m' 32 k = take k (s_last_config s)"
    using sub [of 32 k] assms(5) by (simp add: states_bytes_def)
qed

lemma copy_states_rep:
  assumes "stat_rep l i t c" and "os_ready os l" and "length d < 2 ^ 59" and "index < u64_bound" and "term < u64_bound"
  shows "\<exists>l'. copy_states os (make_states d) index term l = Some (RC_GOOD, l') \<and> same_ldbs l l' \<and> os_ready os l' \<and>
    stat_rep l' index term (if d = [] then c else d)"
proof (cases "make_states d")
  case None
  then have d: "d = []" by (auto simp: make_states_def Let_def split: if_splits)
  let ?mf = "mf_store 16 (enc64 term) (mf_store 8 (enc64 index) (lg_stat_map l))"
  obtain rc mf where s: "sync_range os 0 (load64 (mf_mem ?mf) 0) ?mf = (rc, mf)" by fastforce
  note sr = sync_range_cases [OF s]
  have "rc = RC_GOOD" using sr(8) assms(2) by (auto simp: os_ready_def)
  then have "copy_states os (make_states d) index term l = Some (RC_GOOD, l\<lparr>lg_stat_map := mf\<rparr>)"
    using None s by (simp add: copy_states_def stat_def)
  moreover have "stat_rep (l\<lparr>lg_stat_map := mf\<rparr>) index term c"
    using assms(1,4,5) sr(1,2) by (simp add: stat_rep_def stat_def mem_simps enc_simps)
  ultimately show ?thesis using d assms(2) sr(3) by (auto simp: same_ldbs_def os_ready_def)
next
  case (Some p)
  have len: "length d + 40 \<le> u64_bound" using assms(3) by simp
  note p = make_states_Some [OF Some len]
  obtain l1 where l1: "grow_stat_loop os (length d) l = Some (RC_GOOD, l1)" "grown_stat l l1"
    "32 + length d \<le> lg_stat_size l1"
    using grow_stat_loop_returns [of os l "length d"] assms(1,2,3) by (auto simp: stat_rep_def)
  note sel = grown_stat_sel [OF l1(2)]
  define p1 where "p1 = p\<lparr>s_last_index := index, s_last_term := term\<rparr>"
  let ?mf = "mf_store 0 (states_bytes p1) (lg_stat_map l1)"
  have tk: "take (s_size p) (states_bytes p1) = states_bytes p1" using p(1) by (simp add: p1_def)
  obtain rc mf where s: "sync_range os 0 (load64 (mf_mem ?mf) 0) ?mf = (rc, mf)" by fastforce
  note sr = sync_range_cases [OF s]
  have m: "os_good os" "mf_mapped (lg_stat_map l1)" using assms(2) l1(2) by (auto simp: os_ready_def grown_stat_def)
  then have "rc = RC_GOOD" using sr(8) by simp
  then have "copy_states os (make_states d) index term l = Some (RC_GOOD, l1\<lparr>lg_stat_map := mf\<rparr>)"
    using Some s l1(1) p(2) tk by (simp add: copy_states_def stat_def p1_def Let_def)
  moreover have "stat_rep (l1\<lparr>lg_stat_map := mf\<rparr>) index term d"
    using states_bytes_stored [of "mf_mem ?mf" "mf_mem (lg_stat_map l1)" p1 "length d"]
      p assms(3,4,5) l1(2,3) sr(1,2)
    by (simp add: stat_rep_def stat_def p1_def grown_stat_def)
  moreover have "same_ldbs l (l1\<lparr>lg_stat_map := mf\<rparr>)" "os_ready os (l1\<lparr>lg_stat_map := mf\<rparr>)"
    using sel assms(2) m sr(3) by (auto simp: same_ldbs_def os_ready_def)
  ultimately show ?thesis using p(3) by auto
qed

section \<open>Compacting the abstract log\<close>

definition al_drop :: "alog \<Rightarrow> nat \<Rightarrow> string \<Rightarrow> alog" where
  "al_drop a index cfg_data =
     a\<lparr>al_index := index, al_term := e_term (al_entries a ! (index - al_index a - 1)),
       al_config := (if cfg_data = [] then al_config a else cfg_data),
       al_entries := drop (index - al_index a) (al_entries a)\<rparr>"

lemma al_drop_simps [simp]:
  "al_index (al_drop a i d) = i" "al_term (al_drop a i d) = e_term (al_entries a ! (i - al_index a - 1))"
  "al_config (al_drop a i d) = (if d = [] then al_config a else d)"
  "al_entries (al_drop a i d) = drop (i - al_index a) (al_entries a)"
  by (simp_all add: al_drop_def)

lemma cfg_link_drop:
  assumes "cfg_link a c" and "al_index a < i" and "i \<le> al_last a"
  shows "cfg_link (al_drop a i d) c"
  using assms by (auto simp: cfg_link_def)

lemma cfg_link_0 [simp]: "cfg_link a 0"
  by (simp add: cfg_link_def)

lemma wf_al_drop:
  assumes "wf_alog a" and "al_index a < i" and "i \<le> al_last a"
  shows "wf_alog (al_drop a i d)"
proof -
  from assms have wf: "list_all wf_entry (al_entries a)" "contiguous (al_index a) (al_entries a)"
    "al_last a < u64_bound" by (auto simp: wf_alog_def)
  have "wf_entry (al_entries a ! (i - al_index a - 1))"
    using wf(1) assms(2,3) by (simp add: list_all_length)
  then have "e_term (al_entries a ! (i - al_index a - 1)) < u64_bound" by (rule wf_entryD)
  moreover have "list_all wf_entry (drop (i - al_index a) (al_entries a))"
    using wf(1) by (auto simp: list_all_iff dest: in_set_dropD)
  moreover have "contiguous i (drop (i - al_index a) (al_entries a))"
    using contiguous_drop [OF wf(2), of "i - al_index a"] assms(2,3) by simp
  moreover have "cfg_chain (al_drop a i d)"
    unfolding cfg_chain_def
  proof (intro allI impI conjI)
    fix k assume k: "k < length (al_entries (al_drop a i d))" "e_cfg (al_entries (al_drop a i d) ! k)"
    let ?j = "i - al_index a + k"
    have e: "al_entries (al_drop a i d) ! k = al_entries a ! ?j" "?j < length (al_entries a)"
      using k(1) assms(2,3) by auto
    with k(2) assms(1) have p: "prev_cfg (al_entries a ! ?j) \<le> al_index a + ?j" "cfg_link a (prev_cfg (al_entries a ! ?j))"
      by (auto simp: wf_alog_def cfg_chain_def)
    show "prev_cfg (al_entries (al_drop a i d) ! k) \<le> al_index (al_drop a i d) + k"
      using p(1) assms(2) unfolding e(1) by simp
    show "cfg_link (al_drop a i d) (prev_cfg (al_entries (al_drop a i d) ! k))"
      using cfg_link_drop [OF p(2) assms(2,3)] unfolding e(1) .
  qed
  ultimately show ?thesis using wf(3) assms(2,3) by (simp add: wf_alog_def)
qed

text \<open>The move of the entries after \<open>index\<close>.\<close>

lemma drop_move_rep:
  assumes "log_rep l a" and "al_index a < index" and "index < al_last a"
  shows "\<exists>l'. drop_move index l = Some (40, total (drop (index - al_index a) (al_entries a)), l') \<and>
    ldbs_rep l' (drop (index - al_index a) (al_entries a)) \<and>
    lg_cfg l' = lg_cfg l \<and> lg_stat_map l' = lg_stat_map l \<and> lg_stat_size l' = lg_stat_size l \<and>
    lg_factor l' = lg_factor l \<and> mf_mapped (lg_ldbs_map l') = mf_mapped (lg_ldbs_map l)"
proof -
  note rep = log_repD [OF assms(1)]
  let ?es = "al_entries a"
  define d where "d = index - al_index a"
  have d: "d < length ?es" "index = al_index a + d" "0 < d" using assms(2,3) by (auto simp: d_def)
  have ne: "?es \<noteq> []" using d(1) by auto
  note inf = rep_infos [OF rep(2)]
  have tot: "total ?es = total (take d ?es) + total (drop d ?es)"
    by (metis append_take_drop_id total_simps(3))
  have wfd: "list_all wf_entry (drop d ?es)" "list_all wf_entry (take d ?es)"
    using rep(5) by (auto simp: list_all_iff dest: in_set_dropD in_set_takeD)
  have from': "i_amount (lg_infos l ! Suc d) = 40 + total (take d ?es)" using inf(7) [OF d(1)] by simp
  have first: "i_amount (lg_infos l ! Suc 0) = 40" using inf(7) [of 0] ne by simp
  have until: "i_amount (last (lg_infos l)) + last_entry_size l = 40 + total ?es"
    using rep_last_entry(2,3) [OF assms(1) ne] total_butlast_last [OF ne]
    by (simp add: last_entry_size_def last_entry_def)
  have look: "lookup l (index + 1) = Some (40 + total (take d ?es))" "lookup l (last_index l + 1) = Some 40"
    using d by (simp_all add: rep_lookup [OF assms(1)] rep_last_index [OF assms(1)])
  define m where "m = store64 (move_bytes (ldbs l) 40 (40 + total (take d ?es)) (total (drop d ?es)))
      (40 + total (drop d ?es)) log_end_marker"
  define l' where "l' = l\<lparr>lg_payload := lg_payload l - total (take d ?es),
      lg_infos := hd (lg_infos l) # map (\<lambda>x. x\<lparr>i_amount := i_amount x - total (take d ?es)\<rparr>) (drop (Suc d) (lg_infos l)),
      lg_ldbs_map := (lg_ldbs_map l)\<lparr>mf_mem := m\<rparr>\<rparr>"
  have len: "length (lg_infos l) = Suc (length ?es)" "hd (lg_infos l) = \<lparr>i_index = 0, i_amount = 0\<rparr>"
    using inf(3,4) by auto
  have move: "drop_move index l = Some (40, total (drop d ?es), l')"
    using look from' first until d ne len tot rep_last_index(1) [OF assms(1)]
    by (simp add: drop_move_def Let_def l'_def m_def)
  have im: "load_bytes (ldbs l) 0 (40 + total ?es) = image (log_entry_sentry # ?es)"
    and cap: "40 + total ?es + 8 \<le> lg_ldbs_size l" "mf_size (lg_ldbs_map l) = lg_ldbs_size l" "4096 dvd lg_ldbs_size l"
    using rep(2) inf(5) by (auto simp: ldbs_rep_def)
  have parts: "image (log_entry_sentry # ?es) = image (log_entry_sentry # take d ?es) @ image (drop d ?es)"
    by (simp flip: image_simps(3))
  have "load_bytes (ldbs l) (0 + (40 + total (take d ?es))) (total (drop d ?es)) = image (drop d ?es)"
    using load_bytes_sub [OF im, of "40 + total (take d ?es)" "total (drop d ?es)"] tot
      length_image [of "log_entry_sentry # take d ?es"] length_image [OF wfd(1)] wfd(2)
    by (simp add: parts del: image_simps)
  moreover have "load_bytes (ldbs l) 0 40 = entry_bytes log_entry_sentry"
    using load_bytes_sub [OF im, of 0 40] by simp
  ultimately have "load_bytes m 0 (40 + total (drop d ?es)) = image (log_entry_sentry # drop d ?es)"
    using length_image [OF wfd(1)] by (simp add: m_def move_bytes_def load_bytes_add mem_simps)
  moreover have "map (\<lambda>x. x\<lparr>i_amount := i_amount x - total (take d ?es)\<rparr>) (drop (Suc d) (lg_infos l)) = amounts 40 (drop d ?es)"
    using inf(1) by (simp add: drop_amounts amounts_shift)
  ultimately have "ldbs_rep l' (drop d ?es)"
    using cap len(2) inf(5) tot by (simp add: ldbs_rep_def l'_def ldbs_def m_def mem_simps enc_simps)
  with move show ?thesis by (simp add: l'_def d_def)
qed

text \<open>The configuration in force at \<open>index\<close>, found through the chain.\<close>

definition cfg_data_at :: "alog \<Rightarrow> nat \<Rightarrow> string" where
  "cfg_data_at a c = (case al_get a c of None \<Rightarrow> [] | Some e \<Rightarrow> str e)"

lemma str_sentry [simp]: "str log_entry_sentry = []"
  by (simp add: str_def log_entry_sentry_def)

lemma cfg_data_at_0 [simp]: "cfg_data_at a 0 = []"
  by (simp add: cfg_data_at_def al_get_def)

lemma log_rep_lg_cfg: "log_rep l a \<Longrightarrow> cfg_link a c \<Longrightarrow> log_rep (l\<lparr>lg_cfg := c\<rparr>) a"
  by (auto simp: log_rep_def ldbs_rep_def stat_rep_def ldbs_def stat_def)

lemma length_cfg_data_at:
  assumes "wf_alog a" shows "length (cfg_data_at a c) \<le> total (al_entries a)"
proof (cases "al_get a c")
  case (Some e)
  have "length (str e) \<le> total (al_entries a)"
  proof (cases "c = 0")
    case False
    with Some have "e \<in> set (al_entries a)" by (auto simp: al_get_def split: if_splits)
    with assms have "wf_entry e" "e_size e \<le> total (al_entries a)"
      by (auto simp: wf_alog_def list_all_iff total_def intro: member_le_sum_list)
    moreover have "length (str e) \<le> e_len e" by (simp add: str_def)
    ultimately show ?thesis using wf_entryD(1,5) [of e] by linarith
  qed (use Some in \<open>simp add: al_get_def\<close>)
  with Some show ?thesis by (simp add: cfg_data_at_def)
qed (simp add: cfg_data_at_def)

lemma same_ldbs_rep: "same_ldbs l l' \<Longrightarrow> ldbs_rep l es \<Longrightarrow> ldbs_rep l' es"
  by (auto simp: same_ldbs_def ldbs_rep_def ldbs_def)

text \<open>Both branches of \<open>drop\<close> end in the same representation.\<close>

lemma drop_finish:
  assumes "log_rep l a" and "os_ready os l" and "al_index a < index" and "index \<le> al_last a" and "total (al_entries a) < 2 ^ 59"
    and l2: "ldbs_rep l2 (drop (index - al_index a) (al_entries a))" "lg_stat_map l2 = lg_stat_map l"
      "lg_stat_size l2 = lg_stat_size l" "cfg_link a (lg_cfg l2)" "os_ready os l2"
  shows "\<exists>l3. copy_states os (make_states (cfg_data_at a c)) index (e_term (al_entries a ! (index - al_index a - 1))) l2 = Some (RC_GOOD, l3) \<and>
    log_rep l3 (al_drop a index (cfg_data_at a c)) \<and> os_ready os l3 \<and> same_ldbs l2 l3"
proof -
  note rep = log_repD [OF assms(1)]
  let ?t = "e_term (al_entries a ! (index - al_index a - 1))"
  have stat2: "stat_rep l2 (al_index a) (al_term a) (al_config a)"
    using rep(3) l2(2,3) by (simp add: stat_rep_def stat_def)
  have wf: "wf_alog (al_drop a index (cfg_data_at a c))" using rep(1) assms(3,4) by (rule wf_al_drop)
  then have b: "index < u64_bound" "?t < u64_bound" by (auto simp: wf_alog_def)
  have len: "length (cfg_data_at a c) < 2 ^ 59" using length_cfg_data_at [OF rep(1)] assms(5) le_less_trans by blast
  from copy_states_rep [OF stat2 l2(5) len b] obtain l3 where
    l3: "copy_states os (make_states (cfg_data_at a c)) index ?t l2 = Some (RC_GOOD, l3)" "same_ldbs l2 l3"
      "os_ready os l3" "stat_rep l3 index ?t (if cfg_data_at a c = [] then al_config a else cfg_data_at a c)"
    by blast
  moreover have "cfg_link (al_drop a index (cfg_data_at a c)) (lg_cfg l3)"
    using cfg_link_drop [OF l2(4) assms(3,4)] l3(2) by (simp add: same_ldbs_def)
  ultimately show ?thesis
    using wf same_ldbs_rep [OF l3(2) l2(1)] by (auto simp: log_rep_def)
qed

theorem drop_rep:
  assumes "log_rep l a" and "os_ready os l" and "al_index a < index" and "index \<le> al_last a"
    and "total (al_entries a) < 2 ^ 59"
  shows "\<exists>l' c. drop_entries os index sync l = Some (RC_GOOD, l') \<and>
    chop_walk l (index + 1) (lg_cfg l) = Some c \<and> log_rep l' (al_drop a index (cfg_data_at a c)) \<and> os_ready os l' \<and>
    lg_cfg l' = (if lg_cfg l \<le> index then 0 else lg_cfg l)"
proof -
  note rep = log_repD [OF assms(1)]
  let ?t = "e_term (al_entries a ! (index - al_index a - 1))"
  obtain c where c: "chop_walk l (index + 1) (lg_cfg l) = Some c" "drop_walk l index (lg_cfg l) = Some c"
    using cfg_walk_returns [OF assms(1) _ rep(4), of "index + 1"] assms(3) by auto
  define l1 where "l1 = (if lg_cfg l \<le> index then l\<lparr>lg_cfg := 0\<rparr> else l)"
  have l1: "log_rep l1 a" "os_ready os l1" "lg_cfg l1 = (if lg_cfg l \<le> index then 0 else lg_cfg l)"
    "cfg_link a (lg_cfg l1)" "lg_stat_map l1 = lg_stat_map l" "lg_stat_size l1 = lg_stat_size l"
    "lg_infos l1 = lg_infos l"
    using log_rep_lg_cfg [OF assms(1), of 0] assms(1,2) rep(4) by (auto simp: l1_def os_ready_def)
  have data: "(if c \<noteq> 0 then (case get_entry l1 c of None \<Rightarrow> [] | Some e \<Rightarrow> str e) else []) = cfg_data_at a c"
    by (simp add: rep_get [OF l1(1)] cfg_data_at_def [symmetric])
  have get: "get_entry l1 index = Some (al_entries a ! (index - al_index a - 1))"
    using assms(3,4) by (simp add: rep_get [OF l1(1)] al_get_def)
  have oor: "\<not> out_of_range l index" using assms(3,4) by (simp add: rep_out_of_range [OF assms(1)])
  have ne: "al_entries a \<noteq> []" using assms(3,4) by auto
  have fin: "i_index (last (lg_infos l1)) = al_last a" using rep_last_entry(4) [OF l1(1) ne] .
  note run = drop_entries_def [of os index sync l, folded l1_def]
  show ?thesis
  proof (cases "index = al_last a")
    case True
    have one: "al_index a < al_index a + 1" "al_index a + 1 \<le> al_last a" using assms(3,4) by auto
    from chop_rep [OF l1(1,2) one, of sync] obtain l2 where
      l2: "chop os (al_index a + 1) sync l1 = Some (RC_GOOD, l2)" "log_rep l2 (al_chop a (al_index a + 1))"
        "os_ready os l2" "chop_walk l1 (al_index a + 1) (lg_cfg l1) = Some (lg_cfg l2)" "lg_stat_map l2 = lg_stat_map l1"
      by blast
    have "lg_cfg l \<le> index" using rep(4) True by (simp add: cfg_link_def)
    then have "lg_cfg l1 = 0" using l1(3) by simp
    then have z: "lg_cfg l2 = 0" using l2(4) by (simp add: chop_walk.simps)
    have "ldbs_rep l2 (drop (index - al_index a) (al_entries a))" "stat_rep l2 (al_index a) (al_term a) (al_config a)"
      using log_repD(2,3) [OF l2(2)] True by simp_all
    moreover from this(2) rep(3) have "lg_stat_size l2 = lg_stat_size l"
      using l2(5) l1(5) by (simp add: stat_rep_def)
    ultimately obtain l3 where l3: "copy_states os (make_states (cfg_data_at a c)) index ?t l2 = Some (RC_GOOD, l3)"
      "log_rep l3 (al_drop a index (cfg_data_at a c))" "os_ready os l3" "same_ldbs l2 l3"
      using drop_finish [OF assms, of l2 c] l2(3,5) l1(5) z by auto
    have "drop_entries os index sync l = Some (RC_GOOD, l3)"
      unfolding run using c(2) oor get fin True l2(1) l3(1) data rep_last_index(1) [OF l1(1)]
      by (simp add: Let_def)
    then show ?thesis using c(1) l3 z \<open>lg_cfg l \<le> index\<close> by (auto simp: same_ldbs_def)
  next
    case False
    with assms(4) have lt: "index < al_last a" by simp
    from drop_move_rep [OF l1(1) assms(3) lt] obtain l2 where
      l2: "drop_move index l1 = Some (40, total (drop (index - al_index a) (al_entries a)), l2)"
        "ldbs_rep l2 (drop (index - al_index a) (al_entries a))" "lg_cfg l2 = lg_cfg l1"
        "lg_stat_map l2 = lg_stat_map l1" "lg_stat_size l2 = lg_stat_size l1" "lg_factor l2 = lg_factor l1"
        "mf_mapped (lg_ldbs_map l2) = mf_mapped (lg_ldbs_map l1)"
      by blast
    have "os_ready os l2" using l1(2) l2(4,6,7) by (simp add: os_ready_def)
    then obtain l3 where l3: "copy_states os (make_states (cfg_data_at a c)) index ?t l2 = Some (RC_GOOD, l3)"
      "log_rep l3 (al_drop a index (cfg_data_at a c))" "os_ready os l3" "same_ldbs l2 l3"
      using drop_finish [OF assms, of l2 c] l2 l1 by auto
    obtain rc mf where s: "sync_range os 40 (total (drop (index - al_index a) (al_entries a)) + log_end_marker_size) (lg_ldbs_map l3) = (rc, mf)"
      by fastforce
    note sr = sync_range_cases [OF s]
    have "rc = RC_GOOD" using sr(8) l3(3) by (simp add: os_ready_def)
    define l4 where "l4 = (if sync then l3\<lparr>lg_ldbs_map := mf\<rparr> else l3)"
    have "drop_entries os index sync l = Some (RC_GOOD, l4)"
      using c oor get fin False l2(1) l3(1) s \<open>rc = RC_GOOD\<close> data by (simp add: run Let_def l4_def)
    moreover have "log_rep l4 (al_drop a index (cfg_data_at a c))"
      using l3(2) sr(1,2) by (simp add: l4_def log_rep_ldbs_map)
    moreover have "os_ready os l4" "lg_cfg l4 = lg_cfg l1"
      using l3(3,4) sr(3) l2(3) by (auto simp: l4_def os_ready_def same_ldbs_def)
    ultimately show ?thesis using c(1) l1(3) by auto
  qed
qed

end
