(* ===== verification/Logger_Init.thy ===== *)
theory Logger_Init
  imports Logger_Drop
begin

text \<open>
  \<open>entry_logger::init\<close>: on missing files it creates the empty log; on the files a represented
  log left behind it rebuilds the offset index, the payload size and the last configuration index,
  so the log survives a restart.
\<close>

section \<open>Mapping a file at start\<close>

lemma map_file_existing:
  assumes "os_good os" and "fs f = Some (n, m)" and "0 < n" and "4096 dvd n" and "n < size_cap" and "f \<noteq> []"
  obtains mf where "map_file os (new_mapped_file f 0 len) fs = (RC_GOOD, mf, fs)" "mf_mapped mf" "mf_size mf = n"
    "mf_file mf = f" "\<And>a. a < n \<Longrightarrow> mf_mem mf a = m a"
proof -
  have pr: "page_round n = n" using assms(4,5) by (simp add: page_round_id)
  show ?thesis
    using assms pr
    by (intro that [of "(new_mapped_file f 0 len)\<lparr>mf_fd := os_fd os f, mf_size := n, mf_mapped := True,
          mf_mem := file_bytes fs f, mf_live := 1\<rparr>"])
      (simp_all add: map_file_def map_open_def map_size_def new_mapped_file_def file_size_def file_bytes_def Let_def)
qed

lemma map_file_new:
  assumes "os_good os" and "fs f = None" and "0 < len" and "len \<le> 4096" and "f \<noteq> []"
  obtains mf fs' where "map_file os (new_mapped_file f 0 len) fs = (RC_MMAP_NEW_FILE, mf, fs')" "mf_mapped mf"
    "mf_size mf = 4096" "mf_file mf = f" "mf_mem mf = zero_mem" "\<And>g. g \<noteq> f \<Longrightarrow> fs' g = fs g"
proof -
  have pr: "page_round len = 4096" using assms(3,4) by (subst page_round_eq) auto
  let ?mf = "(new_mapped_file f 0 len)\<lparr>mf_fd := os_fd os f, mf_size := 4096, mf_mapped := True, mf_live := 1\<rparr>"
  show ?thesis
    using assms pr
    by (intro that [of ?mf "do_ftruncate os f 4096 (do_ftruncate os f 0 (fs(f \<mapsto> (0, zero_mem))))"])
      (simp_all add: map_file_def map_open_def map_size_def new_mapped_file_def file_size_def do_ftruncate_def Let_def)
qed

section \<open>Scanning the log\<close>

lemma image_Cons:
  assumes "load_bytes m p (total (e # es)) = image (e # es)" and "wf_entry e"
  shows "load_bytes m p (e_size e) = entry_bytes e \<and> load_bytes m (p + e_size e) (total es) = image es"
proof -
  have "load_bytes m p (e_size e) @ load_bytes m (p + e_size e) (total es) = entry_bytes e @ image es"
    using assms(1) by (simp flip: load_bytes_add)
  moreover have "length (entry_bytes e) = e_size e" using assms(2) by (simp add: wf_entryD)
  ultimately show ?thesis by simp
qed

lemma walk_image:
  assumes "load_bytes m p (total es) = image es" and "load64 m (p + total es) = 0" and "p + total es + 8 \<le> limit"
    and "list_all wf_entry es"
  shows "walk m limit (iter_at m p) = Some (map i_amount (amounts p es))"
  using assms
proof (induction es arbitrary: p)
  case Nil
  then show ?case by (subst walk.simps) (simp add: iter_at_def iter_neq_def log_end_def)
next
  case (Cons e es)
  have wf: "wf_entry e" "list_all wf_entry es" "40 \<le> e_size e"
    using Cons.prems(4) wf_entryD(7) by auto
  have parts: "load_bytes m p (e_size e) = entry_bytes e \<and> load_bytes m (p + e_size e) (total es) = image es"
    using Cons.prems(1) wf(1) by (rule image_Cons)
  then have sz: "load64 m p = e_size e" using wf(1) by (simp add: load_size_image)
  have "walk m limit (iter_at m (p + e_size e)) = Some (map i_amount (amounts (p + e_size e) es))"
    using Cons.prems(2,3) parts wf(2) by (intro Cons.IH) (simp_all add: add.assoc)
  then show ?case
    using Cons.prems(3) sz wf(3)
    by (subst walk.simps) (simp add: iter_at_def iter_neq_def iter_next_def log_end_def)
qed

lemma scan_image:
  assumes "load_bytes m p (total es) = image es" and "list_all wf_entry es"
  shows "fold (scan_step m) (map i_amount (amounts p es)) (infos, p, c) = (infos @ amounts p es, p + total es, cfg_after c es)"
  using assms
proof (induction es arbitrary: p infos c)
  case (Cons e es)
  have wf: "wf_entry e" using Cons.prems(2) by simp
  have parts: "load_bytes m p (e_size e) = entry_bytes e \<and> load_bytes m (p + e_size e) (total es) = image es"
    using Cons.prems(1) wf by (rule image_Cons)
  then have "read_entry m p = e" using wf by (simp add: read_entry_image)
  moreover note Cons.IH [of "p + e_size e"]
  ultimately show ?case using parts Cons.prems(2) by (simp add: scan_step_def add.assoc)
qed simp

lemma init_ldbs_scan:
  assumes "map_file os (lg_ldbs_map l) fs = (rc, mf, fs1)" and "rc = RC_GOOD \<or> rc = RC_MMAP_NEW_FILE"
    and mf1: "mf1 = (if rc = RC_MMAP_NEW_FILE then snd (sync_all os (mf_store 0 (entry_bytes log_entry_sentry) mf)) else mf)"
    and "load_bytes (mf_mem mf1) 0 (total (log_entry_sentry # es)) = image (log_entry_sentry # es)"
    and "load64 (mf_mem mf1) (total (log_entry_sentry # es)) = 0"
    and "total (log_entry_sentry # es) + 8 \<le> mf_size mf1" and "4096 dvd mf_size mf1" and "list_all wf_entry es"
    and "lg_infos l = []" and "lg_payload l = 0" and "lg_cfg l = 0"
  obtains l1 where "init_ldbs os fs l = Some (RC_GOOD, l1, fs1)" "ldbs_rep l1 es" "lg_cfg l1 = cfg_after 0 es"
    "lg_ldbs_map l1 = mf1" "lg_stat_map l1 = lg_stat_map l" "lg_factor l1 = lg_factor l"
proof -
  let ?es = "log_entry_sentry # es"
  have wf: "list_all wf_entry ?es" using assms(8) by simp
  have w: "walk (mf_mem mf1) (mf_size mf1) (log_begin (mf_mem mf1)) = Some (map i_amount (amounts 0 ?es))"
    unfolding log_begin_def by (rule walk_image) (use assms(4,5,6) wf in \<open>simp_all del: total_simps image_simps\<close>)
  have s: "fold (scan_step (mf_mem mf1)) (map i_amount (amounts 0 ?es)) ([], 0, 0) = (amounts 0 ?es, total ?es, cfg_after 0 es)"
    using scan_image [OF assms(4) wf, of "[]" 0]
    by (simp add: log_entry_sentry_def del: total_simps image_simps amounts.simps)
  let ?l1 = "l\<lparr>lg_ldbs_map := mf1, lg_infos := amounts 0 ?es, lg_payload := total ?es, lg_cfg := cfg_after 0 es,
      lg_ldbs_size := mf_size mf1\<rparr>"
  have "init_ldbs os fs l = Some (RC_GOOD, ?l1, fs1)"
    using assms(1,2,9-11) w s
    by (auto simp: init_ldbs_def Let_def mf1 simp del: amounts.simps total_simps)
  moreover have "ldbs_rep ?l1 es"
    using assms(4-7) by (auto simp: ldbs_rep_def ldbs_def)
  ultimately show ?thesis by (intro that [of ?l1]) simp_all
qed

section \<open>First boot\<close>

abbreviation empty_alog :: alog where
  "empty_alog \<equiv> \<lparr>al_index = 0, al_term = 0, al_config = [], al_entries = []\<rparr>"

lemma wf_empty_alog [simp]: "wf_alog empty_alog"
  by (simp add: wf_alog_def cfg_chain_def)

lemma sync_all_mem:
  "mf_mem (snd (sync_all os mf)) = mf_mem mf" "mf_size (snd (sync_all os mf)) = mf_size mf"
  "mf_mapped (snd (sync_all os mf)) = mf_mapped mf" "mf_file (snd (sync_all os mf)) = mf_file mf"
  by (simp_all add: sync_all_def sync_range_def Let_def)

lemma new_logger_sel [simp]:
  "lg_ldbs_map (new_logger sf lf f) = new_mapped_file lf 0 48" "lg_stat_map (new_logger sf lf f) = new_mapped_file sf 0 32"
  "lg_infos (new_logger sf lf f) = []" "lg_payload (new_logger sf lf f) = 0" "lg_cfg (new_logger sf lf f) = 0"
  "lg_factor (new_logger sf lf f) = f"
  by (simp_all add: new_logger_def)

lemma length_sentry_bytes: "length (entry_bytes log_entry_sentry) = 40"
  by (simp add: wf_entryD)

theorem init_fresh:
  assumes "os_good os" and "fs lf = None" and "fs sf = None" and "lf \<noteq> sf" and "lf \<noteq> []" and "sf \<noteq> []"
  shows "\<exists>l fs'. init os fs (new_logger sf lf (5 / 4)) = Some (RC_GOOD, l, fs') \<and> log_rep l empty_alog \<and>
    os_ready os l \<and> lg_cfg l = 0 \<and> lg_ldbs_size l = 4096 \<and> lg_stat_size l = 4096 \<and>
    mf_file (lg_ldbs_map l) = lf \<and> mf_file (lg_stat_map l) = sf"
proof -
  let ?l = "new_logger sf lf (5 / 4)"
  obtain mf fs1 where mf: "map_file os (lg_ldbs_map ?l) fs = (RC_MMAP_NEW_FILE, mf, fs1)" "mf_mapped mf"
    "mf_size mf = 4096" "mf_file mf = lf" "mf_mem mf = zero_mem" "\<And>g. g \<noteq> lf \<Longrightarrow> fs1 g = fs g"
    using map_file_new [of os fs lf 48] assms(1,2,5) by auto
  define mf1 where "mf1 = snd (sync_all os (mf_store 0 (entry_bytes log_entry_sentry) mf))"
  have m1: "mf_mem mf1 = store_bytes zero_mem 0 (entry_bytes log_entry_sentry)" "mf_size mf1 = 4096" "mf_mapped mf1" "mf_file mf1 = lf"
    using mf(2-5) by (simp_all add: mf1_def sync_all_mem)
  have z: "load64 (mf_mem mf1) 40 = 0"
    by (simp add: m1 mem_simps length_sentry_bytes eval_nat_numeral)
  obtain l1 where l1: "init_ldbs os fs ?l = Some (RC_GOOD, l1, fs1)" "ldbs_rep l1 []" "lg_cfg l1 = 0"
    "lg_ldbs_map l1 = mf1" "lg_stat_map l1 = lg_stat_map ?l" "lg_factor l1 = 5 / 4"
    by (rule init_ldbs_scan [OF mf(1), of mf1 "[]"])
      (use m1 z in \<open>simp_all add: mf1_def mem_simps length_sentry_bytes\<close>)
  obtain sm fs2 where sm: "map_file os (lg_stat_map l1) fs1 = (RC_MMAP_NEW_FILE, sm, fs2)" "mf_mapped sm"
    "mf_size sm = 4096" "mf_file sm = sf" "mf_mem sm = zero_mem" "\<And>g. g \<noteq> sf \<Longrightarrow> fs2 g = fs1 g"
    using map_file_new [of os fs1 sf 32] assms(1,3,6) mf(6) [of sf] not_sym [OF assms(4)] l1(5) by auto
  define st where "st = \<lparr>s_size = 32, s_last_index = 0, s_last_term = 0, s_last_len = 0, s_last_config = []\<rparr>"
  define sm1 where "sm1 = snd (sync_all os (mf_store 0 (states_bytes st) sm))"
  define l2 where "l2 = l1\<lparr>lg_stat_map := sm1, lg_stat_size := mf_size sm1\<rparr>"
  have s1: "mf_mem sm1 = store_bytes zero_mem 0 (states_bytes st)" "mf_size sm1 = 4096" "mf_mapped sm1" "mf_file sm1 = sf"
    using sm(2-5) by (simp_all add: sm1_def sync_all_mem)
  have "init os fs ?l = Some (RC_GOOD, l2, fs2)"
    using l1(1) sm(1) by (simp add: init_def init_stat_def Let_def l2_def sm1_def st_def)
  moreover have "stat_rep l2 0 0 []"
    using states_bytes_stored [OF s1(1), of 0] s1(2) by (simp add: stat_rep_def stat_def l2_def st_def)
  moreover have "ldbs_rep l2 []"
    using l1(2) by (auto simp: ldbs_rep_def ldbs_def l2_def)
  moreover have "lg_ldbs_size l2 = 4096" using l1(2,4) m1(2) by (simp add: ldbs_rep_def l2_def)
  ultimately show ?thesis
    using l1 m1 s1 assms(1) by (auto simp: log_rep_def l2_def os_ready_def)
qed

section \<open>Restart\<close>

text \<open>The file system the next process finds: the contents of the two shared mappings.\<close>

definition left_behind :: "logger \<Rightarrow> fs \<Rightarrow> fs" where
  "left_behind l fs = fs_view (lg_stat_map l) (fs_view (lg_ldbs_map l) fs)"

theorem init_reopen:
  assumes "log_rep l a" and "os_good os"
    and f: "mf_file (lg_ldbs_map l) = lf" "mf_file (lg_stat_map l) = sf" "lf \<noteq> sf" "lf \<noteq> []" "sf \<noteq> []"
    and "lg_ldbs_size l < size_cap" and "lg_stat_size l < size_cap"
  shows "\<exists>l'. init os (left_behind l fs) (new_logger sf lf (5 / 4)) = Some (RC_GOOD, l', left_behind l fs) \<and>
    log_rep l' a \<and> os_ready os l' \<and> lg_cfg l' = cfg_after 0 (al_entries a) \<and>
    lg_infos l' = lg_infos l \<and> lg_payload l' = lg_payload l"
proof -
  let ?l = "new_logger sf lf (5 / 4)" and ?fs = "left_behind l fs" and ?es = "al_entries a"
  note rep = log_repD [OF assms(1)]
  have r: "4096 dvd lg_ldbs_size l" "40 + total ?es + 8 \<le> lg_ldbs_size l" "mf_size (lg_ldbs_map l) = lg_ldbs_size l"
    "load_bytes (ldbs l) 0 (40 + total ?es) = image (log_entry_sentry # ?es)" "load64 (ldbs l) (40 + total ?es) = 0"
    "lg_payload l = 40 + total ?es"
    using rep(2) rep_infos(5) [OF rep(2)] by (auto simp: ldbs_rep_def)
  have t: "4096 dvd lg_stat_size l" "32 + length (al_config a) \<le> lg_stat_size l" "mf_size (lg_stat_map l) = lg_stat_size l"
    using rep(3) by (auto simp: stat_rep_def)
  have fs: "?fs lf = Some (lg_ldbs_size l, ldbs l)" "?fs sf = Some (lg_stat_size l, stat l)"
    using f r(3) t(3) by (simp_all add: left_behind_def fs_view_def ldbs_def stat_def)
  obtain mf where mf: "map_file os (lg_ldbs_map ?l) ?fs = (RC_GOOD, mf, ?fs)" "mf_mapped mf"
    "mf_size mf = lg_ldbs_size l" "\<And>p. p < lg_ldbs_size l \<Longrightarrow> mf_mem mf p = ldbs l p"
    using map_file_existing [of os ?fs lf "lg_ldbs_size l" "ldbs l" 48] assms(2,8) f(4) fs(1) r(1,2) by auto
  have ld: "load_bytes (mf_mem mf) p n = load_bytes (ldbs l) p n" if "p + n \<le> lg_ldbs_size l" for p n
    using mf(4) that by (intro load_bytes_cong) auto
  obtain l1 where l1: "init_ldbs os ?fs ?l = Some (RC_GOOD, l1, ?fs)" "ldbs_rep l1 ?es" "lg_cfg l1 = cfg_after 0 ?es"
    "lg_ldbs_map l1 = mf" "lg_stat_map l1 = lg_stat_map ?l" "lg_factor l1 = 5 / 4"
    by (rule init_ldbs_scan [OF mf(1), of mf ?es])
      (use r mf(3) ld rep(5) in simp_all)
  obtain sm where sm: "map_file os (lg_stat_map l1) ?fs = (RC_GOOD, sm, ?fs)" "mf_mapped sm"
    "mf_size sm = lg_stat_size l" "\<And>p. p < lg_stat_size l \<Longrightarrow> mf_mem sm p = stat l p"
    using map_file_existing [of os ?fs sf "lg_stat_size l" "stat l" 32] assms(2,9) f(5) fs(2) t(1,2) l1(5) by auto
  have st: "load_bytes (mf_mem sm) p n = load_bytes (stat l) p n" if "p + n \<le> lg_stat_size l" for p n
    using sm(4) that by (intro load_bytes_cong) auto
  define l2 where "l2 = l1\<lparr>lg_stat_map := sm, lg_stat_size := mf_size sm\<rparr>"
  have "init os ?fs ?l = Some (RC_GOOD, l2, ?fs)"
    using l1(1) sm(1) by (simp add: init_def init_stat_def Let_def l2_def)
  moreover have "stat_rep l2 (al_index a) (al_term a) (al_config a)"
    using rep(3) st t sm(3) by (simp add: stat_rep_def stat_def l2_def)
  moreover have rep2: "ldbs_rep l2 ?es" using l1(2) by (auto simp: ldbs_rep_def ldbs_def l2_def)
  moreover have "cfg_link a (cfg_after 0 ?es)"
    using cfg_after_link [of "a\<lparr>al_entries := []\<rparr>" 0 ?es] rep(6) by (simp add: al_append_def)
  moreover have "lg_infos l2 = lg_infos l" "lg_payload l2 = lg_payload l"
    using rep2 rep(2) by (simp_all add: rep_infos(1,5))
  ultimately show ?thesis
    using l1 mf(2) sm(2) rep(1) assms(2) by (auto simp: log_rep_def l2_def os_ready_def)
qed

end
