(* ===== verification/Log_Interface.thy ===== *)
theory Log_Interface
  imports Logger_Init
begin

text \<open>
  The contract between the log and the consensus code: what the readers return and what
  \<open>append\<close>, \<open>chop\<close> and \<open>drop\<close> do, stated on the abstract log.  The lemmas a client needs are
  proved once from the contract; the interpretation shows that the byte-level logger fulfils it.
\<close>

definition alog_ok :: "alog \<Rightarrow> bool" where
  "alog_ok a \<longleftrightarrow> wf_alog a \<and> total (al_entries a) < 2 ^ 59"

section \<open>Facts about abstract logs\<close>

lemma al_get_append_old: "i \<le> al_last a \<Longrightarrow> al_get (al_append a new) i = al_get a i"
  by (auto simp: al_get_def nth_append)

lemma al_get_append_new:
  "k < length new \<Longrightarrow> al_get (al_append a new) (al_last a + 1 + k) = Some (new ! k)"
  by (auto simp: al_get_def nth_append)

lemma al_get_chop: "al_get (al_chop a i) j = (if j = 0 \<or> j < i then al_get a j else None)"
  if "al_index a < i" "i \<le> Suc (al_last a)"
  using that by (auto simp: al_get_def)

lemma al_get_drop:
  assumes "al_index a < i" and "i \<le> al_last a" and "i < j \<or> j = 0"
  shows "al_get (al_drop a i d) j = al_get a j"
  using assms by (auto simp: al_get_def nth_append)

lemma alog_ok_chop: "alog_ok a \<Longrightarrow> al_index a < i \<Longrightarrow> i \<le> al_last a \<Longrightarrow> alog_ok (al_chop a i)"
  using wf_al_chop [of a i] total_simps(3) [of "take (i - al_index a - 1) (al_entries a)" "drop (i - al_index a - 1) (al_entries a)"]
  by (simp add: alog_ok_def)

lemma alog_ok_drop: "alog_ok a \<Longrightarrow> al_index a < i \<Longrightarrow> i \<le> al_last a \<Longrightarrow> alog_ok (al_drop a i d)"
  using wf_al_drop [of a i d] total_simps(3) [of "take (i - al_index a) (al_entries a)" "drop (i - al_index a) (al_entries a)"]
  by (simp add: alog_ok_def)

section \<open>The contract\<close>

locale raft_log =
  fixes rep :: "'l \<Rightarrow> alog \<Rightarrow> bool"
    and get :: "'l \<Rightarrow> nat \<Rightarrow> log_entry option"
    and final :: "'l \<Rightarrow> nat \<times> nat"
    and app :: "log_entry list \<Rightarrow> 'l \<Rightarrow> (rc_errno \<times> 'l) option"
    and cut :: "nat \<Rightarrow> 'l \<Rightarrow> (rc_errno \<times> 'l) option"
    and compact :: "nat \<Rightarrow> 'l \<Rightarrow> (rc_errno \<times> 'l) option"
  assumes rep_ok: "rep l a \<Longrightarrow> alog_ok a"
    and rep_get: "rep l a \<Longrightarrow> get l i = al_get a i"
    and rep_final: "rep l a \<Longrightarrow> final l = (al_last a, al_last_term a)"
    and app_good: "rep l a \<Longrightarrow> alog_ok (al_append a new) \<Longrightarrow>
      \<exists>l'. app new l = Some (RC_GOOD, l') \<and> rep l' (al_append a new)"
    and cut_good: "rep l a \<Longrightarrow> al_index a < i \<Longrightarrow> i \<le> al_last a \<Longrightarrow>
      \<exists>l'. cut i l = Some (RC_GOOD, l') \<and> rep l' (al_chop a i)"
    and cut_oor: "rep l a \<Longrightarrow> \<not> (al_index a < i \<and> i \<le> al_last a) \<Longrightarrow> cut i l = Some (RC_OOR, l)"
    and compact_good: "rep l a \<Longrightarrow> al_index a < i \<Longrightarrow> i \<le> al_last a \<Longrightarrow>
      \<exists>l' d. compact i l = Some (RC_GOOD, l') \<and> rep l' (al_drop a i d)"
    and compact_oor: "rep l a \<Longrightarrow> \<not> (al_index a < i \<and> i \<le> al_last a) \<Longrightarrow> compact i l = Some (RC_OOR, l)"
begin

text \<open>Appending keeps every entry and adds the new ones in order.\<close>

lemma app_reads:
  assumes "rep l a" and "alog_ok (al_append a new)"
  obtains l' where "app new l = Some (RC_GOOD, l')" "rep l' (al_append a new)"
    "\<And>i. i \<le> fst (final l) \<Longrightarrow> get l' i = get l i"
    "\<And>k. k < length new \<Longrightarrow> get l' (fst (final l) + 1 + k) = Some (new ! k)"
    "fst (final l') = fst (final l) + length new"
proof -
  obtain l' where l': "app new l = Some (RC_GOOD, l')" "rep l' (al_append a new)"
    using app_good [OF assms] by blast
  show ?thesis
    by (rule that [OF l'])
      (use rep_get [OF assms(1)] rep_get [OF l'(2)] rep_final [OF assms(1)] rep_final [OF l'(2)]
        in \<open>simp_all add: al_get_append_old al_get_append_new [simplified]\<close>)
qed

text \<open>Replacing a conflicting tail, as a follower does: below the cut nothing changes.\<close>

lemma replace_tail:
  assumes "rep l a" and "al_index a < i" and "i \<le> al_last a" and "alog_ok (al_append (al_chop a i) new)"
  obtains l1 l2 where "cut i l = Some (RC_GOOD, l1)" "app new l1 = Some (RC_GOOD, l2)"
    "rep l2 (al_append (al_chop a i) new)" "\<And>j. j < i \<Longrightarrow> get l2 j = get l j"
proof -
  obtain l1 where l1: "cut i l = Some (RC_GOOD, l1)" "rep l1 (al_chop a i)"
    using cut_good [OF assms(1-3)] by blast
  then obtain l2 where l2: "app new l1 = Some (RC_GOOD, l2)" "rep l2 (al_append (al_chop a i) new)"
    using app_good [OF _ assms(4)] by blast
  have "get l2 j = get l j" if "j < i" for j
  proof -
    have "j \<le> al_last (al_chop a i)" using that assms(2,3) by auto
    then show ?thesis
      using that rep_get [OF assms(1)] rep_get [OF l2(2)] al_get_chop [OF assms(2) le_SucI [OF assms(3)]]
      by (simp add: al_get_append_old)
  qed
  with l1 l2 show ?thesis by (intro that [of l1 l2]) auto
qed

text \<open>Compaction keeps every entry above the point, and the last position.\<close>

lemma compact_reads:
  assumes "rep l a" and "al_index a < i" and "i \<le> al_last a"
  obtains l' where "compact i l = Some (RC_GOOD, l')" "\<And>j. i < j \<Longrightarrow> get l' j = get l j"
    "final l' = final l"
proof -
  obtain l' d where l': "compact i l = Some (RC_GOOD, l')" "rep l' (al_drop a i d)"
    using compact_good [OF assms] by blast
  have "al_last_term (al_drop a i d) = al_last_term a"
  proof (cases "i = al_last a")
    case True
    then show ?thesis using assms(2)
      by (auto simp: al_last_term_def last_conv_nth)
  qed (use assms(2,3) in \<open>auto simp: al_last_term_def\<close>)
  with l' assms rep_get [OF l'(2)] rep_get [OF assms(1)] rep_final [OF l'(2)] rep_final [OF assms(1)]
  show ?thesis by (intro that [of l']) (auto simp: al_get_drop)
qed

text \<open>No operation of the interface leaves the represented logs.\<close>

lemma ops_return:
  assumes "rep l a"
  shows "\<exists>rc l' a'. cut i l = Some (rc, l') \<and> rep l' a'" "\<exists>rc l' a'. compact i l = Some (rc, l') \<and> rep l' a'"
  using assms cut_good [OF assms, of i] cut_oor [OF assms, of i] compact_good [OF assms, of i] compact_oor [OF assms, of i]
  by blast+

end

section \<open>The logger fulfils it\<close>

definition live_rep :: "os \<Rightarrow> logger \<Rightarrow> alog \<Rightarrow> bool" where
  "live_rep os l a \<longleftrightarrow> log_rep l a \<and> os_ready os l \<and> total (al_entries a) < 2 ^ 59"

definition last_position :: "logger \<Rightarrow> nat \<times> nat" where
  "last_position l = (last_entry_index l, last_entry_term l)"

interpretation file_log: raft_log "live_rep os" get_entry last_position "\<lambda>es. append os es sync"
  "\<lambda>i. chop os i sync" "\<lambda>i. drop_entries os i sync" for os sync
proof unfold_locales
  fix l a i new
  assume rep: "live_rep os l a"
  then have r: "log_rep l a" "os_ready os l" "total (al_entries a) < 2 ^ 59" by (auto simp: live_rep_def)
  show ok: "alog_ok a" using r log_repD(1) by (auto simp: alog_ok_def)
  show "get_entry l i = al_get a i" using r(1) by (rule rep_get)
  show "last_position l = (al_last a, al_last_term a)"
    by (simp add: last_position_def rep_last_entry_index [OF r(1)])
  show "\<exists>l'. append os new sync l = Some (RC_GOOD, l') \<and> live_rep os l' (al_append a new)" if n: "alog_ok (al_append a new)"
  proof -
    have "lg_payload l + 8 + total new < size_cap"
      using n rep_infos(5) [OF log_repD(2) [OF r(1)]] by (simp add: alog_ok_def)
    from append_rep [OF r(1) _ r(2) this, of sync] n show ?thesis
      by (auto simp: alog_ok_def live_rep_def)
  qed
  show "\<exists>l'. chop os i sync l = Some (RC_GOOD, l') \<and> live_rep os l' (al_chop a i)"
    if i: "al_index a < i" "i \<le> al_last a"
    using chop_rep [OF r(1,2) i, of sync] alog_ok_chop [OF ok i] by (auto simp: live_rep_def alog_ok_def)
  show "\<exists>l' d. drop_entries os i sync l = Some (RC_GOOD, l') \<and> live_rep os l' (al_drop a i d)"
    if i: "al_index a < i" "i \<le> al_last a"
    using drop_rep [OF r(1,2) i r(3), of sync] alog_ok_drop [OF ok i] by (fastforce simp: live_rep_def alog_ok_def)
  assume i: "\<not> (al_index a < i \<and> i \<le> al_last a)"
  show "chop os i sync l = Some (RC_OOR, l)" using r(1) i by (rule chop_out_of_range)
  show "drop_entries os i sync l = Some (RC_OOR, l)"
    using rep_out_of_range [OF r(1), of i] i by (simp add: drop_entries_def)
qed

end
