(* ===== verification/Demo.thy ===== *)
theory Demo
  imports Log_Interface
begin

text \<open>
  Concrete inputs the properties are applied to: an operating system on which every call succeeds,
  the log of a first boot, and the same log with one command and one configuration entry in it.
\<close>

definition demo_os :: os where
  "demo_os = \<lparr>os_open = \<lambda>_ _. True, os_fd = \<lambda>_. 3, os_fstat = \<lambda>_. True, os_ftruncate = \<lambda>_ _. True,
     os_mmap = \<lambda>_ _. None, os_munmap = \<lambda>_. True, os_msync = \<lambda>_ _. True, os_madvise = \<lambda>_. True\<rparr>"

lemma demo_os_good [simp]: "os_good demo_os"
  by (simp add: os_good_def demo_os_def)

definition demo_log :: logger where
  "demo_log = fst (snd (the (init demo_os Map.empty (new_logger ''stat'' ''ldbs'' (5 / 4)))))"

lemma demo_log:
  "init demo_os Map.empty (new_logger ''stat'' ''ldbs'' (5 / 4)) = Some (RC_GOOD, demo_log, snd (snd (the (init demo_os Map.empty (new_logger ''stat'' ''ldbs'' (5 / 4))))))"
  "log_rep demo_log empty_alog" "os_ready demo_os demo_log" "lg_cfg demo_log = 0"
  "lg_ldbs_size demo_log = 4096" "lg_stat_size demo_log = 4096" "lg_payload demo_log = 40"
  "mf_file (lg_ldbs_map demo_log) = ''ldbs''" "mf_file (lg_stat_map demo_log) = ''stat''"
proof -
  obtain l fs where l: "init demo_os Map.empty (new_logger ''stat'' ''ldbs'' (5 / 4)) = Some (RC_GOOD, l, fs)"
    "log_rep l empty_alog" "os_ready demo_os l" "lg_cfg l = 0" "lg_ldbs_size l = 4096" "lg_stat_size l = 4096"
    "mf_file (lg_ldbs_map l) = ''ldbs''" "mf_file (lg_stat_map l) = ''stat''"
    using init_fresh [of demo_os Map.empty "''ldbs''" "''stat''"] by auto
  then have "demo_log = l" by (simp add: demo_log_def)
  with l show "init demo_os Map.empty (new_logger ''stat'' ''ldbs'' (5 / 4)) = Some (RC_GOOD, demo_log, snd (snd (the (init demo_os Map.empty (new_logger ''stat'' ''ldbs'' (5 / 4))))))"
    "log_rep demo_log empty_alog" "os_ready demo_os demo_log" "lg_cfg demo_log = 0"
    "lg_ldbs_size demo_log = 4096" "lg_stat_size demo_log = 4096" "mf_file (lg_ldbs_map demo_log) = ''ldbs''"
    "mf_file (lg_stat_map demo_log) = ''stat''"
    by simp_all
  show "lg_payload demo_log = 40" using l(2) \<open>demo_log = l\<close> rep_infos(5) log_repD(2) by fastforce
qed

lemma demo_live: "live_rep demo_os demo_log empty_alog"
  using demo_log by (simp add: live_rep_def)

section \<open>Two entries\<close>

definition demo_entry :: log_entry where
  "demo_entry = make_entry 0 ''set k v'' 1 1 False"

definition demo_cfg_entry :: log_entry where
  "demo_cfg_entry = make_entry 0 ''a:1,b:2'' 2 1 True"

definition demo_alog :: alog where
  "demo_alog = al_append empty_alog [demo_entry, demo_cfg_entry]"

definition demo_log2 :: logger where
  "demo_log2 = snd (the (append demo_os [demo_entry, demo_cfg_entry] True demo_log))"

lemma demo_entry_sel [simp]:
  "wf_entry demo_entry" "wf_entry demo_cfg_entry" "e_index demo_entry = 1" "e_index demo_cfg_entry = 2"
  "e_term demo_entry = 1" "e_term demo_cfg_entry = 1" "\<not> e_cfg demo_entry" "e_cfg demo_cfg_entry"
  "str demo_entry = ''set k v''" "str demo_cfg_entry = ''a:1,b:2''" "prev_cfg demo_cfg_entry = 0"
  "e_size demo_entry = 48" "e_size demo_cfg_entry = 56"
  by (simp_all add: demo_entry_def demo_cfg_entry_def wf_make_entry str_make_entry prev_cfg_make_entry round_up_eq cfg_offset_def)

lemma demo_alog_sel [simp]:
  "al_index demo_alog = 0" "al_term demo_alog = 0" "al_config demo_alog = []" "al_entries demo_alog = [demo_entry, demo_cfg_entry]"
  by (simp_all add: demo_alog_def)

lemma demo_alog_wf: "wf_alog demo_alog" "alog_ok demo_alog"
  by (simp_all add: wf_alog_def alog_ok_def cfg_chain_def cfg_link_def less_Suc_eq)

lemma demo_log2:
  "append demo_os [demo_entry, demo_cfg_entry] True demo_log = Some (RC_GOOD, demo_log2)"
  "log_rep demo_log2 demo_alog" "os_ready demo_os demo_log2" "lg_cfg demo_log2 = 2"
proof -
  have "wf_alog (al_append empty_alog [demo_entry, demo_cfg_entry])" using demo_alog_wf(1) by (simp add: demo_alog_def)
  from append_rep [OF demo_log(2) this demo_log(3), of True] obtain l' where l':
    "append demo_os [demo_entry, demo_cfg_entry] True demo_log = Some (RC_GOOD, l')"
    "log_rep l' demo_alog" "os_ready demo_os l'" "lg_cfg l' = cfg_after (lg_cfg demo_log) [demo_entry, demo_cfg_entry]"
    by (auto simp: demo_log(7) demo_alog_def)
  then show "append demo_os [demo_entry, demo_cfg_entry] True demo_log = Some (RC_GOOD, demo_log2)"
    "log_rep demo_log2 demo_alog" "os_ready demo_os demo_log2" "lg_cfg demo_log2 = 2"
    by (simp_all add: demo_log2_def)
qed

lemma demo_live2: "live_rep demo_os demo_log2 demo_alog"
  using demo_log2 by (simp add: live_rep_def)

lemma demo_complete: "cfg_complete 0 (al_entries demo_alog)"
  by (simp add: cfg_complete_def less_Suc_eq)

section \<open>The log of a cluster of three\<close>

text \<open>One configuration entry, which lists the members.\<close>

definition demo_members_entry :: log_entry where
  "demo_members_entry = make_entry 0 ''a:1,b:1,c:1'' 1 1 True"

definition demo_alog3 :: alog where
  "demo_alog3 = al_append empty_alog [demo_members_entry]"

definition demo_log3 :: logger where
  "demo_log3 = snd (the (append demo_os [demo_members_entry] True demo_log))"

lemma demo_members_entry_sel [simp]:
  "wf_entry demo_members_entry" "e_index demo_members_entry = 1" "e_term demo_members_entry = 1" "e_cfg demo_members_entry"
  "str demo_members_entry = ''a:1,b:1,c:1''" "prev_cfg demo_members_entry = 0" "e_size demo_members_entry = 64"
  by (simp_all add: demo_members_entry_def wf_make_entry str_make_entry prev_cfg_make_entry round_up_eq cfg_offset_def)

lemma demo_alog3_sel [simp]:
  "al_index demo_alog3 = 0" "al_term demo_alog3 = 0" "al_entries demo_alog3 = [demo_members_entry]"
  by (simp_all add: demo_alog3_def)

lemma demo_log3:
  "log_rep demo_log3 demo_alog3" "os_ready demo_os demo_log3" "lg_cfg demo_log3 = 1" "lg_payload demo_log3 = 104"
proof -
  have "wf_alog (al_append empty_alog [demo_members_entry])"
    by (simp add: wf_alog_def cfg_chain_def cfg_link_def less_Suc_eq)
  from append_rep [OF demo_log(2) this demo_log(3), of True] obtain l' where l':
    "append demo_os [demo_members_entry] True demo_log = Some (RC_GOOD, l')" "log_rep l' demo_alog3" "os_ready demo_os l'"
    "lg_cfg l' = cfg_after (lg_cfg demo_log) [demo_members_entry]" "lg_payload l' = lg_payload demo_log + total [demo_members_entry]"
    by (auto simp: demo_log(7) demo_alog3_def)
  then show "log_rep demo_log3 demo_alog3" "os_ready demo_os demo_log3" "lg_cfg demo_log3 = 1" "lg_payload demo_log3 = 104"
    by (simp_all add: demo_log3_def demo_log(7))
qed

lemma demo_live3: "live_rep demo_os demo_log3 demo_alog3"
  using demo_log3 by (simp add: live_rep_def)

end
