(* ===== verification/Address.thy ===== *)
theory Address
  imports Utils
begin

text \<open>
  Server addresses: \<open>is_ipv4\<close> of \<^verbatim>\<open>src/raft/entry_iterator.hpp\<close>, with what it uses of the C
  and C++ libraries: \<^verbatim>\<open>strtok_r\<close> with the single delimiter \<^verbatim>\<open>.\<close> (empty fields are skipped)
  and \<^verbatim>\<open>std::stol\<close> (leading white space and a sign are accepted, the text after the digits is
  ignored, no digits or a value out of the 64-bit range throws, here \<^const>\<open>None\<close>).
  \<open>get_ipv4\<close> of the same file asks the kernel for the address of an interface; what the kernel
  answers is a parameter.
\<close>

section \<open>std::stol\<close>

definition is_space :: "char \<Rightarrow> bool" where
  "is_space c \<longleftrightarrow> c \<in> set [CHR '' '', CHR 0x09, CHR 0x0A, CHR 0x0B, CHR 0x0C, CHR 0x0D]"

definition stol :: "string \<Rightarrow> int option" where
  "stol s =
     (let s1 = dropWhile is_space s;
          neg = (s1 \<noteq> [] \<and> hd s1 = CHR ''-'');
          s2 = (if s1 \<noteq> [] \<and> (hd s1 = CHR ''-'' \<or> hd s1 = CHR ''+'') then tl s1 else s1);
          ds = takeWhile is_digit s2;
          v = (if neg then - int (digits_value ds) else int (digits_value ds))
      in if ds = [] \<or> v < - (2 ^ 63) \<or> 2 ^ 63 - 1 < v then None else Some v)"

section \<open>is_ipv4\<close>

text \<open>
  One call of \<^verbatim>\<open>strtok_r\<close> skips delimiters, cuts the token off at the next one and leaves the
  rest for the next call; an empty rest is the null pointer that ends the loop.
\<close>

function ipv4_loop :: "string \<Rightarrow> nat \<Rightarrow> bool" where
  "ipv4_loop s count =
     (let s1 = dropWhile (\<lambda>c. c = CHR ''.'') s in
      if s1 = [] then count = 4
      else
        let tok = takeWhile (\<lambda>c. c \<noteq> CHR ''.'') s1;
            rest = drop (Suc (length tok)) s1
        in case stol tok of
             None \<Rightarrow> False
           | Some field \<Rightarrow> if field > 255 \<or> field < 0 then False else ipv4_loop rest (Suc count))"
  by pat_completeness auto
termination
proof (relation "measure (\<lambda>(s, count). length s)")
  fix s :: string and count s1 tok rest field
  assume s1: "s1 = dropWhile (\<lambda>c. c = CHR ''.'') s" "s1 \<noteq> []"
    and rest: "rest = drop (Suc (length tok)) s1"
  have "length s1 \<le> length s"
    unfolding s1(1) by (rule length_dropWhile_le)
  with s1(2) rest show "((rest, Suc count), (s, count)) \<in> measure (\<lambda>(s, count). length s)"
    by (cases s1) (auto simp: less_Suc_eq_le)
qed simp

declare ipv4_loop.simps [simp del]

text \<open>\<^verbatim>\<open>strcpy\<close> stops at the first NUL.\<close>

definition is_ipv4 :: "string \<Rightarrow> bool" where
  "is_ipv4 str = ipv4_loop (takeWhile (\<lambda>c. c \<noteq> CHR 0x00) str) 0"

section \<open>The address of an interface\<close>

text \<open>
  The system calls: the descriptor \<^verbatim>\<open>socket\<close> gives, the address \<^verbatim>\<open>ioctl\<close> finds for the name of an interface,
  and the text \<^verbatim>\<open>inet_ntop\<close> makes of it.  \<^verbatim>\<open>ifr_name\<close> has 16 bytes: a longer name is copied over its end
  (\<^const>\<open>None\<close>).  The result is the text and the descriptors that are open afterwards.
\<close>

record net =
  nt_socket :: "nat option"
  nt_ioctl :: "string \<Rightarrow> string option"
  nt_ntop :: "string \<Rightarrow> string option"

definition get_ipv4 :: "net \<Rightarrow> string \<Rightarrow> nat set \<Rightarrow> (string \<times> nat set) option" where
  "get_ipv4 nt ifn fds =
     (let name = takeWhile (\<lambda>c. c \<noteq> CHR 0x00) ifn in
      if 16 \<le> length name then None
      else case nt_socket nt of
        None \<Rightarrow> Some ([], fds)
      | Some fd \<Rightarrow>
          case nt_ioctl nt name of
            None \<Rightarrow> Some ([], insert fd fds - {fd})
          | Some a \<Rightarrow>
              case nt_ntop nt a of
                None \<Rightarrow> Some ([], insert fd fds - {fd})
              | Some txt \<Rightarrow> Some (txt, insert fd fds))"

section \<open>What a good address is\<close>

text \<open>The nonempty fields between dots.\<close>

definition octet_ok :: "string \<Rightarrow> bool" where
  "octet_ok tok \<longleftrightarrow> (case stol tok of None \<Rightarrow> False | Some f \<Rightarrow> 0 \<le> f \<and> f \<le> 255)"

definition fields :: "string \<Rightarrow> string list" where
  "fields s = filter (\<lambda>x. x \<noteq> []) (pieces ''.'' s)"

lemma fields_Nil [simp]: "fields [] = []"
  by (simp add: fields_def)

lemma fields_dot: "fields (CHR ''.'' # s) = fields s"
  by (simp add: fields_def)

lemma fields_dropWhile: "fields (dropWhile (\<lambda>c. c = CHR ''.'') s) = fields s"
  by (induction s) (auto simp: fields_dot)

lemma fields_token:
  assumes "s \<noteq> []" and "hd s \<noteq> CHR ''.''"
  shows "fields s = takeWhile (\<lambda>c. c \<noteq> CHR ''.'') s #
    fields (drop (Suc (length (takeWhile (\<lambda>c. c \<noteq> CHR ''.'') s))) s)"
proof -
  define tok where "tok = takeWhile (\<lambda>c. c \<noteq> CHR ''.'') s"
  have tok: "tok \<noteq> []" "set tok \<inter> set ''.'' = {}"
    using assms by (cases s; auto simp: tok_def dest: set_takeWhileD)+
  have s: "s = tok @ dropWhile (\<lambda>c. c \<noteq> CHR ''.'') s"
    by (simp add: tok_def)
  show ?thesis
  proof (cases "dropWhile (\<lambda>c. c \<noteq> CHR ''.'') s")
    case Nil
    with s have st: "s = tok" by simp
    have "pieces ''.'' s = [tok]" unfolding st by (rule pieces_no_occ [OF tok(2)])
    moreover have "drop (Suc (length tok)) s = []" using st by simp
    ultimately show ?thesis
      unfolding tok_def [symmetric] fields_def using tok(1) by simp
  next
    case (Cons c r)
    then have c: "c = CHR ''.''"
      using hd_dropWhile [of "\<lambda>c. c \<noteq> CHR ''.''" s] by simp
    have "s = tok @ CHR ''.'' # r" using s Cons c by simp
    moreover have "drop (Suc (length tok)) (tok @ CHR ''.'' # r) = r" by simp
    moreover have "fields (tok @ CHR ''.'' # r) = tok # fields r"
      using tok pieces_append_sep [OF tok(2), of "CHR ''.''" r] by (simp add: fields_def)
    ultimately show ?thesis unfolding tok_def [symmetric] by metis
  qed
qed

lemma ipv4_loop_fields:
  "ipv4_loop s count \<longleftrightarrow> list_all octet_ok (fields s) \<and> count + length (fields s) = 4"
proof (induction s count rule: ipv4_loop.induct)
  case (1 s count)
  let ?s1 = "dropWhile (\<lambda>c. c = CHR ''.'') s"
  show ?case
  proof (cases "?s1 = []")
    case True
    then have "fields s = []" by (metis fields_Nil fields_dropWhile)
    with True show ?thesis by (simp add: ipv4_loop.simps [of s])
  next
    case False
    then have f: "fields s = takeWhile (\<lambda>c. c \<noteq> CHR ''.'') ?s1 #
        fields (drop (Suc (length (takeWhile (\<lambda>c. c \<noteq> CHR ''.'') ?s1))) ?s1)"
      using fields_token [OF False] hd_dropWhile [OF False] unfolding fields_dropWhile by simp
    show ?thesis
      using "1.IH" [OF refl False refl refl] False f
      by (auto simp: ipv4_loop.simps [of s] Let_def octet_ok_def split: option.split)
  qed
qed

end
