(* ===== verification/Concurrent_Queue.thy ===== *)
theory Concurrent_Queue
  imports Main
begin

text \<open>
  \<^verbatim>\<open>src/raft/concurrent_queue.hpp\<close>: a FIFO queue between threads.  Every operation holds the
  mutex throughout, so it is one atomic step on the queue; a \<open>pop\<close> that would wait is \<^const>\<open>None\<close>.
\<close>

section \<open>Operations\<close>

type_synonym 'a concurrent_queue = "'a list"

definition push :: "'a \<Rightarrow> 'a concurrent_queue \<Rightarrow> 'a concurrent_queue" where
  "push t que = que @ [t]"

definition pop :: "'a concurrent_queue \<Rightarrow> ('a \<times> 'a concurrent_queue) option" where
  "pop que = (case que of [] \<Rightarrow> None | t # que' \<Rightarrow> Some (t, que'))"

definition try_pop :: "'a concurrent_queue \<Rightarrow> 'a option \<times> 'a concurrent_queue" where
  "try_pop que = (case que of [] \<Rightarrow> (None, que) | t # que' \<Rightarrow> (Some t, que'))"

definition queue_size :: "'a concurrent_queue \<Rightarrow> nat" where
  "queue_size que = length que"

definition queue_empty :: "'a concurrent_queue \<Rightarrow> bool" where
  "queue_empty que \<longleftrightarrow> que = []"

section \<open>Interface\<close>

locale fifo =
  fixes enq :: "'a \<Rightarrow> 'q \<Rightarrow> 'q" and deq :: "'q \<Rightarrow> ('a \<times> 'q) option" and empty :: "'q \<Rightarrow> bool"
    and contents :: "'q \<Rightarrow> 'a list"
  assumes enq_contents: "contents (enq x q) = contents q @ [x]"
    and deq_None: "deq q = None \<longleftrightarrow> contents q = []"
    and deq_Some: "deq q = Some (x, q') \<Longrightarrow> contents q = x # contents q'"
    and empty_iff: "empty q \<longleftrightarrow> contents q = []"
begin

text \<open>Elements come out in the order they went in, whatever is pushed meanwhile.\<close>

fun deqs :: "nat \<Rightarrow> 'q \<Rightarrow> 'a list option" where
  "deqs 0 q = Some []"
| "deqs (Suc n) q = (case deq q of None \<Rightarrow> None | Some (x, q') \<Rightarrow> map_option ((#) x) (deqs n q'))"

lemma deqs_contents: "n \<le> length (contents q) \<Longrightarrow> deqs n q = Some (take n (contents q))"
proof (induction n arbitrary: q)
  case (Suc n)
  then obtain x q' where d: "deq q = Some (x, q')"
    using deq_None by (cases "deq q") auto
  with Suc deq_Some [OF d] show ?case by simp
qed simp

lemma contents_enqs: "contents (fold enq xs q) = contents q @ xs"
  by (induction xs arbitrary: q) (simp_all add: enq_contents)

lemma fifo_order:
  assumes "contents q = []" shows "deqs (length xs) (fold enq (xs @ ys) q) = Some xs"
  using deqs_contents [of "length xs" "fold enq (xs @ ys) q"] assms
  by (simp add: contents_enqs del: fold_append)

end

interpretation cq: fifo push pop queue_empty "\<lambda>q. q"
  by unfold_locales (auto simp: push_def pop_def queue_empty_def split: list.splits)

lemma try_pop_pop: "try_pop q = (case pop q of None \<Rightarrow> (None, q) | Some (x, q') \<Rightarrow> (Some x, q'))"
  by (simp add: try_pop_def pop_def split: list.splits)

end
