(* ===== verification/Base_Properties.thy ===== *)
theory Base_Properties
  imports Demo Address Concurrent_Queue
begin

text \<open>
  The properties of the helpers: byte order, string search, addresses, the file mapping and the
  queue between threads.
\<close>

section \<open>Byte order\<close>

lemma enc_le_nth: "i < k \<Longrightarrow> enc_le k n ! i = char_of (n div 256 ^ i)"
  by (induction k arbitrary: n i) (auto simp: less_Suc_eq_0_disj div_mult2_eq)

lemma char_of_eq_mod: "(char_of (m :: nat) :: char) = char_of n \<longleftrightarrow> m mod 256 = n mod 256"
  by (metis char_of_mod_256 of_char_of)

lemma byte_bits:
  assumes "\<And>j. j < 8 \<Longrightarrow> bit (v :: u64) (8 * a + j) = bit (w :: u64) (8 * b + j)"
  shows "unat v div 256 ^ a mod 256 = unat w div 256 ^ b mod 256"
proof -
  have p: "(256 :: nat) ^ n = 2 ^ (8 * n)" for n by (simp add: power_mult)
  have "take_bit 8 (drop_bit (8 * a) (unat v)) = take_bit 8 (drop_bit (8 * b) (unat w))"
    by (rule bit_eqI) (use assms in \<open>auto simp: bit_simps bit_unsigned_iff add.commute\<close>)
  then show ?thesis by (simp add: p drop_bit_eq_div take_bit_eq_mod)
qed

text \<open>\<open>hton64\<close> puts the eight bytes of a value into memory in the opposite order, most significant
  first, and \<open>ntoh64\<close> undoes it.\<close>

theorem network_order: "enc64 (unat (hton64 n)) = rev (enc64 (unat n)) \<and> ntoh64 (hton64 n) = n"
proof
  have "hton64 n = reverse n" by (simp add: hton64_def little_endian_def numeral_2_eq_2 char_of_def bit_0)
  moreover have "enc64 (unat (reverse n)) = rev (enc64 (unat n))"
  proof (rule nth_equalityI)
    fix i assume "i < length (enc64 (unat (reverse n)))"
    then have i: "i < 8" by simp
    have "unat (reverse n) div 256 ^ i mod 256 = unat n div 256 ^ (7 - i) mod 256"
      using i by (intro byte_bits) (simp add: bit_reverse)
    with i show "enc64 (unat (reverse n)) ! i = rev (enc64 (unat n)) ! i"
      by (simp add: rev_nth enc_le_nth char_of_eq_mod del: enc_le.simps)
  qed simp
  ultimately show "enc64 (unat (hton64 n)) = rev (enc64 (unat n))" by simp
qed simp

section \<open>Strings\<close>

text \<open>C20: splitting at a character and joining with it are inverse: no text is lost, and fields without
  the separator come back as they were.\<close>

theorem split_join:
  "join c (split s [c]) = s \<and>
   (xs \<noteq> [] \<longrightarrow> (\<forall>x \<in> set xs. c \<notin> set x) \<longrightarrow> split (join c xs) [c] = xs)"
  by (simp add: split_pieces join_pieces pieces_join)

theorem split_join_witness: "split (join CHR '','' [''a:1'', [], ''b:2'']) '','' = [''a:1'', [], ''b:2'']"
  using split_join [of "CHR '',''" "[]" "[''a:1'', [], ''b:2'']"] by simp

text \<open>\<open>replace_all\<close> returns exactly for a nonempty pattern, and then it has replaced the
  occurrences of a left-to-right scan, never looking at its own insertions.\<close>

theorem replace_all_scans:
  "map_option fst (replace_all s what with) = (if what = [] then None else Some (subst_all s what with))"
  using replace_all_returns [of "what" s "with"] replace_all_empty_diverges [of s "with"] by auto

text \<open>the text of a configuration request survives the way over the URL: decoding the blanks
  gives back any text without a literal \<^verbatim>\<open>%20\<close>.\<close>

theorem blanks_round_trip:
  assumes "\<forall>p. take 3 (drop p s) \<noteq> ''%20''"
  shows "\<exists>t n m. replace_all s '' '' ''%20'' = Some (t, n) \<and> CHR '' '' \<notin> set t \<and> replace_all t ''%20'' '' '' = Some (s, m)"
proof -
  have "CHR '' '' \<notin> set (subst_all s '' '' ''%20'')" by (induction s) auto
  then show ?thesis
    using replace_all_returns [of "'' ''" s "''%20''"] replace_all_returns [of "''%20''" "subst_all s '' '' ''%20''" "'' ''"]
      decode_encoded [OF assms] by auto
qed

theorem blanks_round_trip_witness:
  "\<exists>t n m. replace_all ''set a b'' '' '' ''%20'' = Some (t, n) \<and> replace_all t ''%20'' '' '' = Some (''set a b'', m)"
proof -
  have "take 3 (drop p ''set a b'') \<noteq> ''%20''" for p
  proof -
    have "CHR ''%'' \<notin> set (take 3 (drop p ''set a b''))" by (auto dest!: in_set_takeD in_set_dropD)
    then show ?thesis by auto
  qed
  with blanks_round_trip [of "''set a b''"] show ?thesis by auto
qed

text \<open>\<open>is_ipv4\<close> accepts exactly four nonempty fields between dots, each of which \<open>stol\<close> reads as a
  number from 0 to 255.\<close>

theorem is_ipv4_fields:
  "is_ipv4 s \<longleftrightarrow> (let fs = fields (takeWhile (\<lambda>c. c \<noteq> CHR 0x00) s) in length fs = 4 \<and> list_all octet_ok fs)"
  by (auto simp: is_ipv4_def ipv4_loop_fields Let_def)

text \<open>so it also accepts empty fields and text after the digits, which are no IPv4 addresses.\<close>

theorem is_ipv4_lenient: "is_ipv4 ''1..2.3.4'' \<and> is_ipv4 ''1.2.3.4x'' \<and> \<not> is_ipv4 ''1.2.3'' \<and> \<not> is_ipv4 ''1.2.3.256''"
  unfolding is_ipv4_fields
  by (simp add: fields_def octet_ok_def stol_def Let_def is_space_def is_digit_def digits_value_def char_digit_def)

section \<open>The mapped file\<close>

text \<open>a successful \<open>remap\<close> makes the mapping the new size rounded up to a page, keeps every byte both
  sizes have and shows zeros beyond the old ones; a failed one loses the mapping.\<close>

theorem remap_contents:
  assumes "mf_mapped mf" and "n + 4096 \<le> u64_bound" and "remap os n mf = (rc, mf')"
  shows "rc = RC_GOOD \<and> mf_mapped mf' \<and> n \<le> mf_size mf' \<and> mf_size mf' < n + 4096 \<and> 4096 dvd mf_size mf' \<and>
      (\<forall>a < mf_size mf'. mf_mem mf' a = (if a < mf_size mf then mf_mem mf a else CHR 0x00)) \<or>
    rc \<noteq> RC_GOOD \<and> \<not> mf_mapped mf' \<and> mf_size mf' = mf_size mf \<and> mf_mem mf' = mf_mem mf"
  using remap_cases [OF assms(3,1)] page_round_bounds [OF assms(2)] by (auto split: if_splits)

definition demo_mapping :: mapped_file where
  "demo_mapping = (new_mapped_file ''f'' 4096 0)\<lparr>mf_mapped := True, mf_live := 1, mf_mem := store_bytes zero_mem 0 ''abc''\<rparr>"

lemma demo_remap: "fst (remap demo_os 5000 demo_mapping) = RC_GOOD" "mf_mapped demo_mapping" "mf_size demo_mapping = 4096"
  by (simp_all add: demo_mapping_def new_mapped_file_def remap_good)

theorem remap_contents_witness:
  "mf_mem (snd (remap demo_os 5000 demo_mapping)) 2 = CHR ''c'' \<and> mf_size (snd (remap demo_os 5000 demo_mapping)) = 8192"
proof -
  obtain mf' where r: "remap demo_os 5000 demo_mapping = (RC_GOOD, mf')" using demo_remap(1) by (metis prod.collapse)
  have m: "mf_size mf' < 9096" "5000 \<le> mf_size mf'" "4096 dvd mf_size mf'" "mf_mem mf' 2 = mf_mem demo_mapping 2"
    using remap_contents [OF demo_remap(2) _ r] demo_remap(3) by auto
  then obtain k where "mf_size mf' = 4096 * k" by (auto simp: dvd_def)
  with m(1,2) have "mf_size mf' = 8192" by (cases "k = 0 \<or> k = 1 \<or> k = 2") auto
  with m(4) r show ?thesis by (simp add: demo_mapping_def new_mapped_file_def store_bytes_def)
qed

text \<open>every successful \<open>remap\<close> leaves one more mapping alive: the old one is never unmapped, because
  \<open>unmap\<close> is called after the flag it tests was cleared.\<close>

theorem remap_leaks:
  assumes "os_good os" and "mf_mapped mf"
  shows "\<exists>mf'. remap os n mf = (RC_GOOD, mf') \<and> mf_live mf' = Suc (mf_live mf)"
  using remap_good [OF assms, of n] remap_cases [of os n mf _ _, OF _ assms(2)]
  by (cases "remap os n mf") (auto dest: remap_cases [OF _ assms(2)])

theorem remap_leaks_witness: "\<exists>mf'. remap demo_os 5000 demo_mapping = (RC_GOOD, mf') \<and> mf_live mf' = 2"
  using remap_leaks [OF demo_os_good demo_remap(2), of 5000] by (simp add: demo_mapping_def new_mapped_file_def numeral_2_eq_2)

text \<open>when \<open>get_ipv4\<close> finds the address it leaves the socket open: only its error paths close it.\<close>

theorem get_ipv4_leaks:
  assumes "nt_socket nt = Some fd" and "fd \<notin> fds" and "get_ipv4 nt ifn fds = Some (address, fds')"
  shows "if address = [] then fds' = fds \<or> fds' = insert fd fds else fds' = insert fd fds"
  using assms by (auto simp: get_ipv4_def Let_def split: if_splits option.splits)

definition demo_net :: net where
  "demo_net = \<lparr>nt_socket = Some 3, nt_ioctl = [''lo'' \<mapsto> ''addr''], nt_ntop = [''addr'' \<mapsto> ''127.0.0.1'']\<rparr>"

theorem get_ipv4_leaks_witness: "get_ipv4 demo_net ''lo'' {0, 1, 2} = Some (''127.0.0.1'', {3, 0, 1, 2})"
proof -
  obtain fds' where run: "get_ipv4 demo_net ''lo'' {0, 1, 2} = Some (''127.0.0.1'', fds')"
    by (simp add: get_ipv4_def demo_net_def)
  then show ?thesis using get_ipv4_leaks [OF _ _ run, of 3] by (simp add: demo_net_def)
qed

text \<open>\<open>sync\<close> flushes a page-aligned range that contains the requested one, and says so exactly
  when the mapping is there and \<open>msync\<close> succeeds.\<close>

theorem sync_covers:
  assumes "sync_range os a n mf = (rc, mf')"
  shows "mf_mem mf' = mf_mem mf \<and> (rc = RC_GOOD \<longrightarrow> (\<exists>p k. mf_synced mf' = mf_synced mf @ [(p, k)] \<and> 4096 dvd p \<and>
    p \<le> a \<and> p + k = a + n)) \<and> (rc \<noteq> RC_GOOD \<longrightarrow> mf' = mf)"
proof -
  have "a mod 4096 \<le> a" "4096 dvd a - a mod 4096" by (simp_all add: dvd_minus_mod)
  then show ?thesis using assms by (auto simp: sync_range_def Let_def page_bits_def split: if_splits)
qed

theorem sync_covers_witness: "\<exists>p k. mf_synced (snd (sync_range demo_os 5000 8 demo_mapping)) = [(p, k)] \<and> p + k = 5008"
proof -
  have "sync_range demo_os 5000 8 demo_mapping = (RC_GOOD, snd (sync_range demo_os 5000 8 demo_mapping))"
    by (simp add: sync_range_def demo_remap Let_def)
  from sync_covers [OF this] show ?thesis by (auto simp: demo_mapping_def new_mapped_file_def)
qed

section \<open>The queue between threads\<close>

text \<open>what was pushed comes out in the order it went in, whatever is pushed behind it, and a \<open>pop\<close>
  waits exactly on an empty queue.\<close>

theorem queue_order:
  "cq.deqs (length xs) (fold push (xs @ ys) []) = Some xs \<and> (pop q = None \<longleftrightarrow> queue_empty q)"
  using cq.fifo_order [of "[]" xs ys] cq.deq_None [of q] cq.empty_iff [of q] by simp

end
