(* ===== verification/Log_Properties.thy ===== *)
theory Log_Properties
  imports Demo Address Concurrent_Queue
begin

text \<open>
  The properties of the base layer: strings and byte order, the mapped file, the images of entries,
  and the log on disk, each with the concrete input it is applied to.
\<close>

section \<open>The log\<close>

text \<open>C17: on a log that represents \<open>a\<close>, reading any index returns exactly what \<open>a\<close> holds there (the
  sentry at 0, nothing at or below the compaction point or past the end), never out of bounds.\<close>

theorem log_reads:
  assumes "log_rep l a"
  shows "get_entry l i = al_get a i \<and> last_entry_index l = al_last a \<and> last_entry_term l = al_last_term a"
  using rep_get [OF assms] rep_last_entry_index [OF assms] by auto

theorem log_reads_witness:
  "get_entry demo_log2 2 = Some demo_cfg_entry \<and> get_entry demo_log2 3 = None \<and> last_entry_index demo_log2 = 2"
  using log_reads [OF demo_log2(2)] by (simp add: al_get_def)

text \<open>C10: \<open>append\<close> returns \<open>RC_GOOD\<close> after growing the file as often as needed, keeps every entry,
  adds the new ones in order, leaves the bytes of the old entries alone, and with \<open>sync\<close> flushes a
  range that covers everything it wrote.\<close>

theorem append_correct:
  assumes "log_rep l a" and "wf_alog (al_append a new)" and "os_ready os l" and "lg_payload l + 8 + total new < size_cap"
  shows "\<exists>l'. append os new sync l = Some (RC_GOOD, l') \<and> log_rep l' (al_append a new) \<and>
    last_entry_index l' = last_entry_index l + length new \<and>
    (\<forall>i \<le> last_entry_index l. get_entry l' i = get_entry l i) \<and>
    (\<forall>k < length new. get_entry l' (last_entry_index l + 1 + k) = Some (new ! k)) \<and>
    (\<forall>p < lg_payload l. ldbs l' p = ldbs l p) \<and>
    (sync \<longrightarrow> (\<exists>p n. (p, n) \<in> set (mf_synced (lg_ldbs_map l')) \<and> p \<le> lg_payload l \<and> lg_payload l' + 8 \<le> p + n))"
proof -
  obtain l' where l': "append os new sync l = Some (RC_GOOD, l')" "log_rep l' (al_append a new)"
    "\<forall>p < lg_payload l. ldbs l' p = ldbs l p"
    "sync \<longrightarrow> (\<exists>p n. (p, n) \<in> set (mf_synced (lg_ldbs_map l')) \<and> p \<le> lg_payload l \<and> lg_payload l' + 8 \<le> p + n)"
    using append_rep [OF assms, of sync] by blast
  note r = rep_get [OF assms(1)] rep_get [OF l'(2)] rep_last_entry_index(1) [OF assms(1)] rep_last_entry_index(1) [OF l'(2)]
  have "\<forall>k < length new. get_entry l' (last_entry_index l + 1 + k) = Some (new ! k)"
    unfolding r(2,3) by (simp add: al_get_append_new [simplified])
  then show ?thesis using l' r by (auto simp: al_get_append_old)
qed

theorem append_correct_witness:
  "\<exists>l'. append demo_os [demo_entry, demo_cfg_entry] True demo_log = Some (RC_GOOD, l') \<and>
    last_entry_index l' = last_entry_index demo_log + 2"
  using append_correct [OF demo_log(2) _ demo_log(3), of "[demo_entry, demo_cfg_entry]" True] demo_alog_wf(1)
  by (auto simp: demo_alog_def demo_log(7))

text \<open>C11: \<open>chop\<close> at an index the log holds keeps exactly the entries below it, writes only the end
  marker, and leaves a configuration index below the cut.\<close>

theorem chop_correct:
  assumes "log_rep l a" and "os_ready os l" and "al_index a < index" and "index \<le> al_last a"
  shows "\<exists>l'. chop os index sync l = Some (RC_GOOD, l') \<and> log_rep l' (al_chop a index) \<and>
    last_entry_index l' = index - 1 \<and> (\<forall>i < index. get_entry l' i = get_entry l i) \<and>
    (\<forall>i \<ge> index. get_entry l' i = None) \<and> lg_cfg l' < index"
proof -
  obtain l' where l': "chop os index sync l = Some (RC_GOOD, l')" "log_rep l' (al_chop a index)" "lg_cfg l' < index"
    using chop_rep [OF assms, of sync] by blast
  then show ?thesis
    using assms(3,4) rep_last_entry_index(1) [OF l'(2)] al_get_chop [OF assms(3) le_SucI [OF assms(4)]]
    by (auto simp: rep_get [OF l'(2)] rep_get [OF assms(1)])
qed

theorem chop_correct_witness:
  "\<exists>l'. chop demo_os 2 True demo_log2 = Some (RC_GOOD, l') \<and> get_entry l' 2 = None \<and> last_entry_index l' = 1"
  using chop_correct [OF demo_log2(2,3), of 2 True] by auto

text \<open>\<open>chop\<close> and \<open>drop\<close> of an index outside the log answer \<open>RC_OOR\<close> and change nothing.\<close>

theorem log_out_of_range:
  assumes "log_rep l a" and "index \<le> al_index a \<or> al_last a < index"
  shows "chop os index sync l = Some (RC_OOR, l) \<and> drop_entries os index sync l = Some (RC_OOR, l)"
  using assms chop_out_of_range [OF assms(1), of index] rep_out_of_range [OF assms(1), of index]
  by (auto simp: drop_entries_def)

theorem log_out_of_range_witness:
  "chop demo_os 3 True demo_log2 = Some (RC_OOR, demo_log2) \<and> drop_entries demo_os 0 True demo_log2 = Some (RC_OOR, demo_log2)"
  using log_out_of_range [OF demo_log2(2), of 3] log_out_of_range [OF demo_log2(2), of 0] by simp

text \<open>C18: in a log in which every configuration entry points to the one before it and the configuration index is
  that of the last one, chopping rolls the configuration back to the last configuration entry that is kept.
  Entries that a follower stores out of one request all point to the same place: see
  \<open>batch_forgets_configuration\<close>.\<close>

theorem chop_rolls_configuration_back:
  assumes "log_rep l a" and "os_ready os l" and "al_index a < index" and "index \<le> al_last a"
    and "cfg_complete b (al_entries a)" and "b \<le> al_index a" and "lg_cfg l = cfg_after b (al_entries a)"
  shows "\<exists>l'. chop os index sync l = Some (RC_GOOD, l') \<and>
    lg_cfg l' = cfg_after b (take (index - al_index a - 1) (al_entries a))"
proof -
  have "chop_walk l index (cfg_after b (take (length (al_entries a)) (al_entries a))) =
      Some (cfg_after b (take (index - al_index a - 1) (al_entries a)))"
    using assms(3,4) by (intro conjunct1 [OF cfg_walk_complete [OF assms(1,5,6)]]) auto
  with chop_rep [OF assms(1-4), of sync] assms(7) show ?thesis by auto
qed

theorem chop_rolls_configuration_back_witness:
  "\<exists>l'. chop demo_os 2 False demo_log2 = Some (RC_GOOD, l') \<and> lg_cfg l' = 0"
  using chop_rolls_configuration_back [OF demo_log2(2,3) _ _ demo_complete, of 2 False] demo_log2(4) by auto

text \<open>C12: \<open>drop\<close> up to an index the log holds keeps every entry above it and the last position, and
  records the index and term of the last entry dropped.\<close>

theorem drop_correct:
  assumes "log_rep l a" and "os_ready os l" and "al_index a < index" and "index \<le> al_last a"
    and "total (al_entries a) < 2 ^ 59"
  shows "\<exists>l' d. drop_entries os index sync l = Some (RC_GOOD, l') \<and> log_rep l' (al_drop a index d) \<and>
    (\<forall>i > index. get_entry l' i = get_entry l i) \<and> last_entry_index l' = last_entry_index l \<and>
    last_index l' = index \<and> Some (last_term l') = map_option e_term (get_entry l index)"
proof -
  obtain l' c where l': "drop_entries os index sync l = Some (RC_GOOD, l')" "log_rep l' (al_drop a index (cfg_data_at a c))"
    using drop_rep [OF assms, of sync] by blast
  have "al_get a index = Some (al_entries a ! (index - al_index a - 1))" using assms(3,4) by (simp add: al_get_def)
  then show ?thesis
    using l' assms(3,4) rep_last_entry_index(1) [OF l'(2)] rep_last_entry_index(1) [OF assms(1)]
    by (auto simp: rep_get [OF l'(2)] rep_get [OF assms(1)] al_get_drop rep_last_index [OF l'(2)])
qed

theorem drop_correct_witness:
  "\<exists>l'. drop_entries demo_os 1 True demo_log2 = Some (RC_GOOD, l') \<and> get_entry l' 2 = Some demo_cfg_entry \<and> last_index l' = 1"
  using drop_correct [OF demo_log2(2,3), of 1 True] by (auto simp: rep_get [OF demo_log2(2)] al_get_def)

text \<open>\<open>drop\<close> saves the configuration in force at the index: the text of the last configuration
  entry at or below it, or the one saved before when the log holds none.\<close>

theorem drop_saves_configuration:
  assumes "log_rep l a" and "os_ready os l" and "al_index a < index" and "index \<le> al_last a"
    and "total (al_entries a) < 2 ^ 59"
    and "cfg_complete b (al_entries a)" and "b \<le> al_index a" and "lg_cfg l = cfg_after b (al_entries a)"
  shows "\<exists>l'. drop_entries os index sync l = Some (RC_GOOD, l') \<and>
    (let c = cfg_after b (take (index - al_index a) (al_entries a)) in
       last_config l' = (case get_entry l c of Some e \<Rightarrow> if str e = [] then last_config l else str e | None \<Rightarrow> last_config l))"
proof -
  have "chop_walk l (index + 1) (cfg_after b (take (length (al_entries a)) (al_entries a))) =
      Some (cfg_after b (take (index - al_index a) (al_entries a)))"
    using assms(3,4) by (intro conjunct1 [OF cfg_walk_complete [OF assms(1,6,7)]]) auto
  moreover obtain l' c where l': "drop_entries os index sync l = Some (RC_GOOD, l')"
    "chop_walk l (index + 1) (lg_cfg l) = Some c" "log_rep l' (al_drop a index (cfg_data_at a c))"
    using drop_rep [OF assms(1-5), of sync] by blast
  ultimately have "c = cfg_after b (take (index - al_index a) (al_entries a))" using assms(8) by simp
  then show ?thesis
    using l'(1) rep_last_index(3) [OF l'(3)] rep_last_index(3) [OF assms(1)]
    by (auto simp: cfg_data_at_def rep_get [OF assms(1)] split: option.splits)
qed

theorem drop_saves_configuration_witness:
  "\<exists>l'. drop_entries demo_os 2 True demo_log2 = Some (RC_GOOD, l') \<and> last_config l' = ''a:1,b:2''"
  using drop_saves_configuration [OF demo_log2(2,3) _ _ _ demo_complete, of 2 True] demo_log2(4)
  by (auto simp: rep_get [OF demo_log2(2)] al_get_def Let_def)

text \<open>on missing files \<open>init\<close> creates the two files and the empty log: only the sentry can be read.\<close>

theorem init_first_boot:
  assumes "os_good os" and "fs lf = None" and "fs sf = None" and "lf \<noteq> sf" and "lf \<noteq> []" and "sf \<noteq> []"
  shows "\<exists>l fs'. init os fs (new_logger sf lf (5 / 4)) = Some (RC_GOOD, l, fs') \<and> log_rep l empty_alog \<and>
    last_entry_index l = 0 \<and> get_entry l 0 = Some log_entry_sentry \<and> config l = [] \<and> last_config l = []"
proof -
  obtain l fs' where l: "init os fs (new_logger sf lf (5 / 4)) = Some (RC_GOOD, l, fs')" "log_rep l empty_alog" "lg_cfg l = 0"
    using init_fresh [OF assms] by blast
  then show ?thesis
    using rep_last_entry_index(1) [OF l(2)] rep_last_index(3) [OF l(2)] rep_get [OF l(2)] rep_config [OF l(2)]
    by (auto simp: al_get_def)
qed

theorem init_first_boot_witness:
  "\<exists>l fs'. init demo_os Map.empty (new_logger ''stat'' ''ldbs'' (5 / 4)) = Some (RC_GOOD, l, fs') \<and> last_entry_index l = 0"
  using init_first_boot [of demo_os Map.empty "''ldbs''" "''stat''"] by auto

text \<open>C5: a log survives a restart: opening the files that the mappings of a represented log left
  behind gives a log that represents the same entries and the same compaction point.\<close>

theorem log_survives_restart:
  assumes "log_rep l a" and "os_good os" and "mf_file (lg_ldbs_map l) = lf" and "mf_file (lg_stat_map l) = sf"
    and "lf \<noteq> sf" and "lf \<noteq> []" and "sf \<noteq> []" and "lg_ldbs_size l < size_cap" and "lg_stat_size l < size_cap"
  shows "\<exists>l' fs'. init os (left_behind l fs) (new_logger sf lf (5 / 4)) = Some (RC_GOOD, l', fs') \<and> log_rep l' a \<and>
    (\<forall>i. get_entry l' i = get_entry l i) \<and> last_index l' = last_index l \<and> last_term l' = last_term l \<and>
    last_config l' = last_config l \<and> lg_cfg l' = cfg_after 0 (al_entries a)"
proof -
  obtain l' where l': "init os (left_behind l fs) (new_logger sf lf (5 / 4)) = Some (RC_GOOD, l', left_behind l fs)"
    "log_rep l' a" "lg_cfg l' = cfg_after 0 (al_entries a)"
    using init_reopen [OF assms] by blast
  then show ?thesis
    using rep_get [OF l'(2)] rep_get [OF assms(1)] rep_last_index [OF l'(2)] rep_last_index [OF assms(1)] by auto
qed

theorem log_survives_restart_witness:
  "\<exists>l' fs'. init demo_os (left_behind demo_log Map.empty) (new_logger ''stat'' ''ldbs'' (5 / 4)) = Some (RC_GOOD, l', fs') \<and>
    last_index l' = 0"
  using log_survives_restart [OF demo_log(2) demo_os_good demo_log(8,9), of Map.empty]
    rep_last_index(1) [OF demo_log(2)] demo_log(5,6) by auto

text \<open>replacing a conflicting tail (chop, then append) succeeds and leaves every entry below the
  cut as it was; proved from the contract of the log alone.\<close>

theorem replace_tail_keeps_prefix:
  assumes "live_rep os l a" and "al_index a < i" and "i \<le> al_last a" and "alog_ok (al_append (al_chop a i) new)"
  shows "\<exists>l1 l2. chop os i sync l = Some (RC_GOOD, l1) \<and> append os new sync l1 = Some (RC_GOOD, l2) \<and>
    live_rep os l2 (al_append (al_chop a i) new) \<and> (\<forall>j < i. get_entry l2 j = get_entry l j)"
  using file_log.replace_tail [OF assms, of sync] by (metis (no_types, lifting))

theorem replace_tail_keeps_prefix_witness:
  "\<exists>l1 l2. chop demo_os 2 True demo_log2 = Some (RC_GOOD, l1) \<and> append demo_os [] True l1 = Some (RC_GOOD, l2) \<and>
    get_entry l2 1 = get_entry demo_log2 1"
proof -
  have "alog_ok (al_append (al_chop demo_alog 2) [])" using alog_ok_chop [OF demo_alog_wf(2), of 2] by simp
  from replace_tail_keeps_prefix [OF demo_live2 _ _ this, of True] show ?thesis by auto
qed

section \<open>Entries\<close>

text \<open>an entry written to the mapping is read back unchanged, whatever surrounds it.\<close>

theorem entry_round_trip:
  assumes "wf_entry e"
  shows "read_entry (store_bytes m p (entry_bytes e)) p = e"
proof (rule read_entry_image [OF _ assms])
  have "length (entry_bytes e) = e_size e" using assms by (simp add: wf_entryD)
  then show "load_bytes (store_bytes m p (entry_bytes e)) p (e_size e) = entry_bytes e" by (simp add: mem_simps)
qed

theorem entry_round_trip_witness: "read_entry (store_bytes zero_mem 40 (entry_bytes demo_cfg_entry)) 40 = demo_cfg_entry"
  by (rule entry_round_trip) simp

text \<open>C19: an entry built by \<open>make_entry\<close> is well formed, a multiple of eight bytes long, carries its
  text, and, if it is a configuration entry, the index of the previous one.\<close>

theorem make_entry_correct:
  assumes "length d + 56 \<le> u64_bound" and "i < u64_bound" and "t < u64_bound" and "lc < u64_bound"
  shows "wf_entry (make_entry lc d i t cfg) \<and> 8 dvd e_size (make_entry lc d i t cfg) \<and>
    str (make_entry lc d i t cfg) = d \<and> (cfg \<longrightarrow> prev_cfg (make_entry lc d i t cfg) = lc)"
proof -
  have "40 + cfg_offset cfg + length d + 8 \<le> u64_bound" using assms(1) by (simp add: cfg_offset_def)
  then have "8 dvd e_size (make_entry lc d i t cfg)" using align8(3) by simp
  then show ?thesis using assms wf_make_entry str_make_entry prev_cfg_make_entry by auto
qed

theorem make_entry_correct_witness:
  "str (make_entry 7 ''a,b'' 9 2 True) = ''a,b'' \<and> prev_cfg (make_entry 7 ''a,b'' 9 2 True) = 7"
  using make_entry_correct [of "''a,b''" 9 2 7 True] by simp

end
