(* ===== verification/Raft_State.thy ===== *)
theory Raft_State
  imports Log_Interface Concurrent_Queue Address "HOL-Library.Multiset"
begin

text \<open>
  \<^verbatim>\<open>src/raft/raft_base.hpp\<close>, \<^verbatim>\<open>src/raft/raft.proto\<close> and the members of \<open>raft_impl\<close>: the
  state of one server.  Nodes are objects that tasks, the cluster map and a reconfiguration share
  by pointer, so they live in a store \<open>r_nodes\<close> indexed by address; dereferencing an address that
  is not in the store (a dangling or null pointer) is \<^const>\<open>None\<close>.  The cluster is an association
  list in the iteration order of the \<^verbatim>\<open>unordered_map\<close>; an insertion may leave it in any order, which
  is the parameter \<open>r_order\<close> of the state.  What a handler does to the outside (RPCs
  sent, timers set and cancelled, replies written) is appended to \<open>r_out\<close>.  Terms and task
  numbers, 64 bits wide in the code and only ever incremented by one, are natural numbers.
\<close>

section \<open>Messages\<close>

record vote_req =
  vq_term :: nat
  vq_candidate_id :: string
  vq_last_log_index :: nat
  vq_last_log_term :: nat
  vq_early :: bool

record vote_res =
  vs_term :: nat
  vs_vote_granted :: bool

record LogEntry =
  le_term :: nat
  le_index :: nat
  le_data :: string
  le_config :: bool

record append_entries_req =
  aq_term :: nat
  aq_leader_id :: string
  aq_prev_log_index :: nat
  aq_prev_log_term :: nat
  aq_entries :: "LogEntry list"
  aq_leader_commit :: nat
  aq_id :: nat

record append_entries_res =
  as_term :: nat
  as_success :: bool
  as_match_index :: nat
  as_id :: nat

record data_req =
  dq_term :: nat
  dq_leader_id :: string
  dq_last_index :: nat
  dq_last_term :: nat
  dq_last_config :: string
  dq_name :: string
  dq_data :: string
  dq_perms :: nat
  dq_id :: nat

record data_res =
  ds_term :: nat
  ds_success :: bool
  ds_id :: nat

record done_req =
  nq_term :: nat
  nq_leader_id :: string
  nq_name :: string
  nq_id :: nat

section \<open>Objects\<close>

datatype role_type = LEADER | CANDIDATE | FOLLOWER

datatype reconfiguration_type = server_addition | server_removal

type_synonym addr = nat

record node =
  n_id :: string
  n_host :: string
  n_port :: string
  n_alive :: bool
  n_next_index :: nat
  n_match_index :: nat
  n_transfer_leader_to :: bool
  n_transfer_data_to :: bool

text \<open>A task: its number, the node it was sent to and the peer address its controller holds.\<close>

record task =
  t_id :: nat
  t_node :: addr
  t_host :: string
  t_port :: string

text \<open>The HTTP response objects the code keeps references to (\<^verbatim>\<open>config_server.hpp\<close>).\<close>

record http_rep =
  h_ready :: bool
  h_body :: string
  h_status :: nat
  h_type :: string          \<comment> \<open>the content type\<close>
  h_keep_alive :: bool

record reconfiguration =
  rc_type :: reconfiguration_type
  rc_address :: string
  rc_rep :: nat
  rc_rounds :: nat
  rc_entry_added :: bool
  rc_node :: addr
  rc_last_round :: nat

datatype action =
    Pre_Vote task vote_req
  | Request_Vote task vote_req
  | Timeout_Now task vote_req
  | Append_Entries task append_entries_req
  | Data_Transfer task data_req
  | Done_Transfer task done_req
  | Set_Election_Timer
  | Cancel_Election_Timer
  | Set_Heartbeat_Timer
  | Cancel_Heartbeat_Timer
  | Set_Transfer_Timer addr
  | Cancel_Transfer_Timer
  | Http_Write nat
  | Transfer_Callback string bool
  | Create_Directories string
  | Write_File string string
  | Set_Permissions string nat

section \<open>The surroundings of a handler\<close>

text \<open>
  The operating system, the clock in milliseconds, and the directory a data transfer reads: what
  \<^verbatim>\<open>std::filesystem\<close> says of a path, and the order in which its recursive iterator visits a
  directory.
\<close>

datatype file_kind = Directory bool | Regular string  \<comment> \<open>the flag says empty; the contents\<close>

record world =
  w_os :: os
  w_now :: nat
  w_kind :: "string \<Rightarrow> file_kind option"
  w_perms :: "string \<Rightarrow> nat"
  w_iterate :: "string \<Rightarrow> string list"
  w_relative :: "string \<Rightarrow> string \<Rightarrow> string"
  w_parent :: "string \<Rightarrow> string"

section \<open>State of a server\<close>

record raft =
  r_self_id :: string
  r_interface_address :: string
  r_rpc_host :: string
  r_rpc_port :: string
  r_http_host :: string
  r_http_port :: string
  r_inited :: bool
  r_started :: bool
  r_started_at :: nat
  r_log :: logger
  r_curr_term :: nat
  r_voted_for :: string           \<comment> \<open>the C string in the 32 bytes\<close>
  r_role :: role_type
  r_leader :: string
  r_commit_index :: nat
  r_last_applied :: nat
  r_votes :: nat
  r_pre_votes_granted :: nat
  r_pre_votes_refused :: nat
  r_cluster :: "(string \<times> addr) list"
  r_order :: "(string \<times> addr) list \<Rightarrow> (string \<times> addr) list"  \<comment> \<open>hashing: the order of the map after an insertion\<close>
  r_nodes :: "addr \<Rightarrow> node option"
  r_fresh :: addr
  r_recfg :: "reconfiguration option"
  r_transfer_leader_to :: "addr option"
  r_transfer_reply_to :: "nat option"
  r_replies :: "nat \<Rightarrow> http_rep"
  r_pre_vote_id :: nat
  r_timeout_now_id :: nat
  r_request_vote_id :: nat
  r_append_entries_id :: nat
  r_data_transfer_id :: nat
  r_done_transfer_id :: nat
  r_last_heartbeat :: nat
  r_min_election_timeout :: nat
  r_max_election_timeout :: nat
  r_server_catch_up_rounds :: nat
  r_election_rpc_timeout :: nat
  r_heartbeat_rate :: nat
  r_heartbeat_rpc_timeout :: nat
  r_transfer_rpc_timeout :: nat
  r_snapshot_rate :: nat
  r_log_compaction_enabled :: bool
  r_path :: string
  r_parent :: string
  r_last :: string
  r_iter :: "string list"          \<comment> \<open>what is left between \<^verbatim>\<open>begin\<close> and \<^verbatim>\<open>end\<close>\<close>
  r_fin :: "(string \<times> nat) option"  \<comment> \<open>the open file and the position in it\<close>
  r_gcount :: nat
  r_rpc_last :: string             \<comment> \<open>\<open>rpc_service_impl::last\<close> and the file behind its \<open>fout\<close>\<close>
  r_fout :: "string option"
  r_log_committed_queue :: "bool list"
  r_data_transfer_queue :: "bool list"
  r_out :: "action list"

definition emit :: "action \<Rightarrow> raft \<Rightarrow> raft" where
  "emit act r = r\<lparr>r_out := r_out r @ [act]\<rparr>"

text \<open>A C string is read up to its terminator.\<close>

definition c_string :: "string \<Rightarrow> string" where
  "c_string s = takeWhile (\<lambda>c. c \<noteq> CHR 0x00) s"

lemma c_string_id: "CHR 0x00 \<notin> set s \<Longrightarrow> c_string s = s"
  by (auto simp: c_string_def takeWhile_eq_all_conv)

section \<open>Nodes and the cluster map\<close>

abbreviation node_at :: "raft \<Rightarrow> addr \<Rightarrow> node option" where
  "node_at r a \<equiv> r_nodes r a"

definition set_node :: "addr \<Rightarrow> (node \<Rightarrow> node) \<Rightarrow> raft \<Rightarrow> raft" where
  "set_node a f r = r\<lparr>r_nodes := (r_nodes r)(a := map_option f (r_nodes r a))\<rparr>"

definition contains :: "raft \<Rightarrow> string \<Rightarrow> bool" where
  "contains r address \<longleftrightarrow> address \<in> fst ` set (r_cluster r)"

definition members :: "raft \<Rightarrow> addr list" where
  "members r = map snd (r_cluster r)"

definition cluster_size :: "raft \<Rightarrow> nat" where
  "cluster_size r = length (r_cluster r)"

text \<open>
  \<^verbatim>\<open>cluster.emplace\<close> and \<^verbatim>\<open>cluster.insert\<close>: nothing happens when the key is there.  A new key may be put
  anywhere, and the table may be hashed again: the elements come in whatever order \<open>r_order\<close> makes of them.
\<close>

definition iteration :: "raft \<Rightarrow> (string \<times> addr) list \<Rightarrow> (string \<times> addr) list" where
  "iteration r xs = (let ys = r_order r xs in if mset ys = mset xs then ys else xs)"

lemma mset_iteration [simp]: "mset (iteration r xs) = mset xs"
  by (simp add: iteration_def Let_def)

lemma set_iteration [simp]: "set (iteration r xs) = set xs"
  by (metis mset_iteration set_mset_mset)

lemma length_iteration [simp]: "length (iteration r xs) = length xs"
  by (metis mset_iteration size_mset)

lemma iteration_single [simp]: "iteration r [x] = [x]"
proof -
  have "mset (iteration r [x]) = {#x#}" by simp
  then show ?thesis by (simp only: mset_single_iff)
qed

lemma distinct_iteration [simp]: "distinct (map f (iteration r xs)) = distinct (map f xs)"
  by (metis mset_eq_imp_distinct_iff mset_iteration mset_map)

definition emplace :: "string \<Rightarrow> addr \<Rightarrow> raft \<Rightarrow> raft" where
  "emplace address a r = (if contains r address then r else r\<lparr>r_cluster := iteration r (r_cluster r @ [(address, a)])\<rparr>)"

text \<open>
  \<^verbatim>\<open>cluster.erase\<close>: the node object dies with its last owner, the cluster or the reconfiguration.
\<close>

definition erase :: "string \<Rightarrow> raft \<Rightarrow> raft" where
  "erase address r =
     (let gone = set (map snd (filter (\<lambda>(k, _). k = address) (r_cluster r)))
              - (case r_recfg r of None \<Rightarrow> {} | Some c \<Rightarrow> {rc_node c})
      in r\<lparr>r_cluster := filter (\<lambda>(k, _). k \<noteq> address) (r_cluster r),
           r_nodes := (\<lambda>a. if a \<in> gone then None else r_nodes r a)\<rparr>)"

fun for_nodes :: "(addr \<Rightarrow> raft \<Rightarrow> raft option) \<Rightarrow> addr list \<Rightarrow> raft \<Rightarrow> raft option" where
  "for_nodes f [] r = Some r"
| "for_nodes f (a # as) r = Option.bind (f a r) (for_nodes f as)"

section \<open>Building nodes and configurations\<close>

definition default_rpc_port :: string where
  "default_rpc_port = ''2023''"

definition make_id :: "raft \<Rightarrow> string \<Rightarrow> string" where
  "make_id r address =
     (if length (split address '':'') = 1 then
        address @ '':'' @ (if address = r_interface_address r then r_rpc_port r else default_rpc_port)
      else address)"

definition make_node :: "string \<Rightarrow> string \<Rightarrow> raft \<Rightarrow> addr \<times> raft" where
  "make_node address port r =
     (let v = split address '':'';
          (host, port') = (if length v = 1 then (address, port) else (v ! 0, v ! 1));
          n = \<lparr>n_id = c_string (host @ '':'' @ port'), n_host = host, n_port = port', n_alive = False,
               n_next_index = last_entry_index (r_log r) + 1, n_match_index = 0,
               n_transfer_leader_to = False, n_transfer_data_to = False\<rparr>
      in (r_fresh r, r\<lparr>r_nodes := (r_nodes r)(r_fresh r \<mapsto> n), r_fresh := Suc (r_fresh r)\<rparr>))"

definition serialize_configuration :: "raft \<Rightarrow> string option" where
  "serialize_configuration r =
     (if \<exists>a \<in> set (members r). node_at r a = None then None
      else Some (join (CHR '','') (map (\<lambda>a. n_id (the (node_at r a))) (members r))))"

definition add_missing :: "string \<Rightarrow> raft \<Rightarrow> raft" where
  "add_missing address r =
     (if contains r address then r
      else case make_node address default_rpc_port r of (a, r') \<Rightarrow> emplace address a r')"

text \<open>\<open>adjust_configuration\<close>: make the cluster map agree with a configuration entry.\<close>

definition adjust_configuration :: "string \<Rightarrow> raft \<Rightarrow> raft" where
  "adjust_configuration conf r =
     (if conf = [] then r
      else
        let addresses = split conf '','';
            r1 = fold add_missing addresses r
        in fold (\<lambda>address r. if address \<in> set addresses then r else erase address r) (map fst (r_cluster r1)) r1)"

section \<open>Configuration changes in progress\<close>

text \<open>\<open>newly(n)\<close>: is this the node being added?\<close>

definition newly :: "raft \<Rightarrow> addr \<Rightarrow> bool" where
  "newly r a = (case r_recfg r of None \<Rightarrow> False | Some c \<Rightarrow> rc_node c = a \<and> rc_type c = server_addition)"

definition prepare :: "nat \<Rightarrow> string \<Rightarrow> raft \<Rightarrow> raft" where
  "prepare h body r =
     (if body = [] then r else r\<lparr>r_replies := (r_replies r)(h := (r_replies r h)\<lparr>h_body := body\<rparr>)\<rparr>)"

definition do_write :: "nat \<Rightarrow> raft \<Rightarrow> raft" where
  "do_write h r = emit (Http_Write h) (r\<lparr>r_replies := (r_replies r)(h := (r_replies r h)\<lparr>h_ready := True\<rparr>)\<rparr>)"

text \<open>\<^verbatim>\<open>recfg.reset()\<close>: a node that only the reconfiguration owned dies.\<close>

definition reset_recfg :: "raft \<Rightarrow> raft" where
  "reset_recfg r =
     (case r_recfg r of
        None \<Rightarrow> r
      | Some c \<Rightarrow> r\<lparr>r_recfg := None,
          r_nodes := (if rc_node c \<in> set (members r) then r_nodes r else (r_nodes r)(rc_node c := None))\<rparr>)"

definition complete_reconfiguration :: "string \<Rightarrow> raft \<Rightarrow> raft option" where
  "complete_reconfiguration status r =
     (case r_recfg r of
        None \<Rightarrow> None
      | Some c \<Rightarrow>
          let r1 = prepare (rc_rep c) (status @ '' '' @ r_leader r) r;
              r2 = r1\<lparr>r_replies := (r_replies r1)(rc_rep c := (r_replies r1 (rc_rep c))\<lparr>h_status := 200\<rparr>)\<rparr>
          in Some (reset_recfg (do_write (rc_rep c) r2)))"

end
