(* ===== verification/Raft_Send.thy ===== *)
theory Raft_Send
  imports Raft_State
begin

text \<open>
  The sending half of \<^verbatim>\<open>src/raft/raft_impl.hpp\<close>: timers, building requests (\<open>fill\<close>), the
  leader's \<open>append_entries\<close>, and \<open>adjust_commit_index\<close>, which \<open>append_entries\<close> calls in a
  cluster of one.
\<close>

section \<open>Timers\<close>

definition remove_election_timer :: "raft \<Rightarrow> raft" where
  "remove_election_timer r = emit Cancel_Election_Timer r"

definition reset_election_timer :: "raft \<Rightarrow> raft" where
  "reset_election_timer r = emit Set_Election_Timer r"

definition remove_heartbeat_timer :: "raft \<Rightarrow> raft" where
  "remove_heartbeat_timer r = emit Cancel_Heartbeat_Timer r"

definition reset_heartbeat_timer :: "raft \<Rightarrow> raft" where
  "reset_heartbeat_timer r = emit Set_Heartbeat_Timer r"

section \<open>Requests\<close>

text \<open>\<open>fill\<close>: the template sets the fields the request type has.\<close>

definition make_task :: "raft \<Rightarrow> addr \<Rightarrow> nat \<Rightarrow> task option" where
  "make_task r a i = map_option (\<lambda>n. \<lparr>t_id = i, t_node = a, t_host = n_host n, t_port = n_port n\<rparr>) (node_at r a)"

definition fill_vote :: "raft \<Rightarrow> bool \<Rightarrow> vote_req" where
  "fill_vote r early =
     \<lparr>vq_term = r_curr_term r, vq_candidate_id = r_self_id r, vq_last_log_index = last_entry_index (r_log r),
      vq_last_log_term = last_entry_term (r_log r), vq_early = early\<rparr>"

definition fill_append_entries :: "raft \<Rightarrow> node \<Rightarrow> nat \<Rightarrow> LogEntry list \<Rightarrow> append_entries_req" where
  "fill_append_entries r n i es =
     (let prev_log = get_entry (r_log r) (sub64 (n_next_index n) 1)
      in \<lparr>aq_term = r_curr_term r, aq_leader_id = r_self_id r,
          aq_prev_log_index = (case prev_log of None \<Rightarrow> last_index (r_log r) | Some e \<Rightarrow> e_index e),
          aq_prev_log_term = (case prev_log of None \<Rightarrow> last_term (r_log r) | Some e \<Rightarrow> e_term e),
          aq_entries = es, aq_leader_commit = r_commit_index r, aq_id = i\<rparr>)"

definition fill_data :: "raft \<Rightarrow> nat \<Rightarrow> data_req" where
  "fill_data r i =
     \<lparr>dq_term = r_curr_term r, dq_leader_id = r_self_id r,
      dq_last_index = (if r_log_compaction_enabled r then last_index (r_log r) else 0),
      dq_last_term = (if r_log_compaction_enabled r then last_term (r_log r) else 0),
      dq_last_config = (if r_log_compaction_enabled r \<and> i = 1 then last_config (r_log r) else []),
      dq_name = [], dq_data = [], dq_perms = 0, dq_id = i\<rparr>"

definition fill_done :: "raft \<Rightarrow> nat \<Rightarrow> done_req" where
  "fill_done r i = \<lparr>nq_term = r_curr_term r, nq_leader_id = r_self_id r, nq_name = [], nq_id = i\<rparr>"

definition send_pre_vote :: "bool \<Rightarrow> addr \<Rightarrow> raft \<Rightarrow> raft option" where
  "send_pre_vote early a r =
     (let i = r_pre_vote_id r + 1; r1 = r\<lparr>r_pre_vote_id := i\<rparr>
      in map_option (\<lambda>t. emit (Pre_Vote t (fill_vote r1 early)) r1) (make_task r1 a i))"

definition request_vote :: "addr \<Rightarrow> raft \<Rightarrow> raft option" where
  "request_vote a r =
     (let i = r_request_vote_id r + 1; r1 = r\<lparr>r_request_vote_id := i\<rparr>
      in map_option (\<lambda>t. emit (Request_Vote t (fill_vote r1 False)) r1) (make_task r1 a i))"

definition timeout_now :: "addr \<Rightarrow> raft \<Rightarrow> raft option" where
  "timeout_now a r =
     (let i = r_timeout_now_id r + 1; r1 = r\<lparr>r_timeout_now_id := i\<rparr>
      in map_option (\<lambda>t. emit (Timeout_Now t (fill_vote r1 False)) r1) (make_task r1 a i))"

text \<open>The entries from index \<open>i\<close> on, up to the first one the log no longer has.\<close>

definition to_LogEntry :: "log_entry \<Rightarrow> LogEntry" where
  "to_LogEntry e = \<lparr>le_term = e_term e, le_index = e_index e, le_data = str e, le_config = e_cfg e\<rparr>"

function entries_from :: "logger \<Rightarrow> nat \<Rightarrow> LogEntry list" where
  "entries_from l i =
     (if i \<le> last_entry_index l then
        case get_entry l i of None \<Rightarrow> [] | Some e \<Rightarrow> to_LogEntry e # entries_from l (i + 1)
      else [])"
  by pat_completeness auto
termination
  by (relation "measure (\<lambda>(l, i). Suc (last_entry_index l) - i)") auto

declare entries_from.simps [simp del]

definition append_entries_to :: "addr \<Rightarrow> raft \<Rightarrow> raft option" where
  "append_entries_to a r =
     do {
       n \<leftarrow> node_at r a;
       let i = r_append_entries_id r + 1; r1 = r\<lparr>r_append_entries_id := i\<rparr>;
           req = fill_append_entries r1 n i (entries_from (r_log r) (n_next_index n))
       in map_option (\<lambda>t. emit (Append_Entries t req) r1) (make_task r1 a i)
     }"

text \<open>\<^verbatim>\<open>for (auto& [_, n] : cluster) if (n->id != self_id) ...\<close>\<close>

definition to_peer :: "(addr \<Rightarrow> raft \<Rightarrow> raft option) \<Rightarrow> addr \<Rightarrow> raft \<Rightarrow> raft option" where
  "to_peer f a r = do { n \<leftarrow> node_at r a; if n_id n \<noteq> r_self_id r then f a r else Some r }"

section \<open>The commit index\<close>

fun match_bounds :: "raft \<Rightarrow> addr list \<Rightarrow> nat \<times> nat \<Rightarrow> (nat \<times> nat) option" where
  "match_bounds r [] b = Some b"
| "match_bounds r (a # as) (lo, hi) =
     do {
       n \<leftarrow> node_at r a;
       if n_id n \<noteq> r_self_id r \<and> n_match_index n > r_commit_index r then
         do {
           e \<leftarrow> get_entry (r_log r) (n_match_index n);
           match_bounds r as (if e_term e = r_curr_term r
             then (min lo (n_match_index n), max hi (n_match_index n)) else (lo, hi))
         }
       else match_bounds r as (lo, hi)
     }"

definition has_match :: "raft \<Rightarrow> nat \<Rightarrow> addr \<Rightarrow> bool" where
  "has_match r i a = (case node_at r a of None \<Rightarrow> False | Some n \<Rightarrow> n_id n \<noteq> r_self_id r \<and> i \<le> n_match_index n)"

definition count_matching :: "raft \<Rightarrow> nat \<Rightarrow> nat" where
  "count_matching r i = of_bool (contains r (r_self_id r)) + length (filter (has_match r i) (members r))"

text \<open>
  \<^verbatim>\<open>for (uint64_t i = max_match; i >= min_match; --i)\<close>.  The result is the index found, if any;
  \<^const>\<open>None\<close> outside means that the loop never ends (\<^verbatim>\<open>i >= 0\<close> always holds).
\<close>

partial_function (option) commit_scan :: "raft \<Rightarrow> nat \<Rightarrow> nat \<Rightarrow> nat option option" where
  "commit_scan r i lo =
     (if lo \<le> i then
        if count_matching r i > cluster_size r div 2 then Some (Some i) else commit_scan r (sub64 i 1) lo
      else Some None)"

definition log_committed :: "raft \<Rightarrow> raft" where
  "log_committed r = r\<lparr>r_log_committed_queue := push False (r_log_committed_queue r)\<rparr>"

definition set_commit :: "nat option \<Rightarrow> raft \<Rightarrow> raft" where
  "set_commit found r = (case found of None \<Rightarrow> r | Some i \<Rightarrow> log_committed (r\<lparr>r_commit_index := i\<rparr>))"

text \<open>The only server of a cluster commits what it has.\<close>

definition commit_alone :: "nat \<Rightarrow> raft \<Rightarrow> raft" where
  "commit_alone old_commit r =
     (if cluster_size r = 1 \<and> contains r (r_self_id r) then
        let r' = r\<lparr>r_commit_index := last_entry_index (r_log r)\<rparr>
        in if old_commit < r_commit_index r' then log_committed r' else r'
      else r)"

text \<open>A configuration entry that has just been committed ends the change in progress.\<close>

definition commit_configuration :: "nat \<Rightarrow> raft \<Rightarrow> raft option" where
  "commit_configuration old_commit r =
     (let index = lg_cfg (r_log r) in
      case r_recfg r of
        None \<Rightarrow> Some r
      | Some c \<Rightarrow>
          if old_commit < index \<and> index \<le> r_commit_index r then
            complete_reconfiguration ''OK''
              (set_node (rc_node c) (\<lambda>n. n\<lparr>n_alive := (rc_type c = server_addition)\<rparr>) r)
          else Some r)"

text \<open>\<^verbatim>\<open>uint32_t old_commit = commit_index_\<close> keeps the low 32 bits.\<close>

definition adjust_commit_index :: "raft \<Rightarrow> raft option" where
  "adjust_commit_index r =
     (let old_commit = r_commit_index r mod 2 ^ 32 in
      do {
        (lo, hi) \<leftarrow> match_bounds r (members r) (last_entry_index (r_log r), 0);
        found \<leftarrow> commit_scan r hi lo;
        commit_configuration old_commit (commit_alone old_commit (set_commit found r))
      })"

section \<open>Heartbeats\<close>

definition append_entries :: "world \<Rightarrow> raft \<Rightarrow> raft option" where
  "append_entries w r =
     (let r1 = reset_heartbeat_timer r in
      if r_role r1 \<noteq> LEADER then Some r1
      else do {
        r2 \<leftarrow> for_nodes (to_peer (\<lambda>a r. do {
                 n \<leftarrow> node_at r a;
                 if n_transfer_data_to n then Some r else append_entries_to a r }))
               (members r1) (r1\<lparr>r_last_heartbeat := w_now w\<rparr>);
        if cluster_size r2 = 1 \<and> contains r2 (r_self_id r2) then adjust_commit_index r2 else Some r2
      })"

definition on_heartbeat_timeout :: "world \<Rightarrow> bool \<Rightarrow> raft \<Rightarrow> raft option" where
  "on_heartbeat_timeout w ec r = (if \<not> ec then append_entries w r else Some r)"

end
