(* ===== verification/Raft_Election.thy ===== *)
theory Raft_Election
  imports Raft_Send
begin

text \<open>
  Elections in \<^verbatim>\<open>src/raft/raft_impl.hpp\<close> (the pre-vote phase, candidacy, stepping up and
  down) and the vote handlers of \<^verbatim>\<open>src/raft/raft_rpc.hpp\<close>.  A callback gets the task, the request
  it was sent with and the response, \<^const>\<open>None\<close> when the call failed.
\<close>

section \<open>Stepping up and down\<close>

definition step_up :: "world \<Rightarrow> raft \<Rightarrow> raft option" where
  "step_up w r =
     (let r1 = r\<lparr>r_role := LEADER, r_leader := r_self_id r\<rparr>;
          nxt = last_entry_index (r_log r) + 1
      in do {
        r2 \<leftarrow> for_nodes (\<lambda>a r. do {
                 _ \<leftarrow> node_at r a;
                 Some (set_node a (\<lambda>n. n\<lparr>n_match_index := 0, n_next_index := nxt\<rparr>) r) }) (members r1) r1;
        append_entries w (remove_election_timer r2)
      })"

text \<open>Ending a leadership transfer when the leader steps down.\<close>

definition reply_transfer :: "string \<Rightarrow> raft \<Rightarrow> raft" where
  "reply_transfer body r =
     (case r_transfer_reply_to r of
        Some h \<Rightarrow> if \<not> h_ready (r_replies r h) then emit Cancel_Transfer_Timer (do_write h (prepare h body r)) else r
      | None \<Rightarrow> r)"

definition finish_transfer :: "string \<Rightarrow> node \<Rightarrow> raft \<Rightarrow> raft option" where
  "finish_transfer cur_leader n r =
     (case r_recfg r of
        Some c \<Rightarrow>
          if rc_type c = server_removal then
            map_option (emit Cancel_Transfer_Timer) (complete_reconfiguration ''OK'' (r\<lparr>r_leader := cur_leader\<rparr>))
          else Some (reply_transfer (''OK '' @ n_id n) r)
      | None \<Rightarrow> Some (reply_transfer (''OK '' @ n_id n) r))"

definition step_down :: "nat \<Rightarrow> string \<Rightarrow> raft \<Rightarrow> raft option" where
  "step_down new_term cur_leader r =
     (let r1 = remove_heartbeat_timer r;
          r2 = reset_election_timer (r1\<lparr>r_role := FOLLOWER, r_curr_term := new_term\<rparr>)
      in case r_transfer_leader_to r2 of
           None \<Rightarrow> Some r2
         | Some a \<Rightarrow>
             do {
               n \<leftarrow> node_at r2 a;
               r3 \<leftarrow> finish_transfer cur_leader n (set_node a (\<lambda>n. n\<lparr>n_transfer_leader_to := False\<rparr>) r2);
               Some (r3\<lparr>r_transfer_reply_to := None, r_transfer_leader_to := None\<rparr>)
             })"

section \<open>Candidacy\<close>

definition leader_election :: "world \<Rightarrow> raft \<Rightarrow> raft option" where
  "leader_election w r =
     (let r1 = r\<lparr>r_role := CANDIDATE, r_leader := ''unknown'', r_curr_term := r_curr_term r + 1,
               r_voted_for := c_string (r_self_id r), r_votes := of_bool (contains r (r_self_id r))\<rparr>
      in if cluster_size r1 = 1 \<and> r_votes r1 \<noteq> 0 then step_up w r1
         else map_option reset_election_timer (for_nodes (to_peer request_vote) (members r1) r1))"

definition pre_vote :: "world \<Rightarrow> bool \<Rightarrow> raft \<Rightarrow> raft option" where
  "pre_vote w early r =
     (let exist = contains r (r_self_id r) in
      if cluster_size r = 1 \<and> exist then leader_election w r
      else
        let r1 = r\<lparr>r_pre_votes_granted := of_bool exist, r_pre_votes_refused := 0, r_role := FOLLOWER\<rparr>
        in for_nodes (to_peer (send_pre_vote early)) (members r1) r1)"

definition checkout :: "world \<Rightarrow> raft \<Rightarrow> raft option" where
  "checkout w r =
     (if r_pre_votes_granted r > cluster_size r div 2 then leader_election w r
      else if r_pre_votes_granted r + r_pre_votes_refused r = cluster_size r then Some (reset_election_timer r)
      else Some r)"

definition on_pre_vote :: "world \<Rightarrow> vote_res option \<Rightarrow> raft \<Rightarrow> raft option" where
  "on_pre_vote w res r =
     (if r_role r = CANDIDATE \<or> r_role r = LEADER then Some r
      else case res of
        None \<Rightarrow> checkout w (r\<lparr>r_pre_votes_refused := r_pre_votes_refused r + 1\<rparr>)
      | Some v \<Rightarrow>
          if vs_vote_granted v then checkout w (r\<lparr>r_pre_votes_granted := r_pre_votes_granted r + 1\<rparr>)
          else checkout w (r\<lparr>r_pre_votes_refused := r_pre_votes_refused r + 1\<rparr>))"

definition on_request_vote :: "world \<Rightarrow> vote_res option \<Rightarrow> raft \<Rightarrow> raft option" where
  "on_request_vote w res r =
     (case res of
        None \<Rightarrow> Some r
      | Some v \<Rightarrow>
          if r_role r \<noteq> CANDIDATE then Some r
          else if vs_vote_granted v then
            if vs_term v < r_curr_term r then Some r
            else
              let r1 = r\<lparr>r_votes := r_votes r + 1\<rparr>
              in if r_votes r1 > cluster_size r1 div 2 then step_up w r1 else Some r1
          else if vs_term v > r_curr_term r then step_down (vs_term v) [] r
          else Some r)"

definition on_election_timeout :: "world \<Rightarrow> bool \<Rightarrow> raft \<Rightarrow> raft option" where
  "on_election_timeout w ec r = (if \<not> ec then pre_vote w False r else Some r)"

definition on_timeout_now :: "task \<Rightarrow> vote_res option \<Rightarrow> raft \<Rightarrow> raft option" where
  "on_timeout_now t res r =
     (case res of
        Some _ \<Rightarrow> Some r
      | None \<Rightarrow> do {
          n \<leftarrow> node_at r (t_node t);
          if n_transfer_leader_to n then timeout_now (t_node t) r else Some r
        })"

section \<open>The vote handlers\<close>

definition rpc_timeout_now :: "world \<Rightarrow> vote_req \<Rightarrow> raft \<Rightarrow> (vote_res \<times> raft) option" where
  "rpc_timeout_now w req r =
     do {
       r1 \<leftarrow> pre_vote w True (remove_election_timer r);
       Some (\<lparr>vs_term = r_curr_term r1, vs_vote_granted = False\<rparr>, r1)
     }"

text \<open>The log of the requester is refused when its last term or its last index is smaller.\<close>

definition log_newer :: "raft \<Rightarrow> vote_req \<Rightarrow> bool" where
  "log_newer r req \<longleftrightarrow> last_entry_term (r_log r) > vq_last_log_term req \<or>
     last_entry_index (r_log r) > vq_last_log_index req"

definition rpc_pre_vote :: "world \<Rightarrow> vote_req \<Rightarrow> raft \<Rightarrow> vote_res \<times> raft" where
  "rpc_pre_vote w req r =
     (let msecs = w_now w - r_last_heartbeat r in
      if log_newer r req then (\<lparr>vs_term = r_curr_term r, vs_vote_granted = False\<rparr>, r)
      else if msecs < r_min_election_timeout r \<and> \<not> vq_early req then
        (\<lparr>vs_term = r_curr_term r, vs_vote_granted = False\<rparr>, r)
      else (\<lparr>vs_term = vq_term req, vs_vote_granted = True\<rparr>, r))"

definition rpc_request_vote :: "vote_req \<Rightarrow> raft \<Rightarrow> (vote_res \<times> raft) option" where
  "rpc_request_vote req r =
     (let peer = vq_candidate_id req in
      do {
        r1 \<leftarrow> (if vq_term req > r_curr_term r
               then step_down (vq_term req) [] (r\<lparr>r_voted_for := []\<rparr>) else Some r);
        if vq_term req < r_curr_term r1 then
          Some (\<lparr>vs_term = r_curr_term r1, vs_vote_granted = False\<rparr>, r1)
        else if r_voted_for r1 \<noteq> [] \<and> peer \<noteq> r_voted_for r1 then
          Some (\<lparr>vs_term = r_curr_term r1, vs_vote_granted = False\<rparr>, r1)
        else if log_newer r1 req then
          Some (\<lparr>vs_term = r_curr_term r1, vs_vote_granted = False\<rparr>, r1)
        else do {
          r2 \<leftarrow> (if vq_term req > r_curr_term r1
                 then step_down (vq_term req) [] (r1\<lparr>r_voted_for := c_string peer\<rparr>)
                 else if peer \<noteq> r_voted_for r1
                 then Some (r1\<lparr>r_curr_term := vq_term req, r_voted_for := c_string peer\<rparr>)
                 else Some r1);
          Some (\<lparr>vs_term = vq_term req, vs_vote_granted = True\<rparr>, r2)
        }
      })"

end
