(* ===== verification/Raft_Frame.thy ===== *)
theory Raft_Frame
  imports Raft_Election
begin

text \<open>
  What the handlers leave alone.  \<open>frame r r'\<close> says that term, vote, role, vote count, log and
  membership are the same and that no vote was requested; it holds of everything the leader sends
  and of commit accounting.  The lemmas after that compute the exact effect of an election on this
  part of the state.
\<close>

section \<open>The part of the state that elections are about\<close>

definition vote_core :: "raft \<Rightarrow> string \<times> nat \<times> string \<times> role_type \<times> nat \<times> (string \<times> addr) list \<times> logger" where
  "vote_core r = (r_self_id r, r_curr_term r, r_voted_for r, r_role r, r_votes r, r_cluster r, r_log r)"

definition peer_name :: "node \<Rightarrow> string \<times> string \<times> string" where
  "peer_name n = (n_id n, n_host n, n_port n)"

definition peer_names :: "raft \<Rightarrow> (string \<times> string \<times> string) option list" where
  "peer_names r = map (\<lambda>a. map_option peer_name (node_at r a)) (members r)"

fun ballot_of :: "action \<Rightarrow> (string \<times> vote_req) list" where
  "ballot_of (Request_Vote t req) = [(t_host t @ '':'' @ t_port t, req)]"
| "ballot_of _ = []"

definition ballots :: "raft \<Rightarrow> (string \<times> vote_req) list" where
  "ballots r = concat (map ballot_of (r_out r))"

definition frame :: "raft \<Rightarrow> raft \<Rightarrow> bool" where
  "frame r r' \<longleftrightarrow> vote_core r' = vote_core r \<and> peer_names r' = peer_names r \<and> ballots r' = ballots r"

lemma frame_refl [simp, intro]: "frame r r"
  by (simp add: frame_def)

lemma frame_trans: "frame r1 r2 \<Longrightarrow> frame r2 r3 \<Longrightarrow> frame r1 r3"
  by (simp add: frame_def)

lemma frameD:
  assumes "frame r r'"
  shows "r_self_id r' = r_self_id r" "r_curr_term r' = r_curr_term r" "r_voted_for r' = r_voted_for r"
    "r_role r' = r_role r" "r_votes r' = r_votes r" "r_cluster r' = r_cluster r" "r_log r' = r_log r"
    "members r' = members r" "cluster_size r' = cluster_size r" "contains r' = contains r"
    "peer_names r' = peer_names r" "ballots r' = ballots r"
  using assms by (auto simp: frame_def vote_core_def members_def cluster_size_def contains_def fun_eq_iff)

lemma core_simps [simp]:
  "vote_core (emit act r) = vote_core r" "peer_names (emit act r) = peer_names r"
  "ballots (emit act r) = ballots r @ ballot_of act"
  "members (emit act r) = members r" "r_nodes (emit act r) = r_nodes r"
  by (simp_all add: vote_core_def peer_names_def ballots_def emit_def members_def)

lemma frame_emit: "ballot_of act = [] \<Longrightarrow> frame r (emit act r)"
  by (simp add: frame_def)

lemma members_set_node [simp]: "members (set_node a f r) = members r"
  by (simp add: members_def set_node_def)

lemma frame_set_node: "(\<And>n. peer_name (f n) = peer_name n) \<Longrightarrow> frame r (set_node a f r)"
  by (auto simp: frame_def vote_core_def peer_names_def ballots_def set_node_def members_def option.map_comp comp_def)

lemma frame_node_fields [simp]:
  "frame r (set_node a (n_alive_update f) r)" "frame r (set_node a (n_match_index_update g) r)"
  "frame r (set_node a (n_next_index_update g) r)" "frame r (set_node a (n_transfer_leader_to_update f) r)"
  "frame r (set_node a (n_transfer_data_to_update f) r)"
  "frame r (set_node a (\<lambda>n. n\<lparr>n_match_index := f' n, n_next_index := f'' n\<rparr>) r)"
  by (rule frame_set_node; simp add: peer_name_def)+

lemma frame_for_nodes:
  assumes "\<And>a r r'. f a r = Some r' \<Longrightarrow> frame r r'" and "for_nodes f as r = Some r'"
  shows "frame r r'"
  using assms(2)
proof (induction "as" arbitrary: r)
  case (Cons a "as")
  then obtain r1 where "f a r = Some r1" "for_nodes f as r1 = Some r'"
    by (auto split: bind_splits)
  with Cons.IH assms(1) show ?case by (blast intro: frame_trans)
qed simp

section \<open>Sending and committing\<close>

lemma frame_simps [simp]:
  "frame r (r\<lparr>r_pre_vote_id := i\<rparr>)" "frame r (r\<lparr>r_timeout_now_id := i\<rparr>)" "frame r (r\<lparr>r_request_vote_id := i\<rparr>)"
  "frame r (r\<lparr>r_append_entries_id := i\<rparr>)" "frame r (r\<lparr>r_last_heartbeat := i\<rparr>)" "frame r (r\<lparr>r_commit_index := i\<rparr>)"
  "frame r (r\<lparr>r_replies := h\<rparr>)" "frame r (log_committed r)" "frame r (r\<lparr>r_leader := s\<rparr>)"
  "frame r (r\<lparr>r_pre_votes_granted := i, r_pre_votes_refused := j\<rparr>)"
  "frame r (r\<lparr>r_pre_votes_granted := i\<rparr>)" "frame r (r\<lparr>r_pre_votes_refused := i\<rparr>)"
  "frame r (r\<lparr>r_last_applied := i\<rparr>)"
  by (simp_all add: frame_def vote_core_def peer_names_def ballots_def members_def log_committed_def)

lemma frame_timers [simp]:
  "frame r (remove_election_timer r)" "frame r (reset_election_timer r)"
  "frame r (remove_heartbeat_timer r)" "frame r (reset_heartbeat_timer r)"
  by (simp_all add: frame_emit remove_election_timer_def reset_election_timer_def remove_heartbeat_timer_def
      reset_heartbeat_timer_def)

lemma frame_send_pre_vote: "send_pre_vote early a r = Some r' \<Longrightarrow> frame r r'"
  by (auto simp: send_pre_vote_def Let_def intro!: frame_trans [OF frame_simps(1) frame_emit])

lemma frame_timeout_now: "timeout_now a r = Some r' \<Longrightarrow> frame r r'"
  by (auto simp: timeout_now_def Let_def intro!: frame_trans [OF frame_simps(2) frame_emit])

lemma frame_append_entries_to: "append_entries_to a r = Some r' \<Longrightarrow> frame r r'"
  by (auto simp: append_entries_to_def Let_def split: bind_splits
      intro!: frame_trans [OF frame_simps(4) frame_emit])

lemma frame_to_peer:
  "(\<And>r r'. f a r = Some r' \<Longrightarrow> frame r r') \<Longrightarrow> to_peer f a r = Some r' \<Longrightarrow> frame r r'"
  by (auto simp: to_peer_def split: bind_splits if_splits)

lemma frame_prepare [simp]: "frame r (prepare h s r)"
  by (simp add: prepare_def)

lemma frame_do_write [simp]: "frame r (do_write h r)"
  unfolding do_write_def by (intro frame_trans [OF frame_simps(7) frame_emit]) simp

lemma frame_reset_recfg [simp]: "frame r (reset_recfg r)"
  by (auto simp: reset_recfg_def frame_def vote_core_def peer_names_def ballots_def members_def image_iff split: option.splits)

lemma frame_complete: "complete_reconfiguration s r = Some r' \<Longrightarrow> frame r r'"
  by (auto simp: complete_reconfiguration_def Let_def split: option.splits
      intro!: frame_trans [OF frame_trans [OF frame_trans [OF frame_prepare frame_simps(7)] frame_do_write] frame_reset_recfg])

lemma frame_commit_steps:
  "frame r (set_commit found r)" "frame r (commit_alone old r)"
  "commit_configuration old r = Some r' \<Longrightarrow> frame r r'"
proof -
  show "frame r (set_commit found r)"
    by (auto simp: set_commit_def split: option.split intro: frame_trans [OF frame_simps(6) frame_simps(8)])
  show "frame r (commit_alone old r)"
    by (auto simp: commit_alone_def Let_def intro: frame_trans [OF frame_simps(6) frame_simps(8)])
  show "frame r r'" if "commit_configuration old r = Some r'"
    using that by (auto simp: commit_configuration_def Let_def split: option.splits if_splits
        dest: frame_complete intro: frame_trans [OF frame_node_fields(1)])
qed

lemma frame_adjust_commit_index: "adjust_commit_index r = Some r' \<Longrightarrow> frame r r'"
  by (auto simp: adjust_commit_index_def Let_def split: bind_splits
      intro: frame_trans [OF frame_trans [OF frame_commit_steps(1,2)] frame_commit_steps(3)])

lemma frame_append_entries: "append_entries w r = Some r' \<Longrightarrow> frame r r'"
proof -
  assume run: "append_entries w r = Some r'"
  let ?send = "to_peer (\<lambda>a r. do { n \<leftarrow> node_at r a; if n_transfer_data_to n then Some r else append_entries_to a r })"
  have send: "frame r1 r2" if "?send a r1 = Some r2" for a r1 r2
    by (rule frame_to_peer [OF _ that]) (auto split: bind_splits if_splits intro: frame_append_entries_to)
  have all: "frame r1 r2" if "for_nodes ?send as r1 = Some r2" for as r1 r2
    by (rule frame_for_nodes [OF _ that]) (rule send)
  have start: "frame r ((reset_heartbeat_timer r)\<lparr>r_last_heartbeat := w_now w\<rparr>)"
    by (rule frame_trans [OF frame_timers(4) frame_simps(5)])
  show ?thesis
  proof (cases "r_role (reset_heartbeat_timer r) = LEADER")
    case True
    with run obtain r2 where r2: "for_nodes ?send (members (reset_heartbeat_timer r))
        ((reset_heartbeat_timer r)\<lparr>r_last_heartbeat := w_now w\<rparr>) = Some r2"
      "(if cluster_size r2 = 1 \<and> contains r2 (r_self_id r2) then adjust_commit_index r2 else Some r2) = Some r'"
      by (auto simp: append_entries_def Let_def split: bind_splits)
    have "frame r r2" using all [OF r2(1)] start by (rule frame_trans [rotated])
    moreover have "frame r2 r'" using r2(2) by (auto split: if_splits intro: frame_adjust_commit_index)
    ultimately show ?thesis by (rule frame_trans)
  qed (use run in \<open>auto simp: append_entries_def Let_def\<close>)
qed

section \<open>Elections\<close>

text \<open>What \<open>step_up\<close> and \<open>step_down\<close> change, besides what a frame allows.\<close>

lemma step_up_effect:
  assumes "step_up w r = Some r'"
  shows "frame (r\<lparr>r_role := LEADER\<rparr>) r'"
proof -
  let ?r1 = "r\<lparr>r_role := LEADER, r_leader := r_self_id r\<rparr>"
  let ?f = "\<lambda>a r1. do { _ \<leftarrow> node_at r1 a;
      Some (set_node a (\<lambda>n. n\<lparr>n_match_index := 0, n_next_index := last_entry_index (r_log r) + 1\<rparr>) r1) }"
  obtain r2 where r2: "for_nodes ?f (members ?r1) ?r1 = Some r2" "append_entries w (remove_election_timer r2) = Some r'"
    using assms by (auto simp: step_up_def Let_def split: bind_splits)
  have "frame (r\<lparr>r_role := LEADER\<rparr>) ?r1"
    by (simp add: frame_def vote_core_def peer_names_def ballots_def members_def)
  moreover have "frame ?r1 r2" by (rule frame_for_nodes [OF _ r2(1)]) (auto split: bind_splits)
  moreover have "frame r2 r'" using frame_timers(1) frame_append_entries [OF r2(2)] by (rule frame_trans)
  ultimately show ?thesis by (blast intro: frame_trans)
qed

lemma frame_reply_transfer: "frame r (reply_transfer s r)"
  by (auto simp: reply_transfer_def split: option.split
      intro: frame_trans [OF frame_trans [OF frame_prepare frame_do_write] frame_emit])

lemma frame_finish_transfer: "finish_transfer s n r = Some r' \<Longrightarrow> frame r r'"
  by (auto simp: finish_transfer_def frame_reply_transfer split: option.splits if_splits
      intro!: frame_trans [OF frame_trans [OF frame_simps(9) frame_complete] frame_emit])

lemma frame_transfer_fields [simp]:
  "frame r (r\<lparr>r_transfer_reply_to := x, r_transfer_leader_to := y\<rparr>)"
  by (simp add: frame_def vote_core_def peer_names_def ballots_def members_def)

lemma step_down_effect:
  assumes "step_down t s r = Some r'"
  shows "frame (r\<lparr>r_role := FOLLOWER, r_curr_term := t\<rparr>) r'"
proof -
  define r2 where "r2 = reset_election_timer ((remove_heartbeat_timer r)\<lparr>r_role := FOLLOWER, r_curr_term := t\<rparr>)"
  have r2: "frame (r\<lparr>r_role := FOLLOWER, r_curr_term := t\<rparr>) r2"
    unfolding r2_def reset_election_timer_def remove_heartbeat_timer_def
    by (rule frame_trans [OF _ frame_emit])
      (simp_all add: frame_def vote_core_def peer_names_def ballots_def members_def emit_def)
  show ?thesis
  proof (cases "r_transfer_leader_to r2")
    case None
    with assms r2 show ?thesis by (simp add: step_down_def Let_def r2_def)
  next
    case (Some a)
    with assms obtain n r3 where r3: "finish_transfer s n (set_node a (\<lambda>n. n\<lparr>n_transfer_leader_to := False\<rparr>) r2) = Some r3"
      "r' = r3\<lparr>r_transfer_reply_to := None, r_transfer_leader_to := None\<rparr>"
      by (auto simp: step_down_def Let_def r2_def [symmetric] split: bind_splits)
    have "frame r2 r'"
      unfolding r3(2)
      by (rule frame_trans [OF frame_trans [OF frame_node_fields(4) frame_finish_transfer [OF r3(1)]] frame_transfer_fields])
    with r2 show ?thesis by (rule frame_trans)
  qed
qed

end
