(* ===== verification/Election_Effects.thy ===== *)
theory Election_Effects
  imports Raft_Frame
begin

text \<open>
  The effect of every election handler on term, vote, role and vote count, for a server whose
  membership is known.  A handler either leaves the term alone (\<open>quiet\<close>), raises it and
  becomes a follower (\<open>raised\<close>), or starts an election (\<open>candidacy\<close>).
\<close>

section \<open>Membership\<close>

definition member_ok :: "string set \<Rightarrow> string \<Rightarrow> raft \<Rightarrow> bool" where
  "member_ok ids i r \<longleftrightarrow> r_self_id r = i \<and> distinct (map fst (r_cluster r)) \<and> fst ` set (r_cluster r) = ids \<and>
     list_all2 (\<lambda>(k, _) p. \<exists>h q. p = Some (k, h, q) \<and> h @ '':'' @ q = k) (r_cluster r) (peer_names r)"

lemma member_ok_frame: "frame r r' \<Longrightarrow> member_ok ids i r' = member_ok ids i r"
  by (simp add: member_ok_def frameD)

lemma member_ok_cong:
  "r_self_id r' = r_self_id r \<Longrightarrow> r_cluster r' = r_cluster r \<Longrightarrow> peer_names r' = peer_names r \<Longrightarrow>
   member_ok ids i r' = member_ok ids i r"
  by (simp add: member_ok_def)

lemma member_ok_size: "member_ok ids i r \<Longrightarrow> cluster_size r = card ids"
  unfolding member_ok_def cluster_size_def by (metis distinct_card length_map list.set_map)

lemma member_ok_contains: "member_ok ids i r \<Longrightarrow> contains r k \<longleftrightarrow> k \<in> ids"
  by (simp add: member_ok_def contains_def)

lemma member_ok_node:
  assumes "member_ok ids i r" and "(k, a) \<in> set (r_cluster r)"
  shows "\<exists>n. node_at r a = Some n \<and> n_id n = k \<and> n_host n @ '':'' @ n_port n = k"
proof -
  obtain j where j: "j < length (r_cluster r)" "r_cluster r ! j = (k, a)"
    using assms(2) by (auto simp: in_set_conv_nth)
  with assms(1) obtain h q where "peer_names r ! j = Some (k, h, q)" "h @ '':'' @ q = k"
    by (auto simp: member_ok_def dest!: list_all2_nthD)
  with j show ?thesis by (auto simp: peer_names_def members_def peer_name_def)
qed

text \<open>The ids a candidate asks, in the order of its cluster map.\<close>

definition asked :: "raft \<Rightarrow> string list" where
  "asked r = filter (\<lambda>k. k \<noteq> r_self_id r) (map fst (r_cluster r))"

section \<open>Asking for votes\<close>

lemma request_vote_effect:
  assumes "to_peer request_vote a r = Some r'"
  shows "\<exists>n. node_at r a = Some n \<and> vote_core r' = vote_core r \<and> r_nodes r' = r_nodes r \<and>
    ballots r' = ballots r @
      (if n_id n \<noteq> r_self_id r then [(n_host n @ '':'' @ n_port n, fill_vote r False)] else [])"
  using assms
  by (auto simp: to_peer_def request_vote_def Let_def make_task_def vote_core_def ballots_def emit_def fill_vote_def
      split: bind_splits if_splits)

lemma request_votes_effect:
  assumes "for_nodes (to_peer request_vote) (map snd cl) r = Some r'"
    and "\<And>k a. (k, a) \<in> set cl \<Longrightarrow> \<exists>n. node_at r a = Some n \<and> n_id n = k \<and> n_host n @ '':'' @ n_port n = k"
  shows "vote_core r' = vote_core r \<and> r_nodes r' = r_nodes r \<and>
    ballots r' = ballots r @ map (\<lambda>k. (k, fill_vote r False)) (filter (\<lambda>k. k \<noteq> r_self_id r) (map fst cl))"
  using assms
proof (induction cl arbitrary: r)
  case (Cons x cl)
  obtain k a where x: "x = (k, a)" by (cases x)
  from Cons.prems(1) x obtain r1 where r1: "to_peer request_vote a r = Some r1"
    "for_nodes (to_peer request_vote) (map snd cl) r1 = Some r'"
    by (auto split: bind_splits)
  obtain n where n: "node_at r a = Some n" "n_id n = k" "n_host n @ '':'' @ n_port n = k"
    using Cons.prems(2) x by auto
  have e: "vote_core r1 = vote_core r" "r_nodes r1 = r_nodes r"
    "ballots r1 = ballots r @ (if k \<noteq> r_self_id r then [(k, fill_vote r False)] else [])"
    using request_vote_effect [OF r1(1)] n by auto
  have s: "r_self_id r1 = r_self_id r" "fill_vote r1 False = fill_vote r False"
    using e(1) by (simp_all add: vote_core_def fill_vote_def)
  from Cons.IH [OF r1(2)] Cons.prems(2) e s x show ?case by auto
qed simp

section \<open>Kinds of effect\<close>

definition quiet :: "raft \<Rightarrow> raft \<Rightarrow> bool" where
  "quiet r r' \<longleftrightarrow> r_curr_term r' = r_curr_term r \<and> r_voted_for r' = r_voted_for r \<and> ballots r' = ballots r \<and>
     (r_role r' = FOLLOWER \<or> r_role r' = r_role r \<and> r_votes r' = r_votes r)"

definition raised :: "raft \<Rightarrow> raft \<Rightarrow> bool" where
  "raised r r' \<longleftrightarrow> r_curr_term r < r_curr_term r' \<and> ballots r' = ballots r \<and> r_role r' = FOLLOWER"

definition candidacy :: "string set \<Rightarrow> string \<Rightarrow> raft \<Rightarrow> raft \<Rightarrow> bool" where
  "candidacy ids i r r' \<longleftrightarrow> r_curr_term r' = r_curr_term r + 1 \<and> r_voted_for r' = i \<and> r_votes r' = 1 \<and>
     (r_role r' = LEADER \<and> ids = {i} \<and> ballots r' = ballots r \<or>
      r_role r' = CANDIDATE \<and>
        (\<exists>req. ballots r' = ballots r @ map (\<lambda>k. (k, req)) (asked r) \<and> vq_term req = r_curr_term r' \<and>
          vq_candidate_id req = i))"

lemma frame_quiet: "frame r r' \<Longrightarrow> quiet r r'"
  by (simp add: quiet_def frameD)

lemma quiet_frame: "quiet r1 r2 \<Longrightarrow> frame r2 r3 \<Longrightarrow> quiet r1 r3"
  by (simp add: quiet_def frameD)

lemma raised_frame: "raised r1 r2 \<Longrightarrow> frame r2 r3 \<Longrightarrow> raised r1 r3"
  by (simp add: raised_def frameD)

lemma candidacy_from_frame: "frame r1 r2 \<Longrightarrow> candidacy ids i r2 r3 \<Longrightarrow> candidacy ids i r1 r3"
  by (auto simp add: candidacy_def asked_def frameD)

text \<open>An id is a C string: not empty, without a terminator inside.\<close>

definition good_id :: "string \<Rightarrow> bool" where
  "good_id i \<longleftrightarrow> i \<noteq> [] \<and> CHR 0x00 \<notin> set i"

lemma leader_election_effect:
  assumes run: "leader_election w r = Some r'" and ok: "member_ok ids i r" and i: "i \<in> ids" "good_id i"
  shows "member_ok ids i r' \<and> candidacy ids i r r'"
proof -
  let ?r1 = "r\<lparr>r_role := CANDIDATE, r_leader := ''unknown'', r_curr_term := r_curr_term r + 1,
               r_voted_for := c_string (r_self_id r), r_votes := of_bool (contains r (r_self_id r))\<rparr>"
  have self: "r_self_id r = i" "contains r i" using ok i by (auto simp: member_ok_def member_ok_contains [OF ok])
  have r1: "peer_names ?r1 = peer_names r" "ballots ?r1 = ballots r" "members ?r1 = members r"
    "cluster_size ?r1 = cluster_size r" "asked ?r1 = asked r"
    by (simp_all add: peer_names_def ballots_def members_def cluster_size_def asked_def)
  have ok1: "member_ok ids i ?r1" using ok r1 by (simp add: member_ok_def)
  have c: "c_string i = i" using i by (simp add: good_id_def c_string_id)
  show ?thesis
  proof (cases "cluster_size r = 1")
    case True
    then have "step_up w ?r1 = Some r'" using run r1(4) self by (simp add: leader_election_def Let_def)
    then have f: "frame (?r1\<lparr>r_role := LEADER\<rparr>) r'" by (rule step_up_effect)
    have "ids = {i}" using member_ok_size [OF ok] True i by (metis card_1_singletonE singletonD)
    moreover have "member_ok ids i r'"
      using member_ok_frame [OF f] ok1 by (simp add: member_ok_def peer_names_def members_def)
    ultimately show ?thesis
      using frameD [OF f] self c r1 by (simp add: candidacy_def ballots_def)
  next
    case False
    with run r1 self obtain r2 where r2: "for_nodes (to_peer request_vote) (map snd (r_cluster r)) ?r1 = Some r2"
      "r' = reset_election_timer r2"
      by (auto simp: leader_election_def Let_def members_def)
    have "vote_core r2 = vote_core ?r1 \<and> r_nodes r2 = r_nodes ?r1 \<and>
        ballots r2 = ballots ?r1 @ map (\<lambda>k. (k, fill_vote ?r1 False)) (filter (\<lambda>k. k \<noteq> r_self_id ?r1) (map fst (r_cluster r)))"
      by (rule request_votes_effect [OF r2(1)]) (use member_ok_node [OF ok] in simp)
    then have e: "vote_core r2 = vote_core ?r1" "peer_names r2 = peer_names ?r1"
      "ballots r2 = ballots r @ map (\<lambda>k. (k, fill_vote ?r1 False)) (asked r)"
      using r1 by (auto simp: peer_names_def members_def vote_core_def asked_def)
    define req where "req = fill_vote ?r1 False"
    have req: "vq_term req = r_curr_term r + 1" "vq_candidate_id req = i"
      using self by (simp_all add: req_def fill_vote_def)
    have f: "frame r2 r'" by (simp add: r2(2))
    have "member_ok ids i r'"
      using member_ok_frame [OF f, of ids i] ok member_ok_cong [of r2 r ids i] e(1) e(2) [unfolded r1(1)]
      by (simp add: vote_core_def)
    moreover have "candidacy ids i r r'"
      using frameD [OF f] e(1) e(3) [folded req_def] self c req
      by (auto simp: candidacy_def vote_core_def)
    ultimately show ?thesis by simp
  qed
qed

section \<open>The handlers\<close>

text \<open>Every handler that may start an election does so or is quiet.\<close>

definition may_elect :: "string set \<Rightarrow> string \<Rightarrow> raft \<Rightarrow> raft \<Rightarrow> bool" where
  "may_elect ids i r r' \<longleftrightarrow> member_ok ids i r' \<and> (quiet r r' \<or> candidacy ids i r r')"


lemma may_elect_from_frame: "frame r1 r2 \<Longrightarrow> may_elect ids i r2 r3 \<Longrightarrow> may_elect ids i r1 r3"
  by (auto simp: may_elect_def quiet_def frameD intro: candidacy_from_frame)

lemma leader_election_may:
  "leader_election w r = Some r' \<Longrightarrow> member_ok ids i r \<Longrightarrow> i \<in> ids \<Longrightarrow> good_id i \<Longrightarrow> may_elect ids i r r'"
  using leader_election_effect by (auto simp: may_elect_def)

lemma pre_vote_may:
  assumes "pre_vote w early r = Some r'" and "member_ok ids i r" and "i \<in> ids" and "good_id i"
  shows "may_elect ids i r r'"
proof (cases "cluster_size r = 1 \<and> contains r (r_self_id r)")
  case True
  with assms show ?thesis by (auto simp: pre_vote_def Let_def intro: leader_election_may)
next
  case False
  let ?r1 = "r\<lparr>r_pre_votes_granted := of_bool (contains r (r_self_id r)), r_pre_votes_refused := 0, r_role := FOLLOWER\<rparr>"
  from False assms(1) have run: "for_nodes (to_peer (send_pre_vote early)) (members ?r1) ?r1 = Some r'"
    by (auto simp: pre_vote_def Let_def split: if_splits)
  have f: "frame ?r1 r'"
    by (rule frame_for_nodes [OF _ run]) (erule frame_to_peer [rotated], erule frame_send_pre_vote)
  have ok1: "member_ok ids i ?r1"
    using assms(2) by (simp add: member_ok_def peer_names_def members_def)
  have "quiet r ?r1" by (simp add: quiet_def ballots_def)
  then have "quiet r r'" using f by (rule quiet_frame)
  then show ?thesis using member_ok_frame [OF f] ok1 by (simp add: may_elect_def)
qed

lemma checkout_may:
  assumes "checkout w r = Some r'" and "member_ok ids i r" and "i \<in> ids" and "good_id i"
  shows "may_elect ids i r r'"
proof -
  have "may_elect ids i r r'" if "frame r r'"
    using that assms(2) by (simp add: may_elect_def frame_quiet member_ok_frame)
  then show ?thesis
    using assms leader_election_may by (auto simp: checkout_def split: if_splits)
qed

lemma on_pre_vote_may:
  assumes "on_pre_vote w res r = Some r'" and ok: "member_ok ids i r" and "i \<in> ids" and "good_id i"
  shows "may_elect ids i r r'"
proof -
  have step: "may_elect ids i r r'" if "frame r r1" "checkout w r1 = Some r'" for r1
    using checkout_may [OF that(2) _ assms(3,4)] member_ok_frame [OF that(1)] ok
    by (auto intro: may_elect_from_frame [OF that(1)])
  moreover have "may_elect ids i r r" using ok by (simp add: may_elect_def frame_quiet)
  ultimately show ?thesis
    using assms(1) by (auto simp: on_pre_vote_def split: if_splits option.splits
        intro: step [OF frame_simps(11)] step [OF frame_simps(12)])
qed

lemma on_election_timeout_may:
  "on_election_timeout w ec r = Some r' \<Longrightarrow> member_ok ids i r \<Longrightarrow> i \<in> ids \<Longrightarrow> good_id i \<Longrightarrow> may_elect ids i r r'"
  using pre_vote_may by (auto simp: on_election_timeout_def may_elect_def frame_quiet split: if_splits)

lemma rpc_timeout_now_may:
  assumes "rpc_timeout_now w req r = Some (res, r')" and "member_ok ids i r" and "i \<in> ids" and "good_id i"
  shows "may_elect ids i r r'"
proof -
  have "pre_vote w True (remove_election_timer r) = Some r'"
    using assms(1) by (auto simp: rpc_timeout_now_def split: bind_splits)
  moreover have "member_ok ids i (remove_election_timer r)" using assms(2) member_ok_frame [OF frame_timers(1)] by blast
  ultimately show ?thesis
    using pre_vote_may assms(3,4) by (blast intro: may_elect_from_frame [OF frame_timers(1)])
qed

text \<open>Stepping down for a higher term.\<close>

lemma step_down_raised:
  assumes "step_down t s r = Some r'" and "r_curr_term r < t"
  shows "raised r r'" "r_curr_term r' = t" "r_voted_for r' = r_voted_for r" "member_ok ids i r' = member_ok ids i r"
    "r_log r' = r_log r" "ballots r' = ballots r" "r_role r' = FOLLOWER"
proof -
  have f: "frame (r\<lparr>r_role := FOLLOWER, r_curr_term := t\<rparr>) r'" using assms(1) by (rule step_down_effect)
  have "raised r (r\<lparr>r_role := FOLLOWER, r_curr_term := t\<rparr>)" using assms(2) by (simp add: raised_def ballots_def)
  then show "raised r r'" using f by (rule raised_frame)
  show "r_curr_term r' = t" "r_voted_for r' = r_voted_for r" "r_log r' = r_log r" "ballots r' = ballots r" "r_role r' = FOLLOWER"
    using frameD [OF f] by (simp_all add: ballots_def)
  show "member_ok ids i r' = member_ok ids i r"
    using member_ok_frame [OF f] by (simp add: member_ok_def peer_names_def members_def)
qed

section \<open>Granting and counting votes\<close>

lemma rpc_request_vote_effect:
  assumes run: "rpc_request_vote req r = Some (res, r')" and id: "good_id (vq_candidate_id req)"
  shows "member_ok ids i r' = member_ok ids i r" "r_log r' = r_log r"
    "\<not> vs_vote_granted res \<Longrightarrow> (quiet r r' \<or> raised r r') \<and> vs_term res = r_curr_term r'"
    "vs_vote_granted res \<Longrightarrow> vs_term res = vq_term req \<and> r_curr_term r' = vq_term req \<and>
       r_voted_for r' = vq_candidate_id req \<and> r_curr_term r \<le> vq_term req \<and> ballots r' = ballots r \<and>
       (r_curr_term r = vq_term req \<longrightarrow> r_voted_for r = [] \<or> r_voted_for r = vq_candidate_id req) \<and>
       (r_role r' = FOLLOWER \<or> r_curr_term r' = r_curr_term r \<and> r_role r' = r_role r \<and> r_votes r' = r_votes r) \<and>
       \<not> log_newer r req"
proof -
  let ?peer = "vq_candidate_id req"
  have c: "c_string ?peer = ?peer" "?peer \<noteq> []" using id by (auto simp: good_id_def c_string_id)
  obtain r1 where r1: "(if vq_term req > r_curr_term r then step_down (vq_term req) [] (r\<lparr>r_voted_for := []\<rparr>) else Some r) = Some r1"
    using run by (auto simp: rpc_request_vote_def Let_def split: bind_splits)
  have up: "r_curr_term r1 = vq_term req \<and> r_voted_for r1 = [] \<and> r_role r1 = FOLLOWER \<and> raised r r1"
    if "vq_term req > r_curr_term r"
  proof -
    have sd: "step_down (vq_term req) [] (r\<lparr>r_voted_for := []\<rparr>) = Some r1" using r1 that by simp
    from step_down_raised [OF sd] that show ?thesis by (simp add: raised_def ballots_def)
  qed
  have same: "member_ok ids i r1 = member_ok ids i r \<and> r_log r1 = r_log r \<and> ballots r1 = ballots r"
  proof (cases "vq_term req > r_curr_term r")
    case True
    then have sd: "step_down (vq_term req) [] (r\<lparr>r_voted_for := []\<rparr>) = Some r1" using r1 by simp
    have "member_ok ids i (r\<lparr>r_voted_for := []\<rparr>) = member_ok ids i r"
      by (rule member_ok_cong) (simp_all add: peer_names_def members_def)
    with step_down_raised [OF sd] True show ?thesis by (simp add: ballots_def)
  qed (use r1 in auto)
  have le: "\<not> vq_term req > r_curr_term r1" using r1 up by (cases "vq_term req > r_curr_term r") auto
  have run1: "(if vq_term req < r_curr_term r1 \<or> r_voted_for r1 \<noteq> [] \<and> ?peer \<noteq> r_voted_for r1 \<or> log_newer r1 req
      then (\<lparr>vs_term = r_curr_term r1, vs_vote_granted = False\<rparr>, r1)
      else (\<lparr>vs_term = vq_term req, vs_vote_granted = True\<rparr>,
        if ?peer \<noteq> r_voted_for r1 then r1\<lparr>r_curr_term := vq_term req, r_voted_for := ?peer\<rparr> else r1)) = (res, r')"
    using run r1 le c(1) by (auto simp: rpc_request_vote_def Let_def split: if_splits)
  have q1: "quiet r r1 \<or> raised r r1"
    using up r1 by (cases "vq_term req > r_curr_term r") (auto simp: frame_quiet)
  have m: "member_ok ids i (r1\<lparr>r_curr_term := t, r_voted_for := v\<rparr>) = member_ok ids i r1"
    "ballots (r1\<lparr>r_curr_term := t, r_voted_for := v\<rparr>) = ballots r1" for t v
    by (simp_all add: member_ok_def peer_names_def members_def ballots_def)
  show "member_ok ids i r' = member_ok ids i r" "r_log r' = r_log r"
    using run1 same m by (auto split: if_splits)
  show "\<not> vs_vote_granted res \<Longrightarrow> (quiet r r' \<or> raised r r') \<and> vs_term res = r_curr_term r'"
    using run1 q1 by (auto split: if_splits)
  assume g: "vs_vote_granted res"
  then have cond: "\<not> vq_term req < r_curr_term r1" "r_voted_for r1 = [] \<or> ?peer = r_voted_for r1" "\<not> log_newer r1 req"
    "res = \<lparr>vs_term = vq_term req, vs_vote_granted = True\<rparr>"
    "r' = (if ?peer \<noteq> r_voted_for r1 then r1\<lparr>r_curr_term := vq_term req, r_voted_for := ?peer\<rparr> else r1)"
    using run1 by (auto split: if_splits)
  have t: "r_curr_term r1 = vq_term req" using cond(1) le by simp
  have r: "r1 = r \<or> r_curr_term r < vq_term req \<and> r_role r1 = FOLLOWER"
    using r1 up by (cases "vq_term req > r_curr_term r") auto
  have log: "\<not> log_newer r req" using cond(3) same by (simp add: log_newer_def)
  have "r_curr_term r' = vq_term req" "r_voted_for r' = ?peer" "ballots r' = ballots r" "r_role r' = r_role r1" "r_votes r' = r_votes r1"
    using cond(5) t m(2) same by auto
  then show "vs_term res = vq_term req \<and> r_curr_term r' = vq_term req \<and>
       r_voted_for r' = ?peer \<and> r_curr_term r \<le> vq_term req \<and> ballots r' = ballots r \<and>
       (r_curr_term r = vq_term req \<longrightarrow> r_voted_for r = [] \<or> r_voted_for r = ?peer) \<and>
       (r_role r' = FOLLOWER \<or> r_curr_term r' = r_curr_term r \<and> r_role r' = r_role r \<and> r_votes r' = r_votes r) \<and>
       \<not> log_newer r req"
    using cond(2,4) r t log by auto
qed

lemma on_request_vote_effect:
  assumes run: "on_request_vote w res r = Some r'"
  shows "member_ok ids i r' = member_ok ids i r"
    "quiet r r' \<or> raised r r' \<or>
     (r_role r = CANDIDATE \<and> (\<exists>v. res = Some v \<and> vs_vote_granted v \<and> r_curr_term r \<le> vs_term v) \<and>
      r_curr_term r' = r_curr_term r \<and> r_voted_for r' = r_voted_for r \<and> ballots r' = ballots r \<and>
      r_votes r' = r_votes r + 1 \<and>
      (r_role r' = CANDIDATE \<or> r_role r' = LEADER \<and> cluster_size r div 2 < r_votes r'))"
proof -
  have "member_ok ids i r' = member_ok ids i r \<and> (quiet r r' \<or> raised r r' \<or>
     (r_role r = CANDIDATE \<and> (\<exists>v. res = Some v \<and> vs_vote_granted v \<and> r_curr_term r \<le> vs_term v) \<and>
      r_curr_term r' = r_curr_term r \<and> r_voted_for r' = r_voted_for r \<and> ballots r' = ballots r \<and>
      r_votes r' = r_votes r + 1 \<and>
      (r_role r' = CANDIDATE \<or> r_role r' = LEADER \<and> cluster_size r div 2 < r_votes r')))"
  proof (cases "\<exists>v. res = Some v \<and> r_role r = CANDIDATE \<and>
      (vs_vote_granted v \<and> r_curr_term r \<le> vs_term v \<or> \<not> vs_vote_granted v \<and> r_curr_term r < vs_term v)")
    case False
    then have "r' = r" using run by (auto simp: on_request_vote_def split: option.splits if_splits)
    then show ?thesis by (simp add: frame_quiet)
  next
    case True
    then obtain v where v: "res = Some v" "r_role r = CANDIDATE"
      "vs_vote_granted v \<and> r_curr_term r \<le> vs_term v \<or> \<not> vs_vote_granted v \<and> r_curr_term r < vs_term v" by blast
    let ?r1 = "r\<lparr>r_votes := r_votes r + 1\<rparr>"
    have m: "member_ok ids i (r\<lparr>r_votes := n\<rparr>) = member_ok ids i r" "ballots (r\<lparr>r_votes := n\<rparr>) = ballots r"
      "cluster_size (r\<lparr>r_votes := n\<rparr>) = cluster_size r" for n
      by (simp_all add: member_ok_def peer_names_def members_def ballots_def cluster_size_def)
    have up: ?thesis if "step_up w ?r1 = Some r'" "cluster_size r div 2 < r_votes ?r1"
        "vs_vote_granted v" "r_curr_term r \<le> vs_term v"
    proof -
      have f: "frame (?r1\<lparr>r_role := LEADER\<rparr>) r'" using that(1) by (rule step_up_effect)
      have "member_ok ids i r' = member_ok ids i r"
        using member_ok_frame [OF f, of ids i] member_ok_cong [of "?r1\<lparr>r_role := LEADER\<rparr>" r ids i]
        by (simp add: peer_names_def members_def)
      then show ?thesis using frameD [OF f] that v by (simp add: ballots_def)
    qed
    show ?thesis
    proof (cases "vs_vote_granted v")
      case g: True
      then show ?thesis
        using run v up m by (cases "r_votes ?r1 > cluster_size r div 2") (auto simp: on_request_vote_def Let_def)
    next
      case g: False
      then have "step_down (vs_term v) [] r = Some r'" "r_curr_term r < vs_term v"
        using run v by (auto simp: on_request_vote_def)
      then show ?thesis using step_down_raised by blast
    qed
  qed
  then show "member_ok ids i r' = member_ok ids i r"
    "quiet r r' \<or> raised r r' \<or>
     (r_role r = CANDIDATE \<and> (\<exists>v. res = Some v \<and> vs_vote_granted v \<and> r_curr_term r \<le> vs_term v) \<and>
      r_curr_term r' = r_curr_term r \<and> r_voted_for r' = r_voted_for r \<and> ballots r' = ballots r \<and>
      r_votes r' = r_votes r + 1 \<and>
      (r_role r' = CANDIDATE \<or> r_role r' = LEADER \<and> cluster_size r div 2 < r_votes r'))"
    by blast+
qed

end
