(* ===== verification/Election_Safety.thy ===== *)
theory Election_Safety
  imports Election_Effects
begin

text \<open>
  A cluster of servers that run the handlers, and the vote calls between them.  A call is handled
  at most once and its answer is seen at most once; calls and answers may be lost, delayed and
  reordered.  Membership is fixed.  Handlers that are not about elections appear through what they
  do to the election state (\<open>Other\<close>).  Ghost fields record every vote granted, every answer
  seen, and every leadership.  The invariant gives election safety by quorum intersection.
\<close>

section \<open>Quorums\<close>

locale quorums =
  fixes quorum :: "'p set \<Rightarrow> bool"
  assumes intersect: "quorum A \<Longrightarrow> quorum B \<Longrightarrow> A \<inter> B \<noteq> {}"
begin

text \<open>If every voter votes for one candidate, two candidates cannot both have a quorum.\<close>

lemma unique_winner:
  assumes "quorum A" and "quorum B" and "\<And>v. v \<in> A \<Longrightarrow> vote v c" and "\<And>v. v \<in> B \<Longrightarrow> vote v d"
    and "\<And>v. vote v c \<Longrightarrow> vote v d \<Longrightarrow> c = d"
  shows "c = d"
  using intersect [OF assms(1,2)] assms(3-5) by blast

end

text \<open>The test of the code: more than half of the cluster size.\<close>

definition majority :: "'p set \<Rightarrow> 'p set \<Rightarrow> bool" where
  "majority ids S \<longleftrightarrow> finite ids \<and> S \<subseteq> ids \<and> card S > card ids div 2"

interpretation majorities: quorums "majority ids" for ids
proof
  fix A B :: "'a set"
  assume "majority ids A" "majority ids B"
  then have m: "finite ids" "A \<subseteq> ids" "B \<subseteq> ids" "card ids < card A + card B"
    by (auto simp: majority_def)
  show "A \<inter> B \<noteq> {}"
  proof
    assume "A \<inter> B = {}"
    with m have "card A + card B = card (A \<union> B)"
      by (metis card_Un_disjoint finite_subset)
    also have "\<dots> \<le> card ids" using m by (simp add: card_mono)
    finally show False using m(4) by simp
  qed
qed

section \<open>The system\<close>

type_synonym call = "string \<times> string \<times> vote_req"

record sys =
  s_server :: "string \<Rightarrow> raft"
  s_pending :: "call list"
  s_answered :: "(call \<times> vote_res) list"
  s_grants :: "(string \<times> nat \<times> string) set"        \<comment> \<open>voter, term, candidate\<close>
  s_counted :: "(string \<times> nat \<times> string) list"      \<comment> \<open>candidate, term, voter\<close>
  s_leaders :: "(nat \<times> string) set"

definition new_calls :: "string \<Rightarrow> raft \<Rightarrow> raft \<Rightarrow> call list" where
  "new_calls i r r' = map (\<lambda>(v, req). (i, v, req)) (drop (length (ballots r)) (ballots r'))"

text \<open>A server took a step: its requests go out, a vote for itself and a leadership are noted.\<close>

definition update :: "string \<Rightarrow> raft \<Rightarrow> sys \<Rightarrow> sys" where
  "update i r' \<sigma> =
     (let r = s_server \<sigma> i in
      \<sigma>\<lparr>s_server := (s_server \<sigma>)(i := r'),
        s_pending := s_pending \<sigma> @ new_calls i r r',
        s_grants := s_grants \<sigma> \<union>
          (if r_curr_term r < r_curr_term r' \<and> r_role r' \<noteq> FOLLOWER then {(i, r_curr_term r', i)} else {}),
        s_leaders := s_leaders \<sigma> \<union> (if r_role r' = LEADER then {(r_curr_term r', i)} else {})\<rparr>)"

inductive election_step :: "string set \<Rightarrow> sys \<Rightarrow> sys \<Rightarrow> bool" for ids where
  Timeout: "i \<in> ids \<Longrightarrow> on_election_timeout w ec (s_server \<sigma> i) = Some r' \<Longrightarrow> election_step ids \<sigma> (update i r' \<sigma>)"
| Heartbeat: "i \<in> ids \<Longrightarrow> on_heartbeat_timeout w ec (s_server \<sigma> i) = Some r' \<Longrightarrow> election_step ids \<sigma> (update i r' \<sigma>)"
| Timeout_now: "i \<in> ids \<Longrightarrow> rpc_timeout_now w q (s_server \<sigma> i) = Some (res, r') \<Longrightarrow> election_step ids \<sigma> (update i r' \<sigma>)"
| Pre_vote: "i \<in> ids \<Longrightarrow> rpc_pre_vote w q (s_server \<sigma> i) = (res, r') \<Longrightarrow> election_step ids \<sigma> (update i r' \<sigma>)"
| Pre_vote_answer: "i \<in> ids \<Longrightarrow> on_pre_vote w ans (s_server \<sigma> i) = Some r' \<Longrightarrow> election_step ids \<sigma> (update i r' \<sigma>)"
| Vote: "v \<in> ids \<Longrightarrow> s_pending \<sigma> = xs @ (c, v, req) # ys \<Longrightarrow> rpc_request_vote req (s_server \<sigma> v) = Some (res, r') \<Longrightarrow>
    election_step ids \<sigma> ((update v r' (\<sigma>\<lparr>s_pending := xs @ ys, s_answered := ((c, v, req), res) # s_answered \<sigma>\<rparr>))
      \<lparr>s_grants := s_grants \<sigma> \<union> (if vs_vote_granted res then {(v, vs_term res, vq_candidate_id req)} else {})\<rparr>)"
| Vote_answer: "c \<in> ids \<Longrightarrow> s_answered \<sigma> = xs @ ((c, v, req), res) # ys \<Longrightarrow>
    on_request_vote w (Some res) (s_server \<sigma> c) = Some r' \<Longrightarrow>
    election_step ids \<sigma> (update c r' (\<sigma>\<lparr>s_answered := xs @ ys,
      s_counted := (if vs_vote_granted res then [(c, vq_term req, v)] else []) @ s_counted \<sigma>\<rparr>))"
| Lost: "s_pending \<sigma> = xs @ x # ys \<Longrightarrow> election_step ids \<sigma> (\<sigma>\<lparr>s_pending := xs @ ys\<rparr>)"
| Lost_answer: "s_answered \<sigma> = xs @ x # ys \<Longrightarrow> election_step ids \<sigma> (\<sigma>\<lparr>s_answered := xs @ ys\<rparr>)"

text \<open>Or a server did something else, that is quiet or raises its term.\<close>

inductive sys_step :: "string set \<Rightarrow> sys \<Rightarrow> sys \<Rightarrow> bool" for ids where
  Election: "election_step ids \<sigma> \<sigma>' \<Longrightarrow> sys_step ids \<sigma> \<sigma>'"
| Other: "i \<in> ids \<Longrightarrow> quiet (s_server \<sigma> i) r' \<or> raised (s_server \<sigma> i) r' \<Longrightarrow> member_ok ids i r' \<Longrightarrow>
    sys_step ids \<sigma> (update i r' \<sigma>)"

definition sys_start :: "string set \<Rightarrow> sys \<Rightarrow> bool" where
  "sys_start ids \<sigma> \<longleftrightarrow> finite ids \<and> (\<forall>i \<in> ids. good_id i \<and> member_ok ids i (s_server \<sigma> i) \<and> r_role (s_server \<sigma> i) = FOLLOWER) \<and>
     s_pending \<sigma> = [] \<and> s_answered \<sigma> = [] \<and> s_grants \<sigma> = {} \<and> s_counted \<sigma> = [] \<and> s_leaders \<sigma> = {}"

inductive reachable :: "string set \<Rightarrow> sys \<Rightarrow> bool" for ids where
  start: "sys_start ids \<sigma> \<Longrightarrow> reachable ids \<sigma>"
| step: "reachable ids \<sigma> \<Longrightarrow> sys_step ids \<sigma> \<sigma>' \<Longrightarrow> reachable ids \<sigma>'"

lemma reachable_election: "reachable ids \<sigma> \<Longrightarrow> election_step ids \<sigma> \<sigma>' \<Longrightarrow> reachable ids \<sigma>'"
  by (blast intro: reachable.step sys_step.Election)

section \<open>The invariant\<close>

text \<open>The identity of a call: candidate, term, voter.\<close>

definition key :: "call \<Rightarrow> string \<times> nat \<times> string" where
  "key = (\<lambda>(c, v, req). (c, vq_term req, v))"

definition keys :: "sys \<Rightarrow> (string \<times> nat \<times> string) list" where
  "keys \<sigma> = map key (s_pending \<sigma>) @ map (key \<circ> fst) (s_answered \<sigma>) @ s_counted \<sigma>"

definition call_ok :: "string set \<Rightarrow> call \<Rightarrow> bool" where
  "call_ok ids = (\<lambda>(c, v, req). c \<in> ids \<and> vq_candidate_id req = c)"

definition key_ok :: "string set \<Rightarrow> (string \<Rightarrow> raft) \<Rightarrow> string \<times> nat \<times> string \<Rightarrow> bool" where
  "key_ok ids S = (\<lambda>(c, t, v). c \<in> ids \<and> v \<in> ids \<and> v \<noteq> c \<and> t \<le> r_curr_term (S c))"

definition counted_for :: "string \<Rightarrow> nat \<Rightarrow> sys \<Rightarrow> string list" where
  "counted_for c t \<sigma> = map (\<lambda>(_, _, v). v) (filter (\<lambda>(c', t', _). c' = c \<and> t' = t) (s_counted \<sigma>))"

definition inv_servers :: "string set \<Rightarrow> sys \<Rightarrow> bool" where
  "inv_servers ids \<sigma> \<longleftrightarrow> finite ids \<and> (\<forall>i \<in> ids. good_id i \<and> member_ok ids i (s_server \<sigma> i))"

definition inv_calls :: "string set \<Rightarrow> sys \<Rightarrow> bool" where
  "inv_calls ids \<sigma> \<longleftrightarrow> distinct (keys \<sigma>) \<and> (\<forall>k \<in> set (keys \<sigma>). key_ok ids (s_server \<sigma>) k) \<and>
     (\<forall>x \<in> set (s_pending \<sigma>). call_ok ids x) \<and>
     (\<forall>(x, res) \<in> set (s_answered \<sigma>). call_ok ids x)"

definition inv_grants :: "string set \<Rightarrow> sys \<Rightarrow> bool" where
  "inv_grants ids \<sigma> \<longleftrightarrow>
     (\<forall>(v, t, c) \<in> s_grants \<sigma>. v \<in> ids \<and> t \<le> r_curr_term (s_server \<sigma> v) \<and>
        (t = r_curr_term (s_server \<sigma> v) \<longrightarrow> r_voted_for (s_server \<sigma> v) = c) \<and> good_id c) \<and>
     (\<forall>v t c c'. (v, t, c) \<in> s_grants \<sigma> \<longrightarrow> (v, t, c') \<in> s_grants \<sigma> \<longrightarrow> c = c') \<and>
     (\<forall>((c, v, req), res) \<in> set (s_answered \<sigma>). vs_vote_granted res \<longrightarrow>
        vs_term res = vq_term req \<and> (v, vq_term req, c) \<in> s_grants \<sigma>) \<and>
     (\<forall>(c, t, v) \<in> set (s_counted \<sigma>). (v, t, c) \<in> s_grants \<sigma>)"

definition inv_roles :: "string set \<Rightarrow> sys \<Rightarrow> bool" where
  "inv_roles ids \<sigma> \<longleftrightarrow>
     (\<forall>i \<in> ids. r_role (s_server \<sigma> i) \<noteq> FOLLOWER \<longrightarrow>
        (i, r_curr_term (s_server \<sigma> i), i) \<in> s_grants \<sigma> \<and>
        r_votes (s_server \<sigma> i) \<le> 1 + length (counted_for i (r_curr_term (s_server \<sigma> i)) \<sigma>)) \<and>
     (\<forall>i \<in> ids. r_role (s_server \<sigma> i) = LEADER \<longrightarrow> (r_curr_term (s_server \<sigma> i), i) \<in> s_leaders \<sigma>) \<and>
     (\<forall>(t, i) \<in> s_leaders \<sigma>. i \<in> ids \<and> (\<exists>Q. majority ids Q \<and> (\<forall>v \<in> Q. (v, t, i) \<in> s_grants \<sigma>)))"

definition sys_inv :: "string set \<Rightarrow> sys \<Rightarrow> bool" where
  "sys_inv ids \<sigma> \<longleftrightarrow> inv_servers ids \<sigma> \<and> inv_calls ids \<sigma> \<and> inv_grants ids \<sigma> \<and> inv_roles ids \<sigma>"

lemma sys_inv_start: "sys_start ids \<sigma> \<Longrightarrow> sys_inv ids \<sigma>"
  by (simp add: sys_start_def sys_inv_def inv_servers_def inv_calls_def inv_grants_def inv_roles_def keys_def)

section \<open>Steps that settle\<close>

text \<open>The effect of everything but a new candidacy and a counted vote.\<close>

definition settles :: "raft \<Rightarrow> raft \<Rightarrow> bool" where
  "settles r r' \<longleftrightarrow> r_curr_term r \<le> r_curr_term r' \<and> ballots r' = ballots r \<and>
     (r_role r' = FOLLOWER \<or> r_curr_term r' = r_curr_term r \<and> r_role r' = r_role r \<and> r_votes r' = r_votes r)"

lemma quiet_raised_settles:
  "quiet r r' \<or> raised r r' \<Longrightarrow> settles r r'"
  "quiet r r' \<or> raised r r' \<Longrightarrow> r_curr_term r' = r_curr_term r \<Longrightarrow> r_voted_for r' = r_voted_for r"
  "quiet r r' \<or> raised r r' \<Longrightarrow> r_curr_term r < r_curr_term r' \<Longrightarrow> r_role r' = FOLLOWER"
  by (auto simp: settles_def quiet_def raised_def)

lemma update_sel [simp]:
  "s_server (update i r' \<sigma>) = (s_server \<sigma>)(i := r')"
  "s_answered (update i r' \<sigma>) = s_answered \<sigma>" "s_counted (update i r' \<sigma>) = s_counted \<sigma>"
  "s_pending (update i r' \<sigma>) = s_pending \<sigma> @ new_calls i (s_server \<sigma> i) r'"
  "s_leaders (update i r' \<sigma>) = s_leaders \<sigma> \<union> (if r_role r' = LEADER then {(r_curr_term r', i)} else {})"
  by (simp_all add: update_def Let_def)

lemma key_ok_mono:
  "key_ok ids S k \<Longrightarrow> r_curr_term (S i) \<le> r_curr_term r' \<Longrightarrow> key_ok ids (S(i := r')) k"
  by (auto simp: key_ok_def split: prod.splits)

lemma inv_servers_update:
  "inv_servers ids \<sigma> \<Longrightarrow> member_ok ids i r' \<Longrightarrow> s_server \<sigma>' = (s_server \<sigma>)(i := r') \<Longrightarrow> inv_servers ids \<sigma>'"
  by (simp add: inv_servers_def)

lemma inv_calls_settles:
  assumes "inv_calls ids \<sigma>" and "settles (s_server \<sigma> i) r'" and "s_server \<sigma>' = (s_server \<sigma>)(i := r')"
    and "s_pending \<sigma>' = s_pending \<sigma>" and "s_answered \<sigma>' = s_answered \<sigma>" and "s_counted \<sigma>' = s_counted \<sigma>"
  shows "inv_calls ids \<sigma>'"
  using assms by (auto simp: inv_calls_def keys_def settles_def intro!: key_ok_mono)

lemma inv_roles_settles:
  assumes "inv_roles ids \<sigma>" and "settles (s_server \<sigma> i) r'" and "i \<in> ids" and "s_server \<sigma>' = (s_server \<sigma>)(i := r')"
    and "s_grants \<sigma> \<subseteq> s_grants \<sigma>'" and "s_counted \<sigma>' = s_counted \<sigma>"
    and "s_leaders \<sigma>' = s_leaders \<sigma> \<union> (if r_role r' = LEADER then {(r_curr_term r', i)} else {})"
  shows "inv_roles ids \<sigma>'"
proof -
  have old: "s_leaders \<sigma>' = s_leaders \<sigma>"
    using assms by (auto simp: inv_roles_def settles_def)
  have cnt: "counted_for c t \<sigma>' = counted_for c t \<sigma>" for c t
    using assms(6) by (simp add: counted_for_def)
  show ?thesis
    unfolding inv_roles_def old cnt
  proof (intro conjI ballI impI)
    fix j assume j: "j \<in> ids" "r_role (s_server \<sigma>' j) \<noteq> FOLLOWER"
    then have same: "r_role (s_server \<sigma>' j) = r_role (s_server \<sigma> j) \<and> r_curr_term (s_server \<sigma>' j) = r_curr_term (s_server \<sigma> j) \<and>
        r_votes (s_server \<sigma>' j) = r_votes (s_server \<sigma> j)"
      using assms(2,4) by (cases "j = i") (auto simp: settles_def)
    with j assms(1,5) show "(j, r_curr_term (s_server \<sigma>' j), j) \<in> s_grants \<sigma>'"
      "r_votes (s_server \<sigma>' j) \<le> 1 + length (counted_for j (r_curr_term (s_server \<sigma>' j)) \<sigma>)"
      by (auto simp: inv_roles_def)
  next
    fix j assume j: "j \<in> ids" "r_role (s_server \<sigma>' j) = LEADER"
    then have "r_role (s_server \<sigma> j) = LEADER \<and> r_curr_term (s_server \<sigma>' j) = r_curr_term (s_server \<sigma> j)"
      using assms(2,4) by (cases "j = i") (auto simp: settles_def)
    with j assms(1) show "(r_curr_term (s_server \<sigma>' j), j) \<in> s_leaders \<sigma>" by (auto simp: inv_roles_def)
  next
    fix x assume "x \<in> s_leaders \<sigma>"
    with assms(1,5) show "case x of (t, i) \<Rightarrow> i \<in> ids \<and> (\<exists>Q. majority ids Q \<and> (\<forall>v \<in> Q. (v, t, i) \<in> s_grants \<sigma>'))"
      unfolding inv_roles_def by fast
  qed
qed

lemma inv_grants_mono:
  assumes "inv_grants ids \<sigma>" and "r_curr_term (s_server \<sigma> i) \<le> r_curr_term r'"
    and "r_curr_term r' = r_curr_term (s_server \<sigma> i) \<Longrightarrow> r_voted_for r' = r_voted_for (s_server \<sigma> i)"
    and "s_server \<sigma>' = (s_server \<sigma>)(i := r')" and "s_grants \<sigma>' = s_grants \<sigma>" and "s_answered \<sigma>' = s_answered \<sigma>"
    and "s_counted \<sigma>' = s_counted \<sigma>"
  shows "inv_grants ids \<sigma>'"
proof -
  have "case x of (v, t, c) \<Rightarrow> v \<in> ids \<and> t \<le> r_curr_term (s_server \<sigma>' v) \<and>
        (t = r_curr_term (s_server \<sigma>' v) \<longrightarrow> r_voted_for (s_server \<sigma>' v) = c) \<and> good_id c" if "x \<in> s_grants \<sigma>" for x
  proof -
    obtain v t c where x: "x = (v, t, c)" by (cases x)
    with that assms(1) have "v \<in> ids \<and> t \<le> r_curr_term (s_server \<sigma> v) \<and>
        (t = r_curr_term (s_server \<sigma> v) \<longrightarrow> r_voted_for (s_server \<sigma> v) = c) \<and> good_id c"
      by (auto simp: inv_grants_def)
    with assms(2,3,4) x show ?thesis by auto
  qed
  with assms(1,5-7) show ?thesis by (auto simp: inv_grants_def)
qed

lemma sys_inv_settles:
  assumes inv: "sys_inv ids \<sigma>" and i: "i \<in> ids" and ok: "member_ok ids i r'"
    and qr: "quiet (s_server \<sigma> i) r' \<or> raised (s_server \<sigma> i) r'"
  shows "sys_inv ids (update i r' \<sigma>)" "s_grants (update i r' \<sigma>) = s_grants \<sigma>" "s_pending (update i r' \<sigma>) = s_pending \<sigma>"
proof -
  note s = quiet_raised_settles [OF qr]
  show g: "s_grants (update i r' \<sigma>) = s_grants \<sigma>" and p: "s_pending (update i r' \<sigma>) = s_pending \<sigma>"
    using s(1,3) by (auto simp: update_def Let_def new_calls_def settles_def)
  have t: "r_curr_term (s_server \<sigma> i) \<le> r_curr_term r'" using s(1) by (simp add: settles_def)
  from inv have parts: "inv_servers ids \<sigma>" "inv_calls ids \<sigma>" "inv_grants ids \<sigma>" "inv_roles ids \<sigma>"
    by (auto simp: sys_inv_def)
  show "sys_inv ids (update i r' \<sigma>)"
    unfolding sys_inv_def
    using inv_servers_update [OF parts(1) ok] inv_calls_settles [OF parts(2) s(1)] inv_grants_mono [OF parts(3) t s(2)]
      inv_roles_settles [OF parts(4) s(1) i] g p by auto
qed

section \<open>New candidates\<close>

lemma candidacy_calls:
  assumes "candidacy ids i r r'" and "member_ok ids i r"
  shows "\<exists>ks req. new_calls i r r' = map (\<lambda>k. (i, k, req)) ks \<and> distinct ks \<and> set ks \<subseteq> ids - {i} \<and>
    (ks \<noteq> [] \<longrightarrow> vq_term req = r_curr_term r' \<and> vq_candidate_id req = i)"
proof -
  have "distinct (asked r)" "set (asked r) \<subseteq> ids - {i}"
    using assms(2) by (auto simp: asked_def member_ok_def)
  moreover have "new_calls i r r' = map (\<lambda>k. (i, k, req)) []" if "ballots r' = ballots r" for req
    using that by (simp add: new_calls_def)
  moreover have "new_calls i r r' = map (\<lambda>k. (i, k, req)) (asked r)"
    if "ballots r' = ballots r @ map (\<lambda>k. (k, req)) (asked r)" for req
    using that by (simp add: new_calls_def)
  ultimately show ?thesis
    using assms(1) unfolding candidacy_def by (metis distinct.simps(1) empty_set empty_subsetI)
qed

lemma inv_calls_candidacy:
  assumes inv: "inv_calls ids \<sigma>" and i: "i \<in> ids" and c: "candidacy ids i (s_server \<sigma> i) r'"
    and ok: "member_ok ids i (s_server \<sigma> i)"
  shows "inv_calls ids (update i r' \<sigma>)"
proof -
  let ?r = "s_server \<sigma> i"
  obtain ks req where ks: "new_calls i ?r r' = map (\<lambda>k. (i, k, req)) ks" "distinct ks" "set ks \<subseteq> ids - {i}"
    "ks \<noteq> [] \<longrightarrow> vq_term req = r_curr_term r' \<and> vq_candidate_id req = i"
    using candidacy_calls [OF c ok] by blast
  have t: "r_curr_term r' = r_curr_term ?r + 1" using c by (simp add: candidacy_def)
  have ke: "map key (new_calls i ?r r') = map (\<lambda>k. (i, r_curr_term r', k)) ks"
    using ks(1,4) by (auto simp: key_def)
  have old: "k \<in> set (keys \<sigma>) \<Longrightarrow> key_ok ids (s_server \<sigma>) k" for k using inv by (simp add: inv_calls_def)
  have keys: "set (keys (update i r' \<sigma>)) = set (keys \<sigma>) \<union> set (map key (new_calls i ?r r'))"
    "distinct (keys (update i r' \<sigma>)) \<longleftrightarrow> distinct (keys \<sigma> @ map key (new_calls i ?r r'))"
    by (auto simp: keys_def)
  have "distinct (keys \<sigma> @ map key (new_calls i ?r r'))"
    using inv ks(2) old t unfolding ke
    by (auto simp: inv_calls_def distinct_map inj_on_def key_ok_def dest: old)
  moreover have "key_ok ids ((s_server \<sigma>)(i := r')) k" if "k \<in> set (keys (update i r' \<sigma>))" for k
  proof (cases "k \<in> set (keys \<sigma>)")
    case True
    then show ?thesis using t by (intro key_ok_mono old) auto
  next
    case False
    then show ?thesis using that t ks(3) i unfolding keys ke by (auto simp: key_ok_def)
  qed
  moreover have "call_ok ids x" if "x \<in> set (new_calls i ?r r')" for x
    using that ks i by (auto simp: call_ok_def)
  ultimately show ?thesis using inv keys(2) by (auto simp: inv_calls_def)
qed

lemma sys_inv_candidacy:
  assumes inv: "sys_inv ids \<sigma>" and i: "i \<in> ids" and ok: "member_ok ids i r'"
    and c: "candidacy ids i (s_server \<sigma> i) r'"
  shows "sys_inv ids (update i r' \<sigma>)"
proof -
  let ?r = "s_server \<sigma> i" and ?\<sigma> = "update i r' \<sigma>"
  from inv have parts: "inv_servers ids \<sigma>" "inv_calls ids \<sigma>" "inv_grants ids \<sigma>" "inv_roles ids \<sigma>"
    by (auto simp: sys_inv_def)
  have id: "good_id i" "member_ok ids i ?r" "finite ids" using parts(1) i by (auto simp: inv_servers_def)
  have r': "r_curr_term r' = r_curr_term ?r + 1" "r_voted_for r' = i" "r_votes r' = 1" "r_role r' \<noteq> FOLLOWER"
    "r_role r' = LEADER \<Longrightarrow> ids = {i}"
    using c by (auto simp: candidacy_def)
  have g: "s_grants ?\<sigma> = s_grants \<sigma> \<union> {(i, r_curr_term r', i)}"
    using r' by (simp add: update_def Let_def)
  have old: "(v, t, d) \<in> s_grants \<sigma> \<Longrightarrow> v \<in> ids \<and> t \<le> r_curr_term (s_server \<sigma> v) \<and>
        (t = r_curr_term (s_server \<sigma> v) \<longrightarrow> r_voted_for (s_server \<sigma> v) = d) \<and> good_id d" for v t d
    using parts(3) by (auto simp: inv_grants_def)
  have "inv_grants ids ?\<sigma>"
    unfolding inv_grants_def
  proof (intro conjI)
    show "\<forall>(v, t, c) \<in> s_grants ?\<sigma>. v \<in> ids \<and> t \<le> r_curr_term (s_server ?\<sigma> v) \<and>
        (t = r_curr_term (s_server ?\<sigma> v) \<longrightarrow> r_voted_for (s_server ?\<sigma> v) = c) \<and> good_id c"
      using r' i id(1) unfolding g by (auto dest!: old)
    show "\<forall>v t c c'. (v, t, c) \<in> s_grants ?\<sigma> \<longrightarrow> (v, t, c') \<in> s_grants ?\<sigma> \<longrightarrow> c = c'"
      using parts(3) r'(1) unfolding g by (auto simp: inv_grants_def dest: old)
  qed (use parts(3) in \<open>auto simp: inv_grants_def g\<close>)
  moreover have "inv_roles ids ?\<sigma>"
  proof -
    have cnt: "counted_for d t ?\<sigma> = counted_for d t \<sigma>" for d t by (simp add: counted_for_def)
    have lead: "\<exists>Q. majority ids Q \<and> (\<forall>v \<in> Q. (v, t, j) \<in> s_grants ?\<sigma>)" if tj: "(t, j) \<in> s_leaders ?\<sigma>" for t j
    proof (cases "(t, j) \<in> s_leaders \<sigma>")
      case True
      then show ?thesis using parts(4) unfolding inv_roles_def g by fastforce
    next
      case False
      with tj have "ids = {i}" "t = r_curr_term r'" "j = i" using r'(5) by (auto split: if_splits)
      then show ?thesis by (auto simp: majority_def g intro!: exI [of _ "{i}"])
    qed
    show ?thesis
      unfolding inv_roles_def cnt
    proof (intro conjI)
      show "\<forall>j \<in> ids. r_role (s_server ?\<sigma> j) \<noteq> FOLLOWER \<longrightarrow> (j, r_curr_term (s_server ?\<sigma> j), j) \<in> s_grants ?\<sigma> \<and>
          r_votes (s_server ?\<sigma> j) \<le> 1 + length (counted_for j (r_curr_term (s_server ?\<sigma> j)) \<sigma>)"
        using parts(4) r'(3) unfolding g by (auto simp: inv_roles_def)
      show "\<forall>j \<in> ids. r_role (s_server ?\<sigma> j) = LEADER \<longrightarrow> (r_curr_term (s_server ?\<sigma> j), j) \<in> s_leaders ?\<sigma>"
        using parts(4) by (auto simp: inv_roles_def)
      have "j \<in> ids" if "(t, j) \<in> s_leaders ?\<sigma>" for t j
        using that parts(4) i by (auto simp: inv_roles_def split: if_splits)
      with lead show "\<forall>(t, j) \<in> s_leaders ?\<sigma>. j \<in> ids \<and> (\<exists>Q. majority ids Q \<and> (\<forall>v \<in> Q. (v, t, j) \<in> s_grants ?\<sigma>))"
        by blast
    qed
  qed
  ultimately show ?thesis
    using inv_servers_update [OF parts(1) ok] inv_calls_candidacy [OF parts(2) i c id(2)] by (simp add: sys_inv_def)
qed

lemma sys_inv_may_elect:
  "sys_inv ids \<sigma> \<Longrightarrow> i \<in> ids \<Longrightarrow> may_elect ids i (s_server \<sigma> i) r' \<Longrightarrow> sys_inv ids (update i r' \<sigma>)"
  using sys_inv_settles(1) sys_inv_candidacy by (auto simp: may_elect_def)

section \<open>Losing, granting and counting\<close>

text \<open>Calls may disappear or move between the lists.\<close>

lemma sys_inv_calls:
  assumes inv: "sys_inv ids \<sigma>" and "s_server \<sigma>' = s_server \<sigma>" and "s_grants \<sigma>' = s_grants \<sigma>" and "s_leaders \<sigma>' = s_leaders \<sigma>"
    and keys: "distinct (keys \<sigma>')" "set (keys \<sigma>') \<subseteq> set (keys \<sigma>)"
    and calls: "\<forall>x \<in> set (s_pending \<sigma>'). call_ok ids x"
      "\<forall>(x, res) \<in> set (s_answered \<sigma>'). call_ok ids x"
      "\<forall>((c, v, req), res) \<in> set (s_answered \<sigma>'). vs_vote_granted res \<longrightarrow>
        vs_term res = vq_term req \<and> (v, vq_term req, c) \<in> s_grants \<sigma>"
      "\<forall>(c, t, v) \<in> set (s_counted \<sigma>'). (v, t, c) \<in> s_grants \<sigma>"
      "\<And>c t. length (counted_for c t \<sigma>) \<le> length (counted_for c t \<sigma>')"
  shows "sys_inv ids \<sigma>'"
proof -
  from inv have parts: "inv_servers ids \<sigma>" "inv_calls ids \<sigma>" "inv_grants ids \<sigma>" "inv_roles ids \<sigma>"
    by (auto simp: sys_inv_def)
  have "inv_roles ids \<sigma>'"
    using parts(4) assms(2-4) calls(5) unfolding inv_roles_def by (auto intro: le_trans add_left_mono)
  moreover have "inv_servers ids \<sigma>'" using parts(1) assms(2) by (simp add: inv_servers_def)
  moreover have "inv_calls ids \<sigma>'" using parts(2) assms(2) keys calls(1,2) by (auto simp: inv_calls_def)
  moreover have "inv_grants ids \<sigma>'" using parts(3) assms(2,3) calls(3,4) by (auto simp: inv_grants_def)
  ultimately show ?thesis by (simp add: sys_inv_def)
qed

text \<open>A call is handled: it moves to the answered calls.\<close>

lemma sys_inv_handled:
  assumes inv: "sys_inv ids \<sigma>" and p: "s_pending \<sigma> = xs @ (c, v, req) # ys"
    and g: "vs_vote_granted res \<longrightarrow> vs_term res = vq_term req \<and> (v, vq_term req, c) \<in> s_grants \<sigma>"
  shows "sys_inv ids (\<sigma>\<lparr>s_pending := xs @ ys, s_answered := ((c, v, req), res) # s_answered \<sigma>\<rparr>)"
proof (rule sys_inv_calls [OF inv])
  let ?\<sigma> = "\<sigma>\<lparr>s_pending := xs @ ys, s_answered := ((c, v, req), res) # s_answered \<sigma>\<rparr>"
  have calls: "inv_calls ids \<sigma>" and grants: "inv_grants ids \<sigma>" using inv by (auto simp: sys_inv_def)
  show "distinct (keys ?\<sigma>)" "set (keys ?\<sigma>) \<subseteq> set (keys \<sigma>)"
    using calls p by (auto simp: inv_calls_def keys_def)
  show "\<forall>x \<in> set (s_pending ?\<sigma>). call_ok ids x" "\<forall>(x, res) \<in> set (s_answered ?\<sigma>). call_ok ids x"
    using calls p by (auto simp: inv_calls_def)
  show "\<forall>((c, v, req), res) \<in> set (s_answered ?\<sigma>). vs_vote_granted res \<longrightarrow>
        vs_term res = vq_term req \<and> (v, vq_term req, c) \<in> s_grants \<sigma>"
    using grants g by (auto simp: inv_grants_def)
  show "\<forall>(c, t, v) \<in> set (s_counted ?\<sigma>). (v, t, c) \<in> s_grants \<sigma>"
    using grants by (auto simp: inv_grants_def)
qed (simp_all add: counted_for_def)

lemma sys_inv_granted:
  assumes inv: "sys_inv ids \<sigma>" and v: "v \<in> ids" and p: "s_pending \<sigma> = xs @ (c, v, req) # ys"
    and run: "rpc_request_vote req (s_server \<sigma> v) = Some (res, r')" and g: "vs_vote_granted res"
  shows "sys_inv ids ((update v r' \<sigma>)\<lparr>s_grants := s_grants \<sigma> \<union> {(v, vq_term req, c)}\<rparr>)"
    and "new_calls v (s_server \<sigma> v) r' = []" and "vs_term res = vq_term req" and "vq_candidate_id req = c"
proof -
  let ?r = "s_server \<sigma> v" and ?\<sigma> = "(update v r' \<sigma>)\<lparr>s_grants := s_grants \<sigma> \<union> {(v, vq_term req, c)}\<rparr>"
  from inv have parts: "inv_servers ids \<sigma>" "inv_calls ids \<sigma>" "inv_grants ids \<sigma>" "inv_roles ids \<sigma>"
    by (auto simp: sys_inv_def)
  have "call_ok ids (c, v, req)" using parts(2) p by (auto simp: inv_calls_def)
  then show c: "vq_candidate_id req = c" by (simp add: call_ok_def)
  have cid: "c \<in> ids" using \<open>call_ok ids (c, v, req)\<close> by (simp add: call_ok_def)
  then have id: "good_id c" using parts(1) by (auto simp: inv_servers_def)
  note eff = rpc_request_vote_effect [OF run]
  have e: "vs_term res = vq_term req" "r_curr_term r' = vq_term req" "r_voted_for r' = c"
    "r_curr_term ?r \<le> vq_term req" "ballots r' = ballots ?r"
    "r_curr_term ?r = vq_term req \<longrightarrow> r_voted_for ?r = [] \<or> r_voted_for ?r = c"
    "r_role r' = FOLLOWER \<or> r_curr_term r' = r_curr_term ?r \<and> r_role r' = r_role ?r \<and> r_votes r' = r_votes ?r"
    using eff(4) id c g by auto
  show "vs_term res = vq_term req" by (rule e(1))
  show nc: "new_calls v ?r r' = []" using e(5) by (simp add: new_calls_def)
  have ok: "member_ok ids v r'" using eff(1) parts(1) v id c by (simp add: inv_servers_def)
  have s: "settles ?r r'" using e by (auto simp: settles_def)
  have old: "(v', t, d) \<in> s_grants \<sigma> \<Longrightarrow> v' \<in> ids \<and> t \<le> r_curr_term (s_server \<sigma> v') \<and>
        (t = r_curr_term (s_server \<sigma> v') \<longrightarrow> r_voted_for (s_server \<sigma> v') = d) \<and> good_id d" for v' t d
    using parts(3) by (auto simp: inv_grants_def)
  have here: "d = c" if "(v, vq_term req, d) \<in> s_grants \<sigma>" for d
    using old [OF that] e(4,6) by (auto simp: good_id_def)
  have at: "r_voted_for r' = d" if "(v, t, d) \<in> s_grants \<sigma>" "t = r_curr_term r'" for t d
    using that here e(2,3) by auto
  have "inv_grants ids ?\<sigma>"
    unfolding inv_grants_def
  proof (intro conjI)
    show "\<forall>(v', t, d) \<in> s_grants ?\<sigma>. v' \<in> ids \<and> t \<le> r_curr_term (s_server ?\<sigma> v') \<and>
        (t = r_curr_term (s_server ?\<sigma> v') \<longrightarrow> r_voted_for (s_server ?\<sigma> v') = d) \<and> good_id d"
      using e(2,3,4) v id old at by (fastforce dest: old)
    show "\<forall>v t d d'. (v, t, d) \<in> s_grants ?\<sigma> \<longrightarrow> (v, t, d') \<in> s_grants ?\<sigma> \<longrightarrow> d = d'"
      using parts(3) here by (auto simp: inv_grants_def)
  qed (use parts(3) in \<open>auto simp: inv_grants_def\<close>)
  moreover have "inv_roles ids ?\<sigma>" by (rule inv_roles_settles [OF parts(4) s v]) auto
  moreover have "inv_calls ids ?\<sigma>" by (rule inv_calls_settles [OF parts(2) s]) (simp_all add: nc)
  moreover have "inv_servers ids ?\<sigma>" by (rule inv_servers_update [OF parts(1) ok]) simp
  ultimately show "sys_inv ids ?\<sigma>" by (simp add: sys_inv_def)
qed

text \<open>A vote is counted, and may be the one that makes a majority.\<close>

lemma sys_inv_counted:
  assumes inv: "sys_inv ids \<sigma>" and c: "c \<in> ids" and a: "s_answered \<sigma> = xs @ ((c, v, req), res) # ys"
    and g: "vs_vote_granted res" and run: "on_request_vote w (Some res) (s_server \<sigma> c) = Some r'"
  shows "sys_inv ids (update c r' (\<sigma>\<lparr>s_answered := xs @ ys, s_counted := (c, vq_term req, v) # s_counted \<sigma>\<rparr>))"
proof -
  let ?r = "s_server \<sigma> c" and ?k = "(c, vq_term req, v)"
  define \<sigma>1 where "\<sigma>1 = \<sigma>\<lparr>s_answered := xs @ ys, s_counted := ?k # s_counted \<sigma>\<rparr>"
  from inv have parts: "inv_servers ids \<sigma>" "inv_calls ids \<sigma>" "inv_grants ids \<sigma>" "inv_roles ids \<sigma>"
    by (auto simp: sys_inv_def)
  have s1: "s_server \<sigma>1 = s_server \<sigma>" by (simp add: \<sigma>1_def)
  have gr: "(v, vq_term req, c) \<in> s_grants \<sigma>" "vs_term res = vq_term req"
    using parts(3) a g by (auto simp: inv_grants_def)
  have inv1: "sys_inv ids \<sigma>1"
    by (rule sys_inv_calls [OF inv])
      (use parts(2,3) a gr in \<open>auto simp: \<sigma>1_def inv_calls_def inv_grants_def keys_def key_def counted_for_def\<close>)
  then have parts1: "inv_servers ids \<sigma>1" "inv_calls ids \<sigma>1" "inv_grants ids \<sigma>1" "inv_roles ids \<sigma>1"
    by (auto simp: sys_inv_def)
  have ok: "member_ok ids c r'" using on_request_vote_effect(1) [OF run] parts(1) c by (simp add: inv_servers_def)
  consider "quiet ?r r' \<or> raised ?r r'"
    | "r_role ?r = CANDIDATE" "r_curr_term ?r \<le> vq_term req" "r_curr_term r' = r_curr_term ?r" "r_voted_for r' = r_voted_for ?r"
      "ballots r' = ballots ?r" "r_votes r' = r_votes ?r + 1"
      "r_role r' = CANDIDATE \<or> r_role r' = LEADER \<and> cluster_size ?r div 2 < r_votes r'"
    using on_request_vote_effect(2) [OF run] gr(2) by auto
  then have "sys_inv ids (update c r' \<sigma>1)"
  proof cases
    case 1
    then show ?thesis using sys_inv_settles(1) [OF inv1 c ok] by (simp add: s1)
  next
    case 2
    have key: "key_ok ids (s_server \<sigma>1) k" if "k \<in> set (keys \<sigma>1)" for k using that parts1(2) by (simp add: inv_calls_def)
    have k: "vq_term req \<le> r_curr_term ?r" using key [of ?k] by (auto simp: keys_def \<sigma>1_def key_ok_def)
    then have t: "vq_term req = r_curr_term ?r" using 2(2) by simp
    let ?\<sigma> = "update c r' \<sigma>1" and ?T = "r_curr_term ?r"
    have same: "s_grants ?\<sigma> = s_grants \<sigma>" "s_pending ?\<sigma> = s_pending \<sigma>" "counted_for d u ?\<sigma> = counted_for d u \<sigma>1" for d u
      using 2(3,5) by (auto simp: update_def Let_def \<sigma>1_def new_calls_def counted_for_def)
    have "counted_for c ?T \<sigma>1 = v # counted_for c ?T \<sigma>" by (simp add: counted_for_def \<sigma>1_def t)
    moreover have self: "(c, ?T, c) \<in> s_grants \<sigma>" "r_votes ?r \<le> 1 + length (counted_for c ?T \<sigma>)"
      using parts(4) c 2(1) by (auto simp: inv_roles_def)
    ultimately have votes: "r_votes r' \<le> 1 + length (counted_for c ?T \<sigma>1)" using 2(6) by simp
    have cs: "cluster_size ?r = card ids" using member_ok_size parts(1) c by (auto simp: inv_servers_def)
    have won: "\<exists>Q. majority ids Q \<and> (\<forall>v \<in> Q. (v, ?T, c) \<in> s_grants \<sigma>)" if "r_role r' = LEADER"
    proof -
      let ?C = "counted_for c ?T \<sigma>1"
      have mem: "(c, ?T, u) \<in> set (s_counted \<sigma>1)" if "u \<in> set ?C" for u using that by (auto simp: counted_for_def)
      have "distinct (s_counted \<sigma>1)" using parts1(2) by (simp add: inv_calls_def keys_def)
      then have "distinct ?C" by (auto simp: counted_for_def distinct_map inj_on_def)
      moreover have "u \<in> ids \<and> u \<noteq> c" if "u \<in> set ?C" for u
        using key [of "(c, ?T, u)"] mem [OF that] by (auto simp: keys_def key_ok_def)
      ultimately have "card (insert c (set ?C)) = 1 + length ?C" "insert c (set ?C) \<subseteq> ids"
        using c by (auto simp: distinct_card card_insert_if)
      moreover have "card ids div 2 < r_votes r'" using 2(7) that cs by auto
      moreover have "finite ids" using parts(1) by (simp add: inv_servers_def)
      ultimately have "majority ids (insert c (set ?C))" using votes by (simp add: majority_def)
      moreover have "(u, ?T, c) \<in> s_grants \<sigma>" if "u \<in> set ?C" for u
        using mem [OF that] parts1(3) by (auto simp: inv_grants_def \<sigma>1_def)
      ultimately show ?thesis using self(1) by blast
    qed
    have "inv_roles ids ?\<sigma>"
      unfolding inv_roles_def same
    proof (intro conjI)
      show "\<forall>j \<in> ids. r_role (s_server ?\<sigma> j) \<noteq> FOLLOWER \<longrightarrow> (j, r_curr_term (s_server ?\<sigma> j), j) \<in> s_grants \<sigma> \<and>
          r_votes (s_server ?\<sigma> j) \<le> 1 + length (counted_for j (r_curr_term (s_server ?\<sigma> j)) \<sigma>1)"
        using parts1(4) votes self(1) 2(3) by (auto simp: inv_roles_def s1 \<sigma>1_def)
      show "\<forall>j \<in> ids. r_role (s_server ?\<sigma> j) = LEADER \<longrightarrow> (r_curr_term (s_server ?\<sigma> j), j) \<in> s_leaders ?\<sigma>"
        using parts1(4) by (auto simp: inv_roles_def)
      show "\<forall>(u, j) \<in> s_leaders ?\<sigma>. j \<in> ids \<and> (\<exists>Q. majority ids Q \<and> (\<forall>v \<in> Q. (v, u, j) \<in> s_grants \<sigma>))"
        using parts(4) won c 2(3) unfolding inv_roles_def by (auto simp: \<sigma>1_def split: if_splits)
    qed
    moreover have "inv_grants ids ?\<sigma>"
      by (rule inv_grants_mono [OF parts1(3)]) (use 2(3,4) same(1) in \<open>simp_all add: s1\<close>, simp add: \<sigma>1_def)
    moreover have "inv_calls ids ?\<sigma>"
    proof -
      have "new_calls c ?r r' = []" using 2(5) by (simp add: new_calls_def)
      then have "keys ?\<sigma> = keys \<sigma>1" by (simp add: keys_def s1)
      then show ?thesis using parts1(2) 2(3) same(2) by (auto simp: inv_calls_def \<sigma>1_def intro!: key_ok_mono)
    qed
    moreover have "inv_servers ids ?\<sigma>" by (rule inv_servers_update [OF parts1(1) ok]) simp
    ultimately show ?thesis by (simp add: sys_inv_def)
  qed
  then show ?thesis by (simp add: \<sigma>1_def)
qed

section \<open>Election safety\<close>

lemma sys_inv_election:
  assumes "election_step ids \<sigma> \<sigma>'" and inv: "sys_inv ids \<sigma>"
  shows "sys_inv ids \<sigma>'"
  using assms(1)
proof cases
  have srv: "member_ok ids i (s_server \<sigma> i)" "good_id i" if "i \<in> ids" for i
    using inv that by (auto simp: sys_inv_def inv_servers_def)
  {
    case (Timeout i w ec r')
    then show ?thesis using sys_inv_may_elect [OF inv] on_election_timeout_may srv by blast
  next
    case (Heartbeat i w ec r')
    then have f: "frame (s_server \<sigma> i) r'"
      using frame_append_entries by (auto simp: on_heartbeat_timeout_def split: if_splits)
    then show ?thesis
      using sys_inv_settles(1) [OF inv] Heartbeat srv frame_quiet [OF f] member_ok_frame [OF f] by blast
  next
    case (Timeout_now i w q res r')
    then show ?thesis using sys_inv_may_elect [OF inv] rpc_timeout_now_may srv by blast
  next
    case (Pre_vote i w q res r')
    then have "r' = s_server \<sigma> i" by (auto simp: rpc_pre_vote_def Let_def split: if_splits)
    then show ?thesis using sys_inv_settles(1) [OF inv] Pre_vote srv frame_quiet [OF frame_refl] by blast
  next
    case (Pre_vote_answer i w ans r')
    then show ?thesis using sys_inv_may_elect [OF inv] on_pre_vote_may srv by blast
  next
    case (Vote v xs c req ys res r')
    have call: "vq_candidate_id req = c" "c \<in> ids"
      using inv Vote(3) by (auto simp: sys_inv_def inv_calls_def call_ok_def)
    then have id: "good_id (vq_candidate_id req)" using srv by simp
    show ?thesis
    proof (cases "vs_vote_granted res")
      case True
      note g = sys_inv_granted [OF inv Vote(2,3,4) True]
      have "sys_inv ids (((update v r' \<sigma>)\<lparr>s_grants := s_grants \<sigma> \<union> {(v, vq_term req, c)}\<rparr>)
          \<lparr>s_pending := xs @ ys, s_answered := ((c, v, req), res) # s_answered \<sigma>\<rparr>)"
        using sys_inv_handled [OF g(1), of xs c v req ys res] Vote(3) g(2,3) by simp
      moreover have "\<sigma>' = ((update v r' \<sigma>)\<lparr>s_grants := s_grants \<sigma> \<union> {(v, vq_term req, c)}\<rparr>)
          \<lparr>s_pending := xs @ ys, s_answered := ((c, v, req), res) # s_answered \<sigma>\<rparr>"
        unfolding Vote(1) by (rule sys.equality) (use True g call in \<open>simp_all add: update_def Let_def\<close>)
      ultimately show ?thesis by simp
    next
      case False
      let ?\<sigma> = "\<sigma>\<lparr>s_pending := xs @ ys, s_answered := ((c, v, req), res) # s_answered \<sigma>\<rparr>"
      have inv': "sys_inv ids ?\<sigma>" using sys_inv_handled [OF inv Vote(3)] False by simp
      note e = rpc_request_vote_effect [OF Vote(4) id]
      have "sys_inv ids (update v r' ?\<sigma>)" "s_grants (update v r' ?\<sigma>) = s_grants ?\<sigma>"
        using sys_inv_settles [OF inv' Vote(2), of r'] e(1) e(3) [OF False] srv Vote(2) by auto
      moreover have "\<sigma>' = update v r' ?\<sigma>"
        unfolding Vote(1) by (rule sys.equality) (use False calculation(2) in simp_all)
      ultimately show ?thesis by simp
    qed
  next
    case (Vote_answer c xs v req res ys w r')
    show ?thesis
    proof (cases "vs_vote_granted res")
      case True
      then show ?thesis using sys_inv_counted [OF inv Vote_answer(2,3) True Vote_answer(4)] Vote_answer(1) by simp
    next
      case False
      have inv': "sys_inv ids (\<sigma>\<lparr>s_answered := xs @ ys\<rparr>)"
        by (rule sys_inv_calls [OF inv])
          (use inv Vote_answer(3) in \<open>auto simp: sys_inv_def inv_calls_def inv_grants_def keys_def counted_for_def\<close>)
      have "quiet (s_server \<sigma> c) r' \<or> raised (s_server \<sigma> c) r'" "member_ok ids c r'"
        using on_request_vote_effect [OF Vote_answer(4)] False srv Vote_answer(2) by auto
      then show ?thesis using sys_inv_settles(1) [OF inv' Vote_answer(2), of r'] Vote_answer(1) False by simp
    qed
  next
    case (Lost xs x ys)
    show ?thesis unfolding Lost(1)
      by (rule sys_inv_calls [OF inv])
        (use inv Lost(2) in \<open>auto simp: sys_inv_def inv_calls_def inv_grants_def keys_def counted_for_def\<close>)
  next
    case (Lost_answer xs x ys)
    show ?thesis unfolding Lost_answer(1)
      by (rule sys_inv_calls [OF inv])
        (use inv Lost_answer(2) in \<open>auto simp: sys_inv_def inv_calls_def inv_grants_def keys_def counted_for_def\<close>)
  }
qed

lemma sys_inv_step: "sys_step ids \<sigma> \<sigma>' \<Longrightarrow> sys_inv ids \<sigma> \<Longrightarrow> sys_inv ids \<sigma>'"
  by (induction rule: sys_step.induct) (auto intro: sys_inv_election sys_inv_settles(1))

lemma sys_inv_reachable: "reachable ids \<sigma> \<Longrightarrow> sys_inv ids \<sigma>"
  by (induction rule: reachable.induct) (auto intro: sys_inv_start sys_inv_step)

lemma unique_leader:
  assumes "reachable ids \<sigma>" and "(t, i) \<in> s_leaders \<sigma>" and "(t, j) \<in> s_leaders \<sigma>"
  shows "i = j"
proof -
  from sys_inv_reachable [OF assms(1)] have inv: "inv_grants ids \<sigma>" "inv_roles ids \<sigma>"
    by (auto simp: sys_inv_def)
  obtain A where A: "majority ids A" "\<And>v. v \<in> A \<Longrightarrow> (v, t, i) \<in> s_grants \<sigma>"
    using inv(2) assms(2) by (fastforce simp: inv_roles_def)
  obtain B where B: "majority ids B" "\<And>v. v \<in> B \<Longrightarrow> (v, t, j) \<in> s_grants \<sigma>"
    using inv(2) assms(3) by (fastforce simp: inv_roles_def)
  show ?thesis
    by (rule majorities.unique_winner [OF A(1) B(1), where vote = "\<lambda>v c. (v, t, c) \<in> s_grants \<sigma>"])
      (use A(2) B(2) inv(1) in \<open>auto simp: inv_grants_def\<close>)
qed

lemma one_leader_per_term:
  assumes "reachable ids \<sigma>" and "i \<in> ids" and "j \<in> ids"
    and "r_role (s_server \<sigma> i) = LEADER" and "r_role (s_server \<sigma> j) = LEADER"
    and "r_curr_term (s_server \<sigma> i) = r_curr_term (s_server \<sigma> j)"
  shows "i = j"
proof -
  from sys_inv_reachable [OF assms(1)] have "inv_roles ids \<sigma>" by (simp add: sys_inv_def)
  then have "(r_curr_term (s_server \<sigma> i), i) \<in> s_leaders \<sigma>" "(r_curr_term (s_server \<sigma> j), j) \<in> s_leaders \<sigma>"
    using assms by (auto simp: inv_roles_def)
  with assms(1,6) show ?thesis by (auto intro: unique_leader)
qed

end
