(* ===== verification/Demo_Cluster.thy ===== *)
theory Demo_Cluster
  imports Demo Election_Safety
begin

text \<open>
  A cluster of three servers on the log of a first boot, and a run in which the first of them times
  out, passes the pre-vote, asks for votes, gets the one of the second and becomes the leader.
\<close>

definition demo_world :: world where
  "demo_world = \<lparr>w_os = demo_os, w_now = 1000, w_kind = Map.empty, w_perms = \<lambda>_. 0, w_iterate = \<lambda>_. [],
     w_relative = \<lambda>p _. p, w_parent = \<lambda>_. []\<rparr>"

definition demo_node :: "string \<Rightarrow> node" where
  "demo_node h = \<lparr>n_id = h @ '':1'', n_host = h, n_port = ''1'', n_alive = False, n_next_index = 1, n_match_index = 0,
     n_transfer_leader_to = False, n_transfer_data_to = False\<rparr>"

definition demo_raft :: "string \<Rightarrow> logger \<Rightarrow> raft" where
  "demo_raft i l = \<lparr>r_self_id = i, r_interface_address = ''a'', r_rpc_host = [], r_rpc_port = ''1'',
     r_http_host = [], r_http_port = ''2026'', r_inited = True, r_started = True, r_started_at = 0, r_log = l, r_curr_term = 0,
     r_voted_for = [], r_role = FOLLOWER, r_leader = [], r_commit_index = 0, r_last_applied = 0, r_votes = 0,
     r_pre_votes_granted = 0, r_pre_votes_refused = 0,
     r_cluster = [(''a:1'', 0), (''b:1'', 1), (''c:1'', 2)], r_order = rev,
     r_nodes = [0 \<mapsto> demo_node ''a'', 1 \<mapsto> demo_node ''b'', 2 \<mapsto> demo_node ''c''], r_fresh = 3,
     r_recfg = None, r_transfer_leader_to = None, r_transfer_reply_to = None,
     r_replies = \<lambda>_. \<lparr>h_ready = True, h_body = [], h_status = 200, h_type = [], h_keep_alive = True\<rparr>,
     r_pre_vote_id = 0, r_timeout_now_id = 0, r_request_vote_id = 0, r_append_entries_id = 0,
     r_data_transfer_id = 0, r_done_transfer_id = 0, r_last_heartbeat = 0, r_min_election_timeout = 150, r_max_election_timeout = 300,
     r_server_catch_up_rounds = 10, r_election_rpc_timeout = 70, r_heartbeat_rate = 80,
     r_heartbeat_rpc_timeout = 70, r_transfer_rpc_timeout = 0, r_snapshot_rate = 120, r_log_compaction_enabled = False, r_path = [], r_parent = [], r_last = [],
     r_iter = [], r_fin = None, r_gcount = 0, r_rpc_last = [], r_fout = None,
     r_log_committed_queue = [], r_data_transfer_queue = [], r_out = []\<rparr>"

definition demo_ids :: "string set" where
  "demo_ids = {''a:1'', ''b:1'', ''c:1''}"

lemma demo_log_reads [simp]:
  "last_entry_index demo_log = 0" "last_entry_term demo_log = 0" "get_entry demo_log 0 = Some log_entry_sentry"
  using rep_last_entry_index [OF demo_log(2)] rep_get [OF demo_log(2)] by (auto simp: al_get_def al_last_term_def)

lemma demo_entries_from [simp]: "entries_from demo_log (Suc 0) = []"
  by (simp add: entries_from.simps)

lemma demo_member_ok [simp]: "member_ok demo_ids i (demo_raft i l)"
  by (auto simp: member_ok_def demo_ids_def demo_raft_def peer_names_def members_def peer_name_def demo_node_def)

lemma demo_good_id: "i \<in> demo_ids \<Longrightarrow> good_id i"
  by (auto simp: demo_ids_def good_id_def)

section \<open>The run\<close>

text \<open>The three servers have been started in term 1, on logs with the entry that lists them.\<close>

definition demo_server :: "string \<Rightarrow> raft" where
  "demo_server i = (demo_raft i demo_log3)\<lparr>r_curr_term := 1\<rparr>"

lemma demo_log3_reads [simp]:
  "last_entry_index demo_log3 = 1" "last_entry_term demo_log3 = 1" "get_entry demo_log3 1 = Some demo_members_entry"
  "get_entry demo_log3 (Suc 0) = Some demo_members_entry" "entries_from demo_log3 2 = []" "entries_from demo_log3 (Suc (Suc 0)) = []"
proof -
  show "last_entry_index demo_log3 = 1" "last_entry_term demo_log3 = 1" "get_entry demo_log3 1 = Some demo_members_entry"
    "get_entry demo_log3 (Suc 0) = Some demo_members_entry"
    using rep_last_entry_index [OF demo_log3(1)] rep_get [OF demo_log3(1)] by (auto simp: al_get_def al_last_term_def)
  then show "entries_from demo_log3 2 = []" "entries_from demo_log3 (Suc (Suc 0)) = []" by (simp_all add: entries_from.simps)
qed

lemma demo_server_ok [simp]: "member_ok demo_ids i (demo_server i)"
  using member_ok_cong [of "demo_server i" "demo_raft i demo_log3"] demo_member_ok [of i demo_log3]
  by (simp add: demo_server_def peer_names_def members_def)

definition demo_vote :: vote_res where
  "demo_vote = \<lparr>vs_term = 2, vs_vote_granted = True\<rparr>"

definition demo_req :: vote_req where
  "demo_req = \<lparr>vq_term = 2, vq_candidate_id = ''a:1'', vq_last_log_index = 1, vq_last_log_term = 1, vq_early = False\<rparr>"

lemma demo_messages [simp]:
  "vs_term demo_vote = 2" "vs_vote_granted demo_vote" "vq_term demo_req = 2" "vq_candidate_id demo_req = ''a:1''"
  by (simp_all add: demo_vote_def demo_req_def)

definition demo_asking :: raft where
  "demo_asking = the (on_election_timeout demo_world False (demo_server ''a:1''))"

definition demo_candidate :: raft where
  "demo_candidate = the (on_pre_vote demo_world (Some demo_vote) demo_asking)"

definition demo_voter :: raft where
  "demo_voter = snd (the (rpc_request_vote demo_req (demo_server ''b:1'')))"

definition demo_leader :: raft where
  "demo_leader = the (on_request_vote demo_world (Some demo_vote) demo_candidate)"

lemmas demo_run_simps = on_election_timeout_def pre_vote_def send_pre_vote_def to_peer_def make_task_def fill_vote_def
  on_pre_vote_def checkout_def leader_election_def request_vote_def step_up_def append_entries_def append_entries_to_def
  fill_append_entries_def rpc_request_vote_def step_down_def remove_heartbeat_timer_def reset_election_timer_def
  remove_election_timer_def reset_heartbeat_timer_def emit_def members_def cluster_size_def contains_def set_node_def
  log_newer_def c_string_def on_request_vote_def demo_vote_def demo_req_def

lemma demo_asking: "on_election_timeout demo_world False (demo_server ''a:1'') = Some demo_asking"
  by (simp add: demo_asking_def demo_run_simps demo_server_def demo_raft_def demo_node_def Let_def)

lemma demo_candidate: "on_pre_vote demo_world (Some demo_vote) demo_asking = Some demo_candidate"
  by (simp add: demo_candidate_def demo_asking_def demo_run_simps demo_server_def demo_raft_def demo_node_def Let_def)

lemma demo_candidate_ballots:
  "ballots demo_asking = []" "ballots demo_candidate = [(''b:1'', demo_req), (''c:1'', demo_req)]"
  "r_role demo_candidate = CANDIDATE" "r_curr_term demo_candidate = 2" "r_curr_term demo_asking = 1" "r_role demo_asking = FOLLOWER"
  by (simp_all add: ballots_def demo_candidate_def demo_asking_def demo_run_simps demo_server_def demo_raft_def demo_node_def Let_def)

lemma demo_voter: "rpc_request_vote demo_req (demo_server ''b:1'') = Some (demo_vote, demo_voter)"
  by (simp add: demo_voter_def demo_run_simps demo_server_def demo_raft_def demo_node_def Let_def)

lemma demo_leader: "on_request_vote demo_world (Some demo_vote) demo_candidate = Some demo_leader"
  "r_role demo_leader = LEADER" "r_curr_term demo_leader = 2"
  by (simp_all add: demo_leader_def demo_candidate_def demo_asking_def demo_run_simps demo_server_def demo_raft_def demo_node_def Let_def)

section \<open>The system\<close>

definition demo_sys0 :: sys where
  "demo_sys0 = \<lparr>s_server = \<lambda>i. demo_server i, s_pending = [], s_answered = [], s_grants = {}, s_counted = [], s_leaders = {}\<rparr>"

definition demo_sys2 :: sys where
  "demo_sys2 = update ''a:1'' demo_candidate (update ''a:1'' demo_asking demo_sys0)"

definition demo_sys3 :: sys where
  "demo_sys3 = (update ''b:1'' demo_voter (demo_sys2\<lparr>s_pending := [(''a:1'', ''c:1'', demo_req)],
     s_answered := [((''a:1'', ''b:1'', demo_req), demo_vote)]\<rparr>))
     \<lparr>s_grants := s_grants demo_sys2 \<union> {(''b:1'', 2, ''a:1'')}\<rparr>"

definition demo_sys4 :: sys where
  "demo_sys4 = update ''a:1'' demo_leader (demo_sys3\<lparr>s_answered := [], s_counted := [(''a:1'', 2, ''b:1'')]\<rparr>)"

lemma demo_sys0: "reachable demo_ids demo_sys0"
proof (rule reachable.start)
  have "r_role (demo_server i) = FOLLOWER" for i by (simp add: demo_server_def demo_raft_def)
  then show "sys_start demo_ids demo_sys0"
    by (auto simp: sys_start_def demo_sys0_def demo_good_id) (simp add: demo_ids_def)
qed

lemma demo_step1: "election_step demo_ids demo_sys0 (update ''a:1'' demo_asking demo_sys0)"
  by (rule election_step.Timeout) (use demo_asking in \<open>simp_all add: demo_sys0_def demo_ids_def\<close>)

lemma demo_step2: "election_step demo_ids (update ''a:1'' demo_asking demo_sys0) demo_sys2"
  unfolding demo_sys2_def by (rule election_step.Pre_vote_answer) (use demo_candidate in \<open>simp_all add: demo_ids_def\<close>)

lemma demo_sys2: "reachable demo_ids demo_sys2"
  "s_pending demo_sys2 = [(''a:1'', ''b:1'', demo_req), (''a:1'', ''c:1'', demo_req)]" "s_answered demo_sys2 = []"
  "s_server demo_sys2 ''b:1'' = demo_server ''b:1''" "s_server demo_sys2 ''a:1'' = demo_candidate" "s_counted demo_sys2 = []"
proof -
  show "reachable demo_ids demo_sys2" using demo_sys0 demo_step1 demo_step2 reachable_election by blast
  have "new_calls ''a:1'' (demo_server ''a:1'') demo_asking = []"
    using demo_candidate_ballots(1) by (simp add: new_calls_def)
  then show "s_pending demo_sys2 = [(''a:1'', ''b:1'', demo_req), (''a:1'', ''c:1'', demo_req)]"
    using demo_candidate_ballots(1,2) by (simp add: demo_sys2_def new_calls_def demo_sys0_def)
qed (simp_all add: demo_sys2_def demo_sys0_def)

lemma demo_step3: "election_step demo_ids demo_sys2 demo_sys3"
  using election_step.Vote [of "''b:1''" demo_ids demo_sys2 "[]" "''a:1''" demo_req "[(''a:1'', ''c:1'', demo_req)]" demo_vote demo_voter]
  by (simp add: demo_sys2 demo_voter demo_sys3_def demo_ids_def)

lemma demo_sys3: "reachable demo_ids demo_sys3" "s_server demo_sys3 ''a:1'' = demo_candidate"
  "s_answered demo_sys3 = [((''a:1'', ''b:1'', demo_req), demo_vote)]" "s_counted demo_sys3 = []"
  using reachable_election [OF demo_sys2(1) demo_step3] by (simp_all add: demo_sys3_def demo_sys2)

lemma demo_step4: "election_step demo_ids demo_sys3 demo_sys4"
  using election_step.Vote_answer [of "''a:1''" demo_ids demo_sys3 "[]" "''b:1''" demo_req demo_vote "[]" demo_world demo_leader]
  by (simp add: demo_sys3 demo_leader(1) demo_sys4_def demo_ids_def)

lemma demo_sys4: "reachable demo_ids demo_sys4" "(2, ''a:1'') \<in> s_leaders demo_sys4" "s_server demo_sys4 ''a:1'' = demo_leader"
  using reachable_election [OF demo_sys3(1) demo_step4] by (simp_all add: demo_sys4_def demo_leader(2,3))

end
