(* ===== verification/Raft_Transfer.thy ===== *)
theory Raft_Transfer
  imports Raft_Election
begin

text \<open>
  Data transfer: the leader sends the files of a snapshot, one chunk per call, to a server whose
  log it cannot continue (\<^verbatim>\<open>src/raft/raft_impl.hpp\<close>), and the handlers on the other side
  (\<^verbatim>\<open>src/raft/raft_rpc.hpp\<close>).  What is written to disk appears as actions.
\<close>

section \<open>Paths\<close>

definition is_directory :: "world \<Rightarrow> string \<Rightarrow> bool" where
  "is_directory w p \<longleftrightarrow> (case w_kind w p of Some (Directory _) \<Rightarrow> True | _ \<Rightarrow> False)"

definition is_regular_file :: "world \<Rightarrow> string \<Rightarrow> bool" where
  "is_regular_file w p \<longleftrightarrow> (case w_kind w p of Some (Regular _) \<Rightarrow> True | _ \<Rightarrow> False)"

definition file_contents :: "world \<Rightarrow> string \<Rightarrow> string" where
  "file_contents w p = (case w_kind w p of Some (Regular c) \<Rightarrow> c | _ \<Rightarrow> [])"

definition set_path :: "world \<Rightarrow> string \<Rightarrow> raft \<Rightarrow> raft" where
  "set_path w path r = r\<lparr>r_path := path, r_parent := w_parent w path\<rparr>"

definition relative :: "world \<Rightarrow> string \<Rightarrow> raft \<Rightarrow> string" where
  "relative w path r = (if r_parent r = [] then path else w_relative w path (r_parent r))"

definition init_transfer :: "world \<Rightarrow> raft \<Rightarrow> raft" where
  "init_transfer w r =
     r\<lparr>r_data_transfer_id := 0, r_done_transfer_id := 0,
       r_iter := (if is_directory w (r_path r) then w_iterate w (r_path r) else [])\<rparr>"

section \<open>Sending\<close>

definition buff_size :: nat where
  "buff_size = 65536"

definition set_last :: "world \<Rightarrow> string \<Rightarrow> data_req \<Rightarrow> raft \<Rightarrow> data_req \<times> raft" where
  "set_last w path req r = (req\<lparr>dq_perms := w_perms w path\<rparr>, r\<lparr>r_last := relative w path r\<rparr>)"

definition transfer_file :: "world \<Rightarrow> string \<Rightarrow> data_req \<Rightarrow> raft \<Rightarrow> data_req \<times> raft" where
  "transfer_file w path req r =
     (let (req1, r1) =
        (if length (file_contents w path) = 0 then set_last w path req r
         else
           let (req', r') = (case r_fin r of
                  Some _ \<Rightarrow> (req, r)
                | None \<Rightarrow> (case set_last w path req r of (req', r') \<Rightarrow> (req', r'\<lparr>r_fin := Some (path, 0)\<rparr>)))
           in case r_fin r' of
                None \<Rightarrow> (req', r')
              | Some (f, pos) \<Rightarrow>
                  let chunk = take buff_size (drop pos (file_contents w f))
                  in (req'\<lparr>dq_data := chunk\<rparr>,
                      r'\<lparr>r_fin := Some (f, pos + length chunk), r_gcount := length chunk\<rparr>))
      in (req1\<lparr>dq_name := r_last r1\<rparr>, r1))"

text \<open>Non-empty directories are skipped: their contents come next in the iteration.\<close>

fun skip_directories :: "world \<Rightarrow> string list \<Rightarrow> string list option" where
  "skip_directories w [] = None"
| "skip_directories w (p # ps) = (if w_kind w p = Some (Directory False) then skip_directories w ps else Some (p # ps))"

definition transfer :: "world \<Rightarrow> data_req \<Rightarrow> raft \<Rightarrow> (data_req \<times> raft) option" where
  "transfer w req r =
     do {
       ps \<leftarrow> skip_directories w (r_iter r);
       let path = hd ps; r1 = r\<lparr>r_iter := ps\<rparr>
       in if is_directory w path then
            case set_last w path req r1 of (req', r') \<Rightarrow> Some (req'\<lparr>dq_name := r_last r' @ ''/''\<rparr>, r')
          else if is_regular_file w path then Some (transfer_file w path req r1)
          else Some (req, r1)
     }"

definition do_data_transfer :: "world \<Rightarrow> addr \<Rightarrow> raft \<Rightarrow> raft option" where
  "do_data_transfer w a r =
     (if r_role r \<noteq> LEADER then Some r
      else do {
        n \<leftarrow> node_at r a;
        if r_iter r = [] \<and> newly r a \<and> w_kind w (r_path r) = None \<and> \<not> n_transfer_data_to n then append_entries_to a r
        else
          let i = r_data_transfer_id r + 1;
              r1 = r\<lparr>r_data_transfer_id := i\<rparr>;
              req = fill_data r1 i;
              r2 = (if i = 1 then set_node a (\<lambda>n. n\<lparr>n_transfer_data_to := True,
                      n_next_index := last_entry_index (r_log r1) + 1\<rparr>) r1 else r1)
          in do {
            (req', r3) \<leftarrow>
              (if r_iter r2 \<noteq> [] then transfer w req r2
               else if is_regular_file w (r_path r2) then Some (transfer_file w (r_path r2) req r2)
               else if is_directory w (r_path r2) then
                 case set_last w (r_path r2) req r2 of (req', r') \<Rightarrow> Some (req'\<lparr>dq_name := r_last r' @ ''/''\<rparr>, r')
               else Some (req, r2));
            t \<leftarrow> make_task r3 a i;
            Some (emit (Data_Transfer t req') r3)
          }
      })"

definition do_data_transfer_to :: "world \<Rightarrow> string \<Rightarrow> string \<Rightarrow> raft \<Rightarrow> raft option" where
  "do_data_transfer_to w address path r =
     (if r_role r \<noteq> LEADER then Some r
      else case map_of (r_cluster r) address of
        None \<Rightarrow> Some r
      | Some a \<Rightarrow> do_data_transfer w a (init_transfer w (set_path w path r)))"

definition do_done_transfer :: "addr \<Rightarrow> raft \<Rightarrow> raft option" where
  "do_done_transfer a r =
     (let i = r_done_transfer_id r + 1; r1 = r\<lparr>r_done_transfer_id := i\<rparr>
      in map_option (\<lambda>t. emit (Done_Transfer t ((fill_done r1 i)\<lparr>nq_name := r_last r1\<rparr>)) r1) (make_task r1 a i))"

text \<open>\<open>eof\<close>: the last read was short, or the file is exactly one buffer long.\<close>

definition at_eof :: "world \<Rightarrow> string \<Rightarrow> raft \<Rightarrow> bool" where
  "at_eof w path r \<longleftrightarrow> r_gcount r \<noteq> buff_size \<or> length (file_contents w path) = buff_size"

definition advance_transfer :: "world \<Rightarrow> raft \<Rightarrow> raft" where
  "advance_transfer w r =
     (case r_iter r of
        [] \<Rightarrow> r
      | path # ps \<Rightarrow>
          if is_directory w path then r\<lparr>r_iter := ps\<rparr>
          else if is_regular_file w path \<and> at_eof w path r then r\<lparr>r_iter := ps, r_fin := None\<rparr>
          else r)"

definition on_data_transfer :: "world \<Rightarrow> task \<Rightarrow> data_res option \<Rightarrow> raft \<Rightarrow> raft option" where
  "on_data_transfer w t res r =
     (let a = t_node t in
      case res of
        None \<Rightarrow> if newly r a then do_data_transfer w a r else Some r
      | Some v \<Rightarrow>
          let r1 = advance_transfer w r in
          if ds_success v then
            if r_iter r1 = [] then
              if is_regular_file w (r_path r1) then
                if at_eof w (r_path r1) r1 then do_done_transfer a (r1\<lparr>r_fin := None\<rparr>)
                else do_data_transfer w a r1
              else do_done_transfer a r1
            else do_data_transfer w a r1
          else if ds_term v > r_curr_term r1 then
            do { n \<leftarrow> node_at r1 a; step_down (ds_term v) (n_id n) r1 }
          else Some r1)"

definition on_done_transfer :: "world \<Rightarrow> task \<Rightarrow> data_res option \<Rightarrow> raft \<Rightarrow> raft option" where
  "on_done_transfer w t res r =
     (let a = t_node t in
      case res of
        None \<Rightarrow> if newly r a then do_done_transfer a r else Some r
      | Some v \<Rightarrow>
          if ds_success v then
            do {
              _ \<leftarrow> node_at r a;
              append_entries_to a (set_node a (\<lambda>n. n\<lparr>n_transfer_data_to := False\<rparr>) (init_transfer w r))
            }
          else if ds_term v > r_curr_term r then
            do { n \<leftarrow> node_at r a; step_down (ds_term v) (n_id n) r }
          else Some r)"

section \<open>Receiving\<close>

definition data_result :: "raft \<Rightarrow> nat \<Rightarrow> bool \<Rightarrow> data_res" where
  "data_result r i ok = \<lparr>ds_term = r_curr_term r, ds_success = ok, ds_id = i\<rparr>"

definition first_slash :: "string \<Rightarrow> nat option" where
  "first_slash name = find_first_of name ''/'' 0"

text \<open>The first message of a transfer replaces the log by the point the leader compacted to.\<close>

definition install_snapshot :: "os \<Rightarrow> data_req \<Rightarrow> raft \<Rightarrow> raft option" where
  "install_snapshot os req r =
     do {
       (_, l1) \<leftarrow> chop os (last_index (r_log r) + 1) True (r_log r);
       let r1 = r\<lparr>r_log := l1, r_commit_index := dq_last_index req, r_last_applied := dq_last_index req\<rparr>;
           r2 = adjust_configuration (dq_last_config req) r1
       in do {
         (_, l2) \<leftarrow> copy_states os (make_states (dq_last_config req)) (dq_last_index req) (dq_last_term req) (r_log r2);
         Some (r2\<lparr>r_log := l2\<rparr>)
       }
     }"

text \<open>The part after the response has been sent: files and directories.\<close>

definition receive_file :: "world \<Rightarrow> data_req \<Rightarrow> raft \<Rightarrow> raft" where
  "receive_file w req r =
     (if dq_name req = [] then r
      else
        let is_dir = (last (dq_name req) = CHR ''/'');
            name = (if is_dir then butlast (dq_name req) else dq_name req);
            set_perms = (name \<noteq> r_rpc_last r);
            r1 = r\<lparr>r_rpc_last := name\<rparr>;
            r2 = (if is_dir then emit (Create_Directories name) r1
                  else
                    let r' = (if set_perms then
                                let parent = w_parent w name;
                                    r'' = (if parent \<noteq> [] then emit (Create_Directories parent) r1 else r1)
                                in r''\<lparr>r_fout := Some name\<rparr>
                              else r1)
                    in case r_fout r' of None \<Rightarrow> r' | Some f \<Rightarrow> emit (Write_File f (dq_data req)) r')
        in if set_perms then emit (Set_Permissions name (dq_perms req)) r2 else r2)"

definition rpc_data_transfer :: "world \<Rightarrow> data_req \<Rightarrow> raft \<Rightarrow> (data_res \<times> raft) option" where
  "rpc_data_transfer w req r =
     (if dq_term req < r_curr_term r then Some (data_result r (dq_id req) False, r)
      else do {
        r1 \<leftarrow> (if dq_term req > r_curr_term r
               then step_down (dq_term req) (dq_leader_id req) (r\<lparr>r_voted_for := []\<rparr>) else Some r);
        let r2 = r1\<lparr>r_role := FOLLOWER, r_leader := dq_leader_id req\<rparr>;
            name = dq_name req
        in do {
          r3 \<leftarrow> (if dq_id req = 1 then
                  do {
                    r' \<leftarrow> (if r_log_compaction_enabled r2 then install_snapshot (w_os w) req (remove_election_timer r2)
                           else Some (remove_election_timer r2));
                    Some (if name = [] then r'
                          else let p = (case first_slash name of None \<Rightarrow> length name - 1 | Some p \<Rightarrow> p)
                               in emit (Transfer_Callback (take (p + 1) name) True) r')
                  }
                else Some r2);
          Some (data_result r3 (dq_id req) True, receive_file w req r3)
        }
      })"

definition rpc_done_transfer :: "world \<Rightarrow> done_req \<Rightarrow> raft \<Rightarrow> (data_res \<times> raft) option" where
  "rpc_done_transfer w req r =
     (if nq_term req < r_curr_term r then Some (data_result r (nq_id req) False, r)
      else do {
        r1 \<leftarrow> (if nq_term req > r_curr_term r
               then step_down (nq_term req) (nq_leader_id req) (r\<lparr>r_voted_for := []\<rparr>) else Some r);
        let r2 = r1\<lparr>r_role := FOLLOWER, r_leader := nq_leader_id req\<rparr>;
            name = nq_name req;
            r3 = (if name = [] then r2
                  else
                    let p = (case first_slash name of None \<Rightarrow> length name | Some p \<Rightarrow> p);
                        r' = set_path w (take p name) r2
                    in if w_kind w (r_path r') \<noteq> None
                       then r'\<lparr>r_data_transfer_queue := push False (r_data_transfer_queue r')\<rparr> else r')
        in Some (data_result r2 (nq_id req) True, r3\<lparr>r_fout := None, r_last_heartbeat := w_now w\<rparr>)
      })"

text \<open>\<open>apply_data_transfer\<close>: one round of the thread; \<^const>\<open>None\<close> when it waits or has stopped.\<close>

definition apply_data_transfer :: "world \<Rightarrow> raft \<Rightarrow> raft option" where
  "apply_data_transfer w r =
     (case pop (r_data_transfer_queue r) of
        None \<Rightarrow> None
      | Some (stop, q) \<Rightarrow>
          if stop then None
          else Some (emit (Transfer_Callback (relative w (r_path r) r) False) (r\<lparr>r_data_transfer_queue := q\<rparr>)))"

end
