(* ===== verification/Raft_Replication.thy ===== *)
theory Raft_Replication
  imports Raft_Transfer
begin

text \<open>
  Log replication: the follower's \<open>append_entries\<close> handler of \<^verbatim>\<open>src/raft/raft_rpc.hpp\<close>, the
  leader's answer handler, catching a new server up, and the client's \<open>append\<close> and \<open>drop\<close> of
  \<^verbatim>\<open>src/raft/raft_impl.hpp\<close>.
\<close>

section \<open>Entries from clients\<close>

definition make_next_entry :: "string \<Rightarrow> bool \<Rightarrow> raft \<Rightarrow> log_entry" where
  "make_next_entry data cfg r =
     make_entry (lg_cfg (r_log r)) data (last_entry_index (r_log r) + 1) (r_curr_term r) cfg"

text \<open>\<open>raft_impl::append\<close>: an index, 0 for an error, and the code of \<open>RC_NOT_LEADER\<close> as a \<^verbatim>\<open>uint64_t\<close>.\<close>

definition raft_append :: "os \<Rightarrow> string \<Rightarrow> raft \<Rightarrow> (nat \<times> raft) option" where
  "raft_append os data r =
     (if r_role r \<noteq> LEADER then Some (nat (rc_code RC_NOT_LEADER mod 2 ^ 64), r)
      else
        let entry = make_next_entry data False r
        in do {
          (rc, l) \<leftarrow> append os [entry] True (r_log r);
          Some (if rc \<noteq> RC_GOOD then 0 else e_index entry, r\<lparr>r_log := l\<rparr>)
        })"

definition raft_drop :: "os \<Rightarrow> nat \<Rightarrow> bool \<Rightarrow> raft \<Rightarrow> (rc_errno \<times> raft) option" where
  "raft_drop os index sync r = map_option (\<lambda>(rc, l). (rc, r\<lparr>r_log := l\<rparr>)) (drop_entries os index sync (r_log r))"

section \<open>The follower\<close>

text \<open>
  The first loop of the handler: skip what is there, chop at the first conflict.  The result is
  what is left to append, whether the configuration needs adjusting, and the log; \<^const>\<open>Inl\<close> when
  chopping failed.
\<close>

fun match_entries :: "os \<Rightarrow> LogEntry list \<Rightarrow> bool \<Rightarrow> logger \<Rightarrow> (logger + (LogEntry list \<times> bool \<times> logger)) option" where
  "match_entries os [] adj l = Some (Inr ([], adj, l))"
| "match_entries os (e # es) adj l =
     (let adj1 = (adj \<or> le_config e) in
      if entry_conflicted l (le_index e) (le_term e) then
        do {
          (rc, l1) \<leftarrow> chop os (le_index e) True l;
          Some (if rc \<noteq> RC_GOOD then Inl l1
                else Inr (e # es, adj1 \<or> lg_cfg l \<noteq> lg_cfg l1, l1))
        }
      else if has_entry l (le_index e) (le_term e) then match_entries os es adj1 l
      else Some (Inr (e # es, adj1, l)))"

text \<open>\<open>set_result\<close>: the match index is the last index of the responder's log.\<close>

definition append_result :: "raft \<Rightarrow> nat \<Rightarrow> bool \<Rightarrow> append_entries_res" where
  "append_result r i ok =
     \<lparr>as_term = r_curr_term r, as_success = ok, as_match_index = last_entry_index (r_log r), as_id = i\<rparr>"

text \<open>
  Storing the entries of a request: \<^const>\<open>Inl\<close> when the log failed.  All entries are built before
  the first is appended, so they carry the same configuration index.
\<close>

definition store_entries :: "os \<Rightarrow> LogEntry list \<Rightarrow> raft \<Rightarrow> (raft + (bool \<times> raft)) option" where
  "store_entries os es r =
     do {
       m \<leftarrow> match_entries os es False (r_log r);
       case m of
         Inl l \<Rightarrow> Some (Inl (r\<lparr>r_log := l\<rparr>))
       | Inr (rest, adj, l) \<Rightarrow>
           let v = map (\<lambda>e. make_entry (lg_cfg l) (le_data e) (le_index e) (le_term e) (le_config e)) rest;
               adj' = (adj \<or> (\<exists>e \<in> set rest. le_config e))
           in if v = [] then Some (Inr (adj', r\<lparr>r_log := l\<rparr>))
              else do {
                (rc, l') \<leftarrow> append os v True l;
                Some (if rc \<noteq> RC_GOOD then Inl (r\<lparr>r_log := l'\<rparr>) else Inr (adj', r\<lparr>r_log := l'\<rparr>))
              }
     }"

definition follow_commit :: "nat \<Rightarrow> raft \<Rightarrow> raft" where
  "follow_commit leader_commit r =
     (if leader_commit > r_commit_index r
      then log_committed (r\<lparr>r_commit_index := min leader_commit (last_entry_index (r_log r))\<rparr>) else r)"

text \<open>The answer, whether the call failed (\<open>ctl->SetFailed\<close>), and the new state.\<close>

definition rpc_append_entries :: "world \<Rightarrow> append_entries_req \<Rightarrow> raft \<Rightarrow> (append_entries_res \<times> bool \<times> raft) option" where
  "rpc_append_entries w req r =
     (if aq_term req < r_curr_term r then Some (append_result r (aq_id req) False, False, r)
      else do {
        r1 \<leftarrow> (if aq_term req > r_curr_term r
               then step_down (aq_term req) (aq_leader_id req) (r\<lparr>r_voted_for := []\<rparr>)
               else Some ((reset_election_timer r)\<lparr>r_role := FOLLOWER\<rparr>));
        if \<not> has_entry (r_log r1) (aq_prev_log_index req) (aq_prev_log_term req) then
          Some (append_result r1 (aq_id req) False, False, r1)
        else do {
          s \<leftarrow> (if aq_entries req \<noteq> [] then store_entries (w_os w) (aq_entries req) r1 else Some (Inr (False, r1)));
          case s of
            Inl r2 \<Rightarrow> Some (append_result r2 (aq_id req) False, True, r2)
          | Inr (adj, r2) \<Rightarrow>
              let r3 = follow_commit (aq_leader_commit req) r2;
                  r4 = r3\<lparr>r_leader := aq_leader_id req, r_last_heartbeat := w_now w\<rparr>;
                  r5 = (if adj then adjust_configuration (config (r_log r4)) r4 else r4)
              in Some (append_result r5 (aq_id req) True, False, r5)
        }
      })"

section \<open>The leader\<close>

definition handle_transfer_leader_to :: "addr \<Rightarrow> raft \<Rightarrow> raft option" where
  "handle_transfer_leader_to a r =
     do {
       n \<leftarrow> node_at r a;
       if n_match_index n = last_entry_index (r_log r) then timeout_now a r else Some r
     }"

text \<open>Deploying a new server: the cluster map gets the node, the log the configuration.\<close>

definition add_caught_up :: "os \<Rightarrow> reconfiguration \<Rightarrow> node \<Rightarrow> raft \<Rightarrow> (bool \<times> raft) option" where
  "add_caught_up os c n r =
     (if rc_entry_added c then Some (True, r)
      else
        let r1 = emplace (n_id n) (rc_node c) r
        in do {
          conf \<leftarrow> serialize_configuration r1;
          (rc, l) \<leftarrow> append os [make_next_entry conf True r1] True (r_log r1);
          if rc \<noteq> RC_GOOD then
            map_option (Pair False) (complete_reconfiguration ''ERROR'' (r1\<lparr>r_log := l\<rparr>))
          else Some (True, r1\<lparr>r_log := l, r_recfg := Some (c\<lparr>rc_entry_added := True\<rparr>)\<rparr>)
        })"

text \<open>\<^verbatim>\<open>server_catch_up_rounds_ - 1\<close> is computed in 32 bits.\<close>

definition handle_catch_up :: "world \<Rightarrow> raft \<Rightarrow> raft option" where
  "handle_catch_up w r =
     do {
       c \<leftarrow> r_recfg r;
       n \<leftarrow> node_at r (rc_node c);
       let msecs = w_now w - rc_last_round c
       in if rc_rounds c < (r_server_catch_up_rounds r + 2 ^ 32 - 1) mod 2 ^ 32 then
            append_entries_to (rc_node c)
              (r\<lparr>r_recfg := Some (c\<lparr>rc_rounds := rc_rounds c + 1, rc_last_round := w_now w\<rparr>)\<rparr>)
          else if msecs < r_min_election_timeout r \<and>
            sub64 (last_entry_index (r_log r)) (n_match_index n) \<le> 5 then
            do {
              (ok, r1) \<leftarrow> add_caught_up (w_os w) c n r;
              if ok then append_entries w r1 else Some r1
            }
          else complete_reconfiguration ''TIMEOUT'' r
     }"

definition on_append_entries :: "world \<Rightarrow> task \<Rightarrow> append_entries_res option \<Rightarrow> raft \<Rightarrow> raft option" where
  "on_append_entries w t res r =
     (let a = t_node t in
      case res of
        None \<Rightarrow> if newly r a then handle_catch_up w r else Some r
      | Some v \<Rightarrow>
          if r_role r \<noteq> LEADER then Some r
          else if as_success v then
            do {
              _ \<leftarrow> node_at r a;
              r1 \<leftarrow> adjust_commit_index (set_node a
                (\<lambda>n. n\<lparr>n_match_index := as_match_index v, n_next_index := add64 (as_match_index v) 1\<rparr>) r);
              n \<leftarrow> node_at r1 a;
              r2 \<leftarrow> (if n_transfer_leader_to n then handle_transfer_leader_to a r1 else Some r1);
              if newly r2 a then handle_catch_up w r2 else Some r2
            }
          else if as_term v > r_curr_term r then
            do { n \<leftarrow> node_at r a; step_down (as_term v) (n_id n) r }
          else do {
            _ \<leftarrow> node_at r a;
            let nxt = add64 (as_match_index v) 1;
                r1 = set_node a (\<lambda>n. n\<lparr>n_next_index := nxt\<rparr>) r
            in if lookup (r_log r1) nxt = None then
                 do_data_transfer w a (set_node a (\<lambda>n. n\<lparr>n_transfer_data_to := True\<rparr>) (init_transfer w r1))
               else append_entries_to a r1
          })"

section \<open>Applying committed entries\<close>

text \<open>
  \<open>apply_log_committed\<close>: the entries handed to the callback between two waits.  An index the
  log does not hold is a null pointer.
\<close>

function apply_committed :: "raft \<Rightarrow> (log_entry list \<times> raft) option" where
  "apply_committed r =
     (if r_last_applied r < r_commit_index r then
        let r1 = r\<lparr>r_last_applied := r_last_applied r + 1\<rparr>
        in do {
          entry \<leftarrow> get_entry (r_log r1) (r_last_applied r1);
          (es, r2) \<leftarrow> apply_committed r1;
          Some (if e_cfg entry then es else entry # es, r2)
        }
      else Some ([], r))"
  by pat_completeness auto
termination
  by (relation "measure (\<lambda>r. r_commit_index r - r_last_applied r)") auto

declare apply_committed.simps [simp del]

definition apply_log_committed :: "raft \<Rightarrow> (log_entry list \<times> raft) option" where
  "apply_log_committed r =
     (case pop (r_log_committed_queue r) of
        None \<Rightarrow> None
      | Some (stop, q) \<Rightarrow> if stop then None else apply_committed (r\<lparr>r_log_committed_queue := q\<rparr>))"

end
