(* ===== verification/Replication_Correct.thy ===== *)
theory Replication_Correct
  imports Raft_Replication
begin

text \<open>
  What replication does to the logs, stated on the abstract logs the byte-level logs represent:
  the follower's log after a request, the leader's request, and the commit index.
\<close>

section \<open>Entries a follower builds\<close>

definition built :: "nat \<Rightarrow> LogEntry list \<Rightarrow> log_entry list" where
  "built c es = map (\<lambda>e. make_entry c (le_data e) (le_index e) (le_term e) (le_config e)) es"

fun numbered :: "nat \<Rightarrow> LogEntry list \<Rightarrow> bool" where
  "numbered p [] = True"
| "numbered p (e # es) = (le_index e = p + 1 \<and> numbered (p + 1) es)"

definition sized :: "LogEntry list \<Rightarrow> bool" where
  "sized es \<longleftrightarrow> (\<forall>e \<in> set es. length (le_data e) < 2 ^ 59 \<and> le_index e < u64_bound \<and> le_term e < u64_bound)"

lemma length_built [simp]: "length (built c es) = length es"
  by (simp add: built_def)

lemma contiguous_built: "numbered p es \<Longrightarrow> contiguous p (built c es)"
  by (induction es arbitrary: p) (simp_all add: built_def)

lemma wf_built: "sized es \<Longrightarrow> list_all wf_entry (built c es)"
  by (auto simp: built_def list_all_iff sized_def intro!: wf_make_entry)

lemma built_nth:
  "k < length es \<Longrightarrow> built c es ! k =
     make_entry c (le_data (es ! k)) (le_index (es ! k)) (le_term (es ! k)) (le_config (es ! k))"
  by (simp add: built_def)

lemma wf_append_built:
  assumes "wf_alog a" and "cfg_link a c" and "numbered (al_last a) es" and "sized es"
    and "al_last a + length es < u64_bound"
  shows "wf_alog (al_append a (built c es))"
proof -
  have c: "c \<le> al_last a" "c < u64_bound" using assms(2,5) by (auto simp: cfg_link_def)
  have "cfg_chain (al_append a (built c es))"
    unfolding cfg_chain_def
  proof (intro allI impI)
    fix k assume k: "k < length (al_entries (al_append a (built c es)))" "e_cfg (al_entries (al_append a (built c es)) ! k)"
    show "prev_cfg (al_entries (al_append a (built c es)) ! k) \<le> al_index (al_append a (built c es)) + k \<and>
        cfg_link (al_append a (built c es)) (prev_cfg (al_entries (al_append a (built c es)) ! k))"
    proof (cases "k < length (al_entries a)")
      case True
      then have "al_entries (al_append a (built c es)) ! k = al_entries a ! k" by (simp add: nth_append)
      with k True assms(1) show ?thesis by (auto simp: wf_alog_def cfg_chain_def intro: cfg_link_append)
    next
      case False
      let ?j = "k - length (al_entries a)"
      have j: "?j < length es" using k(1) False by auto
      have "al_entries (al_append a (built c es)) ! k = built c es ! ?j" using False by (simp add: nth_append)
      then have prev: "length (le_data (es ! ?j)) + 56 \<le> u64_bound \<Longrightarrow> prev_cfg (al_entries (al_append a (built c es)) ! k) = c"
        using k(2) j c(2) by (simp add: built_nth prev_cfg_make_entry)
      have "length (le_data (es ! ?j)) < 2 ^ 59" using assms(4) nth_mem [OF j] by (simp add: sized_def)
      with prev show ?thesis using c(1) False cfg_link_append [OF assms(2)] by simp
    qed
  qed
  then show ?thesis
    using assms contiguous_built [OF assms(3)] wf_built [OF assms(4)]
    by (simp add: wf_alog_def contiguous_append)
qed

section \<open>Matching the entries of a request\<close>

text \<open>Entry \<open>e\<close> of a request is in the log, by index and term.\<close>

definition matches :: "alog \<Rightarrow> LogEntry \<Rightarrow> bool" where
  "matches a e \<longleftrightarrow> (\<exists>x. al_get a (le_index e) = Some x \<and> e_term x = le_term e)"

lemma al_chop_end [simp]: "al_chop a (Suc (al_last a)) = a"
  by (simp add: al_chop_def)

lemma al_last_chop: "al_index a < i \<Longrightarrow> i \<le> al_last a + 1 \<Longrightarrow> al_last (al_chop a i) = i - 1"
  by auto

lemma match_entries_result:
  assumes "live_rep os l a" and "numbered p es" and "al_index a \<le> p" and "p \<le> al_last a"
  shows "\<exists>pre rest adj' l'. match_entries os es adj l = Some (Inr (rest, adj', l')) \<and> es = pre @ rest \<and>
    (\<forall>e \<in> set pre. matches a e) \<and>
    (rest = [] \<longrightarrow> l' = l) \<and>
    (\<forall>e rest'. rest = e # rest' \<longrightarrow> \<not> matches a e \<and> al_index a < le_index e \<and> le_index e \<le> al_last a + 1 \<and>
       live_rep os l' (al_chop a (le_index e)) \<and> numbered (le_index e - 1) rest)"
  using assms(2-4)
proof (induction es arbitrary: p adj)
  case Nil
  then show ?case by simp
next
  case (Cons e es)
  have rep: "log_rep l a" using assms(1) by (simp add: live_rep_def)
  have i: "le_index e = p + 1" "numbered (p + 1) es" using Cons.prems(1) by auto
  note conf = rep_conflicted [OF rep, of "le_index e" "le_term e"] and has = rep_has_entry [OF rep, of "le_index e" "le_term e"]
  show ?case
  proof (cases "al_get a (le_index e)")
    case None
    then have "le_index e = al_last a + 1" using i Cons.prems(2,3) by (auto simp: al_get_def split: if_splits)
    moreover have "\<not> entry_conflicted l (le_index e) (le_term e)" "\<not> has_entry l (le_index e) (le_term e)"
      using conf has None i Cons.prems(2) by auto
    ultimately show ?thesis
      using assms(1) i None by - (rule exI [of _ "[]"], auto simp: Let_def matches_def)
  next
    case (Some x)
    then have r: "al_index a < le_index e" "le_index e \<le> al_last a"
      using i Cons.prems(2) by (auto simp: al_get_def split: if_splits)
    show ?thesis
    proof (cases "e_term x = le_term e")
      case True
      with Some conf has have c: "\<not> entry_conflicted l (le_index e) (le_term e)" "has_entry l (le_index e) (le_term e)" "matches a e"
        by (auto simp: matches_def)
      have "p + 1 \<le> al_last a" "al_index a \<le> p + 1" using r i by auto
      from Cons.IH [OF i(2) this(2,1), of "adj \<or> le_config e"] obtain pre rest adj' l' where
        IH: "match_entries os es (adj \<or> le_config e) l = Some (Inr (rest, adj', l'))" "es = pre @ rest"
          "\<forall>e \<in> set pre. matches a e" "rest = [] \<longrightarrow> l' = l"
          "\<forall>e rest'. rest = e # rest' \<longrightarrow> \<not> matches a e \<and> al_index a < le_index e \<and> le_index e \<le> al_last a + 1 \<and>
             live_rep os l' (al_chop a (le_index e)) \<and> numbered (le_index e - 1) rest"
        by blast
      show ?thesis
        using IH c by - (rule exI [of _ "e # pre"], rule exI [of _ rest], rule exI [of _ adj'], rule exI [of _ l'], simp add: Let_def del: numbered.simps)
    next
      case False
      with Some conf have c: "entry_conflicted l (le_index e) (le_term e)" "\<not> matches a e" by (auto simp: matches_def)
      obtain l' where l': "chop os (le_index e) True l = Some (RC_GOOD, l')" "live_rep os l' (al_chop a (le_index e))"
        using file_log.cut_good [OF assms(1) r, of True] by blast
      show ?thesis
        using c l' r i by - (rule exI [of _ "[]"], simp add: Let_def)
    qed
  qed
qed

section \<open>The follower's log after a request\<close>

text \<open>
  The part of a request that is stored: everything from the first entry the log does not hold.
\<close>

fun unmatched :: "alog \<Rightarrow> LogEntry list \<Rightarrow> LogEntry list" where
  "unmatched a [] = []"
| "unmatched a (e # es) = (if matches a e then unmatched a es else e # es)"

lemma unmatched_split: "\<forall>e \<in> set pre. matches a e \<Longrightarrow> rest = [] \<or> \<not> matches a (hd rest) \<Longrightarrow> unmatched a (pre @ rest) = rest"
proof (induction pre)
  case Nil
  then show ?case by (cases rest) auto
qed auto

definition merged :: "alog \<Rightarrow> LogEntry list \<Rightarrow> nat \<Rightarrow> alog" where
  "merged a es c =
     (case unmatched a es of [] \<Rightarrow> a | e # rest \<Rightarrow> al_append (al_chop a (le_index e)) (built c (e # rest)))"

lemma store_entries_result:
  assumes "live_rep os (r_log r) a" and "numbered p es" and "al_index a \<le> p" and "p \<le> al_last a"
    and "sized es" and "total (al_entries a) + total (built 0 es) < 2 ^ 59" and "p + length es < u64_bound"
  shows "\<exists>adj l c. store_entries os es r = Some (Inr (adj, r\<lparr>r_log := l\<rparr>)) \<and> live_rep os l (merged a es c)"
proof -
  obtain pre rest adj' l' where m: "match_entries os es False (r_log r) = Some (Inr (rest, adj', l'))" "es = pre @ rest"
    "\<forall>e \<in> set pre. matches a e" "rest = [] \<longrightarrow> l' = r_log r"
    and ne: "\<And>e rest'. rest = e # rest' \<Longrightarrow> \<not> matches a e \<and> al_index a < le_index e \<and> le_index e \<le> al_last a + 1 \<and>
       live_rep os l' (al_chop a (le_index e)) \<and> numbered (le_index e - 1) rest"
    using match_entries_result [OF assms(1-4), of False] by blast
  have "rest = [] \<or> \<not> matches a (hd rest)" using ne by (cases rest) auto
  then have un: "unmatched a es = rest" using m(2,3) unmatched_split by simp
  show ?thesis
  proof (cases rest)
    case Nil
    then have "store_entries os es r = Some (Inr (adj', r\<lparr>r_log := r_log r\<rparr>))" using m(1,4) by (simp add: store_entries_def)
    moreover have "merged a es 0 = a" using un Nil by (simp add: merged_def)
    ultimately show ?thesis using assms(1) by metis
  next
    case (Cons e rest')
    let ?a = "al_chop a (le_index e)" and ?v = "built (lg_cfg l') rest"
    note n = ne [OF Cons]
    have rep: "log_rep l' ?a" using n by (simp add: live_rep_def)
    note r = log_repD [OF rep]
    have sz: "sized rest" using assms(5) m(2) by (simp add: sized_def)
    have last: "al_last ?a = le_index e - 1" by (rule al_last_chop) (use n in auto)
    have "le_index e + length rest' = p + length es"
    proof -
      have "numbered q (xs @ x # ys) \<Longrightarrow> le_index x = q + length xs + 1" for q xs x ys
        by (induction xs arbitrary: q) auto
      from this [of p pre e rest'] have "le_index e = p + length pre + 1" using assms(2) m(2) Cons by simp
      then show ?thesis using m(2) Cons by simp
    qed
    then have b: "al_last ?a + length rest < u64_bound" using assms(7) last Cons n by simp
    have wf: "wf_alog (al_append ?a ?v)"
      using n last by (intro wf_append_built r(1,4) sz b) auto
    have tot: "total (built c es') = total (built 0 es')" for c es'
      by (simp add: total_def built_def comp_def)
    have "total (al_entries ?a) \<le> total (al_entries a)"
      using total_simps(3) [of "take (le_index e - al_index a - 1) (al_entries a)" "drop (le_index e - al_index a - 1) (al_entries a)"]
      by simp
    moreover have "total ?v \<le> total (built 0 es)"
      unfolding tot [of "lg_cfg l'"] using m(2) by (simp add: built_def)
    ultimately have ok: "alog_ok (al_append ?a ?v)"
      using wf assms(6) by (simp add: alog_ok_def)
    obtain l where l: "append os ?v True l' = Some (RC_GOOD, l)" "live_rep os l (al_append ?a ?v)"
      using file_log.app_good [OF _ ok, of os l' True] n by blast
    have "store_entries os es r = Some (Inr (adj' \<or> (\<exists>e \<in> set rest. le_config e), r\<lparr>r_log := l\<rparr>))"
      using m(1) l(1) Cons by (simp add: store_entries_def built_def)
    moreover have "merged a es (lg_cfg l') = al_append ?a ?v" using un Cons by (simp add: merged_def)
    ultimately show ?thesis using l(2) by metis
  qed
qed

text \<open>The merged log holds every entry of the request, keeps everything up to \<open>p\<close>, and never
  shrinks unless an entry conflicts.\<close>

lemma merged_reads:
  assumes "numbered p es" and "al_index a \<le> p" and "p \<le> al_last a"
  shows "i \<le> p \<Longrightarrow> al_get (merged a es c) i = al_get a i"
    and "\<forall>e \<in> set es. \<exists>x. al_get (merged a es c) (le_index e) = Some x \<and> e_term x = le_term e"
    and "p + length es \<le> al_last (merged a es c)"
    and "\<forall>e \<in> set es. matches a e \<Longrightarrow> merged a es c = a"
proof -
  show "\<forall>e \<in> set es. matches a e \<Longrightarrow> merged a es c = a"
    using unmatched_split [of es a "[]"] by (simp add: merged_def)
  have nth: "numbered q xs \<Longrightarrow> k < length xs \<Longrightarrow> le_index (xs ! k) = q + k + 1" for q xs k
    by (induction xs arbitrary: q k) (auto simp: nth_Cons split: nat.split)
  obtain pre rest where es: "es = pre @ rest" "\<forall>e \<in> set pre. matches a e" "rest = [] \<or> \<not> matches a (hd rest)"
    "unmatched a es = rest"
  proof -
    have "\<exists>pre rest. es = pre @ rest \<and> (\<forall>e \<in> set pre. matches a e) \<and> (rest = [] \<or> \<not> matches a (hd rest))"
      by (rule exI [of _ "takeWhile (matches a) es"], rule exI [of _ "dropWhile (matches a) es"])
        (use hd_dropWhile [of "matches a" es] in \<open>auto dest: set_takeWhileD\<close>)
    with that unmatched_split show thesis by blast
  qed
  have pre: "le_index (pre ! k) = p + k + 1" if "k < length pre" for k
    using nth [OF assms(1), of k] that es(1) by (simp add: nth_append)
  have inlog: "p + length pre \<le> al_last a"
  proof (cases pre rule: rev_cases)
    case (snoc xs x)
    then have "matches a x" "le_index x = p + length pre" using es(2) pre [of "length xs"] by auto
    then show ?thesis using snoc by (auto simp: matches_def al_get_def split: if_splits)
  qed (use assms(3) in simp)
  show "al_get (merged a es c) i = al_get a i" if "i \<le> p"
  proof (cases rest)
    case (Cons e rest')
    then have e: "le_index e = p + length pre + 1" using nth [OF assms(1), of "length pre"] es(1) by simp
    have "al_last (al_chop a (le_index e)) = p + length pre" using e inlog assms(2) by simp
    then show ?thesis
      using that assms(2,3) e Cons es(4) inlog
      by (simp add: merged_def al_get_append_old al_get_chop)
  qed (use es(4) in \<open>simp add: merged_def\<close>)
  show "p + length es \<le> al_last (merged a es c)"
  proof (cases rest)
    case (Cons e rest')
    then have e: "le_index e = p + length pre + 1" using nth [OF assms(1), of "length pre"] es(1) by simp
    then show ?thesis using Cons es(1,4) inlog assms(2) by (simp add: merged_def)
  qed (use es(1,4) inlog in \<open>simp add: merged_def\<close>)
  show "\<forall>e \<in> set es. \<exists>x. al_get (merged a es c) (le_index e) = Some x \<and> e_term x = le_term e"
  proof
    fix f assume "f \<in> set es"
    then consider "f \<in> set pre" | "f \<in> set rest" using es(1) by auto
    then show "\<exists>x. al_get (merged a es c) (le_index f) = Some x \<and> e_term x = le_term f"
    proof cases
      case 1
      then obtain k where k: "k < length pre" "f = pre ! k" by (auto simp: in_set_conv_nth)
      have m: "matches a f" using 1 es(2) by simp
      show ?thesis
      proof (cases rest)
        case (Cons e rest')
        then have e: "le_index e = p + length pre + 1" using nth [OF assms(1), of "length pre"] es(1) by simp
        have "le_index f < le_index e" using e k pre [OF k(1)] by simp
        moreover have "al_last (al_chop a (le_index e)) = p + length pre" using e inlog assms(2) by simp
        ultimately have "al_get (merged a es c) (le_index f) = al_get a (le_index f)"
          using Cons es(4) e inlog assms(2)
          by (simp add: merged_def al_get_append_old al_get_chop)
        then show ?thesis using m by (simp add: matches_def)
      qed (use m es(4) in \<open>auto simp: merged_def matches_def\<close>)
    next
      case 2
      then obtain k where k: "k < length rest" "f = rest ! k" by (auto simp: in_set_conv_nth)
      then obtain e rest' where Cons: "rest = e # rest'" by (cases rest) auto
      have e: "le_index e = p + length pre + 1" using nth [OF assms(1), of "length pre"] es(1) Cons by simp
      have f: "le_index f = p + length pre + k + 1"
        using nth [OF assms(1), of "length pre + k"] es(1) k by (simp add: nth_append)
      have "al_last (al_chop a (le_index e)) = p + length pre" using e inlog assms(2) by simp
      then have "al_get (merged a es c) (le_index f) = Some (built c rest ! k)"
        using al_get_append_new [of k "built c rest" "al_chop a (le_index e)"] k f Cons es(4)
        by (simp add: merged_def)
      then show ?thesis using k by (simp add: built_nth)
    qed
  qed
qed

section \<open>The merged log, entry by entry\<close>

text \<open>What a follower builds from an entry is that entry: index, term, text and configuration flag.\<close>

lemma to_LogEntry_sel [simp]:
  "le_term (to_LogEntry e) = e_term e" "le_index (to_LogEntry e) = e_index e" "le_data (to_LogEntry e) = str e"
  "le_config (to_LogEntry e) = e_cfg e"
  by (simp_all add: to_LogEntry_def)

lemma to_LogEntry_built: "sized es \<Longrightarrow> map to_LogEntry (built c es) = es"
  by (auto simp: built_def to_LogEntry_def sized_def str_make_entry intro!: map_idI)

text \<open>
  The first \<open>j\<close> entries of the request are there already and stay as they are; if that is not all of
  them, the log is cut at the next one and holds from there on exactly the entries of the request.
\<close>

definition takes :: "alog \<Rightarrow> LogEntry list \<Rightarrow> alog \<Rightarrow> nat \<Rightarrow> bool" where
  "takes a es b j \<longleftrightarrow> j \<le> length es \<and>
     (\<forall>m < j. matches a (es ! m) \<and> al_get b (le_index (es ! m)) = al_get a (le_index (es ! m))) \<and>
     (\<forall>m < length es. j \<le> m \<longrightarrow> map_option to_LogEntry (al_get b (le_index (es ! m))) = Some (es ! m)) \<and>
     (if j = length es then b = a else \<not> matches a (es ! j) \<and> al_last b = le_index (last es))"

lemma numbered_at: "numbered p es \<Longrightarrow> m < length es \<Longrightarrow> le_index (es ! m) = p + m + 1"
  by (induction es arbitrary: p m) (auto simp: nth_Cons split: nat.split)

lemma unmatched_drop: "unmatched a es = drop (length (takeWhile (matches a) es)) es"
  by (induction es) auto

lemma merged_takes:
  assumes "numbered p es" and "al_index a \<le> p" and "p \<le> al_last a" and "sized es"
  shows "takes a es (merged a es c) (length (takeWhile (matches a) es))"
proof -
  define j where "j = length (takeWhile (matches a) es)"
  have j: "j \<le> length es" by (simp add: j_def length_takeWhile_le)
  have mat: "matches a (es ! m)" if "m < j" for m
    using that takeWhile_nth [of m "matches a" es] nth_mem [of m "takeWhile (matches a) es"] set_takeWhileD unfolding j_def by fastforce
  have un: "unmatched a es = drop j es" by (simp add: unmatched_drop j_def)
  note idx = numbered_at [OF assms(1)]
  show ?thesis
  proof (cases "j = length es")
    case True
    then show ?thesis using un mat by (simp add: merged_def takes_def j_def [symmetric])
  next
    case False
    then have lt: "j < length es" using j by simp
    then have dr: "drop j es = es ! j # drop (Suc j) es" by (simp add: Cons_nth_drop_Suc)
    have inlog: "p + j \<le> al_last a"
    proof (cases j)
      case (Suc m)
      then have "le_index (es ! m) = p + j" "matches a (es ! m)" using idx [of m] lt mat [of m] by simp_all
      then show ?thesis using Suc by (auto simp: matches_def al_get_def split: if_splits)
    qed (use assms(3) in simp)
    let ?cut = "al_chop a (p + j + 1)"
    have b: "merged a es c = al_append ?cut (built c (drop j es))" using un dr idx [OF lt] by (simp add: merged_def)
    have cut: "al_last ?cut = p + j" using al_last_chop [of a "p + j + 1"] assms(2) inlog by simp
    have old: "al_get (merged a es c) (le_index (es ! m)) = al_get a (le_index (es ! m))" if "m < j" for m
      using that idx [of m] lt cut inlog assms(2) by (simp add: b al_get_append_old al_get_chop)
    have new: "map_option to_LogEntry (al_get (merged a es c) (le_index (es ! m))) = Some (es ! m)" if "m < length es" "j \<le> m" for m
    proof -
      have "al_get (merged a es c) (al_last ?cut + 1 + (m - j)) = Some (built c (drop j es) ! (m - j))"
        unfolding b by (rule al_get_append_new) (use that in simp)
      moreover have "al_last ?cut + 1 + (m - j) = le_index (es ! m)" using that idx [of m] cut by simp
      moreover have "sized (drop j es)" using assms(4) by (auto simp: sized_def dest: in_set_dropD)
      then have "map to_LogEntry (built c (drop j es)) ! (m - j) = drop j es ! (m - j)" by (simp only: to_LogEntry_built)
      then have "to_LogEntry (built c (drop j es) ! (m - j)) = es ! m" using that by simp
      ultimately show ?thesis by simp
    qed
    have "\<not> matches a (es ! j)" using lt nth_length_takeWhile [of "matches a" es] by (simp add: j_def)
    moreover have "le_index (last es) = p + length es" using idx [of "length es - 1"] lt by (cases es) (auto simp: last_conv_nth)
    then have "al_last (merged a es c) = le_index (last es)" using cut lt by (simp add: b)
    ultimately show ?thesis using old new mat j False by (simp add: takes_def j_def [symmetric])
  qed
qed

end
