(* ===== verification/Replication_Handlers.thy ===== *)
theory Replication_Handlers
  imports Replication_Correct Raft_Frame
begin

text \<open>
  The handlers of replication on represented logs: what a follower answers and stores, what a
  leader's request holds, and when the commit index moves.
\<close>

section \<open>Adjusting the configuration leaves the log alone\<close>

definition same_log :: "raft \<Rightarrow> raft \<Rightarrow> bool" where
  "same_log r r' \<longleftrightarrow> r_log r' = r_log r \<and> r_curr_term r' = r_curr_term r \<and> r_role r' = r_role r \<and>
     r_commit_index r' = r_commit_index r \<and> r_voted_for r' = r_voted_for r \<and> r_leader r' = r_leader r"

lemma same_log_trans: "same_log r1 r2 \<Longrightarrow> same_log r2 r3 \<Longrightarrow> same_log r1 r3"
  by (simp add: same_log_def)

lemma same_log_fold: "(\<And>x r. same_log r (f x r)) \<Longrightarrow> same_log r (fold f xs r)"
  by (induction xs arbitrary: r) (auto simp: same_log_def)

lemma same_log_add: "same_log r (add_missing s r)"
  by (auto simp: same_log_def add_missing_def make_node_def emplace_def Let_def split: prod.splits)

lemma same_log_erase: "same_log r (erase s r)"
  by (simp add: same_log_def erase_def Let_def)

lemma same_log_adjust: "same_log r (adjust_configuration s r)"
proof (cases "s = []")
  case False
  have step: "same_log r1 (if x \<in> A then r1 else erase x r1)" for x r1 A
    using same_log_erase by (simp add: same_log_def)
  show ?thesis
    using False same_log_trans [OF same_log_fold same_log_fold, where f2 = add_missing, OF same_log_add step]
    by (simp add: adjust_configuration_def Let_def)
qed (simp add: adjust_configuration_def same_log_def)

section \<open>The follower\<close>

text \<open>The previous entry of a request is there, at or above the compaction point.\<close>

definition has_prev :: "alog \<Rightarrow> append_entries_req \<Rightarrow> bool" where
  "has_prev a req \<longleftrightarrow> al_index a \<le> aq_prev_log_index req \<and>
     (case al_get a (aq_prev_log_index req) of
        Some e \<Rightarrow> e_term e = aq_prev_log_term req
      | None \<Rightarrow> aq_prev_log_index req = al_index a \<and> aq_prev_log_term req = al_term a)"

lemma has_prev_bounds: "has_prev a req \<Longrightarrow> aq_prev_log_index req \<le> al_last a"
  by (auto simp: has_prev_def al_get_def split: if_splits)

definition fits :: "alog \<Rightarrow> append_entries_req \<Rightarrow> bool" where
  "fits a req \<longleftrightarrow> numbered (aq_prev_log_index req) (aq_entries req) \<and> sized (aq_entries req) \<and>
     total (al_entries a) + total (built 0 (aq_entries req)) < 2 ^ 59 \<and>
     aq_prev_log_index req + length (aq_entries req) < u64_bound"

definition step_to_term :: "append_entries_req \<Rightarrow> raft \<Rightarrow> raft option" where
  "step_to_term req r =
     (if aq_term req > r_curr_term r
      then step_down (aq_term req) (aq_leader_id req) (r\<lparr>r_voted_for := []\<rparr>)
      else Some ((reset_election_timer r)\<lparr>r_role := FOLLOWER\<rparr>))"

lemma step_to_term:
  assumes "r_curr_term r \<le> aq_term req" and "r_transfer_leader_to r = None"
  shows "\<exists>r1. step_to_term req r = Some r1 \<and> r_log r1 = r_log r \<and> r_curr_term r1 = aq_term req \<and>
    r_role r1 = FOLLOWER \<and> r_commit_index r1 = r_commit_index r"
  using assms
  by (auto simp: step_to_term_def step_down_def Let_def reset_election_timer_def remove_heartbeat_timer_def emit_def)

lemma append_entries_stored:
  assumes "live_rep (w_os w) (r_log r) a" and "r_curr_term r \<le> aq_term req" and "r_transfer_leader_to r = None"
    and "has_prev a req" and "fits a req"
  shows "\<exists>res r' c. rpc_append_entries w req r = Some (res, False, r') \<and> as_success res \<and> as_term res = aq_term req \<and>
    as_match_index res = al_last (merged a (aq_entries req) c) \<and>
    live_rep (w_os w) (r_log r') (merged a (aq_entries req) c) \<and>
    r_curr_term r' = aq_term req \<and> r_role r' = FOLLOWER \<and> r_leader r' = aq_leader_id req \<and>
    r_commit_index r' = (if aq_leader_commit req > r_commit_index r
      then min (aq_leader_commit req) (al_last (merged a (aq_entries req) c)) else r_commit_index r)"
proof -
  let ?p = "aq_prev_log_index req"
  have rep: "log_rep (r_log r) a" using assms(1) by (simp add: live_rep_def)
  obtain r1 where r1: "step_to_term req r = Some r1" "r_log r1 = r_log r" "r_curr_term r1 = aq_term req"
    "r_role r1 = FOLLOWER" "r_commit_index r1 = r_commit_index r"
    using step_to_term [OF assms(2,3)] by blast
  have has: "has_entry (r_log r1) ?p (aq_prev_log_term req)"
    using assms(4) r1(2) by (auto simp: rep_has_entry [OF rep] has_prev_def split: option.splits)
  have "\<exists>adj l c. (if aq_entries req \<noteq> [] then store_entries (w_os w) (aq_entries req) r1 else Some (Inr (False, r1))) =
      Some (Inr (adj, r1\<lparr>r_log := l\<rparr>)) \<and> live_rep (w_os w) l (merged a (aq_entries req) c)"
  proof (cases "aq_entries req = []")
    case True
    then have "r1 = r1\<lparr>r_log := r_log r1\<rparr>" "merged a (aq_entries req) 0 = a" by (simp_all add: merged_def)
    then show ?thesis using True assms(1) r1(2) by (metis (full_types))
  next
    case False
    have "live_rep (w_os w) (r_log r1) a" using assms(1) r1(2) by simp
    from store_entries_result [OF this, of ?p "aq_entries req"] assms(4,5) has_prev_bounds [OF assms(4)] False
    show ?thesis by (simp add: has_prev_def fits_def)
  qed
  then obtain adj l c where st: "(if aq_entries req \<noteq> [] then store_entries (w_os w) (aq_entries req) r1 else Some (Inr (False, r1))) =
      Some (Inr (adj, r1\<lparr>r_log := l\<rparr>))" "live_rep (w_os w) l (merged a (aq_entries req) c)" by blast
  have last: "last_entry_index l = al_last (merged a (aq_entries req) c)"
    using rep_last_entry_index st(2) by (auto simp: live_rep_def)
  define r3 where "r3 = follow_commit (aq_leader_commit req) (r1\<lparr>r_log := l\<rparr>)"
  define r4 where "r4 = r3\<lparr>r_leader := aq_leader_id req, r_last_heartbeat := w_now w\<rparr>"
  define r5 where "r5 = (if adj then adjust_configuration (config (r_log r4)) r4 else r4)"
  have run: "rpc_append_entries w req r = Some (append_result r5 (aq_id req) True, False, r5)"
    using assms(2) r1(1) has st(1)
    by (simp add: rpc_append_entries_def step_to_term_def [symmetric] r3_def r4_def r5_def Let_def)
  have r5: "same_log r4 r5" using same_log_adjust by (simp add: r5_def same_log_def)
  have r4: "r_log r4 = l" "r_curr_term r4 = aq_term req" "r_role r4 = FOLLOWER" "r_leader r4 = aq_leader_id req"
    "r_commit_index r4 = (if aq_leader_commit req > r_commit_index r
      then min (aq_leader_commit req) (al_last (merged a (aq_entries req) c)) else r_commit_index r)"
    using r1 last by (simp_all add: r4_def r3_def follow_commit_def log_committed_def)
  show ?thesis
    using run r5 r4 st(2) last by (auto simp: same_log_def append_result_def)
qed

text \<open>The two ways to be refused leave the log as it was.\<close>

lemma append_entries_refused:
  assumes "live_rep (w_os w) (r_log r) a" and "r_transfer_leader_to r = None"
    and "aq_term req < r_curr_term r \<or>
      (case al_get a (aq_prev_log_index req) of
         Some e \<Rightarrow> e_term e \<noteq> aq_prev_log_term req
       | None \<Rightarrow> \<not> (aq_prev_log_index req = al_index a \<and> aq_prev_log_term req = al_term a))"
  shows "\<exists>res r'. rpc_append_entries w req r = Some (res, False, r') \<and> \<not> as_success res \<and> r_log r' = r_log r \<and>
    as_match_index res = al_last a \<and> r_commit_index r' = r_commit_index r \<and> as_term res = r_curr_term r' \<and>
    r_curr_term r' = max (r_curr_term r) (aq_term req)"
proof -
  have rep: "log_rep (r_log r) a" using assms(1) by (simp add: live_rep_def)
  note last = rep_last_entry_index(1) [OF rep]
  show ?thesis
  proof (cases "aq_term req < r_curr_term r")
    case True
    then show ?thesis using last by (simp add: rpc_append_entries_def append_result_def)
  next
    case False
    then obtain r1 where r1: "step_to_term req r = Some r1" "r_log r1 = r_log r" "r_curr_term r1 = aq_term req"
      "r_commit_index r1 = r_commit_index r"
      using step_to_term [of r req] assms(2) by auto
    have "\<not> has_entry (r_log r1) (aq_prev_log_index req) (aq_prev_log_term req)"
      using assms(3) False r1(2) by (auto simp: rep_has_entry [OF rep] split: option.splits)
    then have "rpc_append_entries w req r = Some (append_result r1 (aq_id req) False, False, r1)"
      using False r1(1) by (simp add: rpc_append_entries_def step_to_term_def [symmetric])
    then show ?thesis using r1 last False by (simp add: append_result_def)
  qed
qed

section \<open>The leader's request\<close>

lemma entries_from_rep:
  assumes "log_rep l a" and "al_index a < i"
  shows "entries_from l i = map to_LogEntry (drop (i - al_index a - 1) (al_entries a))"
  using assms(2)
proof (induction "Suc (al_last a) - i" arbitrary: i)
  case 0
  then show ?case using rep_last_entry_index(1) [OF assms(1)] by (subst entries_from.simps) auto
next
  case (Suc d)
  then have i: "i \<le> al_last a" "d = Suc (al_last a) - (i + 1)" by auto
  have "get_entry l i = Some (al_entries a ! (i - al_index a - 1))"
    using i Suc.prems by (simp add: rep_get [OF assms(1)] al_get_def)
  moreover have "drop (i - al_index a - 1) (al_entries a) =
      al_entries a ! (i - al_index a - 1) # drop (i + 1 - al_index a - 1) (al_entries a)"
    using i Suc.prems Cons_nth_drop_Suc [of "i - al_index a - 1" "al_entries a"] by (simp add: Suc_diff_Suc)
  moreover have "entries_from l (i + 1) = map to_LogEntry (drop (i + 1 - al_index a - 1) (al_entries a))"
    using Suc i by simp
  ultimately show ?case
    using i rep_last_entry_index(1) [OF assms(1)] by (subst entries_from.simps) simp
qed

lemma numbered_map: "contiguous b es \<Longrightarrow> numbered b (map to_LogEntry es)"
  by (induction es arbitrary: b) (simp_all add: to_LogEntry_def)

lemma numbered_suffix: "contiguous b es \<Longrightarrow> k \<le> length es \<Longrightarrow> numbered (b + k) (map to_LogEntry (drop k es))"
  by (intro numbered_map contiguous_drop)

lemma request_of_leader:
  assumes "live_rep os (r_log r) a" and "node_at r x = Some n" and "al_index a < n_next_index n"
    and "n_next_index n \<le> al_last a + 1"
  shows "\<exists>t req r'. append_entries_to x r = Some r' \<and> r_out r' = r_out r @ [Append_Entries t req] \<and>
    t_node t = x \<and> t_host t = n_host n \<and> t_port t = n_port n \<and>
    aq_term req = r_curr_term r \<and> aq_leader_id req = r_self_id r \<and> aq_leader_commit req = r_commit_index r \<and>
    aq_prev_log_index req = n_next_index n - 1 \<and> has_prev a req \<and>
    aq_entries req = map to_LogEntry (drop (n_next_index n - 1 - al_index a) (al_entries a)) \<and>
    numbered (aq_prev_log_index req) (aq_entries req)"
proof -
  let ?i = "n_next_index n"
  have rep: "log_rep (r_log r) a" using assms(1) by (simp add: live_rep_def)
  have one: "1 \<le> ?i" "sub64 ?i 1 = ?i - 1" using assms(3) by auto
  have es: "entries_from (r_log r) ?i = map to_LogEntry (drop (?i - 1 - al_index a) (al_entries a))"
    using entries_from_rep [OF rep assms(3)] by (simp add: diff_commute)
  have num: "numbered (?i - 1) (map to_LogEntry (drop (?i - 1 - al_index a) (al_entries a)))"
    using numbered_suffix [OF log_repD(6) [OF rep], of "?i - 1 - al_index a"] assms(3,4) by auto
  have prev: "al_get a (?i - 1) = Some e \<Longrightarrow> e_index e = ?i - 1" for e
    using al_get_index log_repD(1) [OF rep] by blast
  have none: "al_get a (?i - 1) = None \<Longrightarrow> ?i - 1 = al_index a"
    using assms(3,4) by (auto simp: al_get_def split: if_splits)
  show ?thesis
    using assms(2,3) one es num prev none
    by (auto simp: append_entries_to_def make_task_def fill_append_entries_def Let_def emit_def has_prev_def
        rep_get [OF rep] rep_last_index [OF rep] split: option.splits)
qed

text \<open>
  Two logs match: where they hold an entry of the same index and term, all that both still hold up to it is the same.
\<close>

definition matching :: "alog \<Rightarrow> alog \<Rightarrow> bool" where
  "matching a b \<longleftrightarrow> (\<forall>k x y m. al_get a k = Some x \<longrightarrow> al_get b k = Some y \<longrightarrow> e_term x = e_term y \<longrightarrow>
     al_index a < m \<longrightarrow> al_index b < m \<longrightarrow> m \<le> k \<longrightarrow>
     map_option to_LogEntry (al_get a m) = map_option to_LogEntry (al_get b m))"

lemma matchingD:
  "matching a b \<Longrightarrow> al_get a k = Some x \<Longrightarrow> al_get b k = Some y \<Longrightarrow> e_term x = e_term y \<Longrightarrow>
   al_index a < m \<Longrightarrow> al_index b < m \<Longrightarrow> m \<le> k \<Longrightarrow>
   map_option to_LogEntry (al_get a m) = map_option to_LogEntry (al_get b m)"
  by (simp add: matching_def)

text \<open>One exchange between matching logs: the follower then agrees with the leader up to the leader's end.\<close>

lemma replicated:
  assumes a: "al_index a \<le> p" "contiguous (al_index a) (al_entries a)" "p \<le> al_last a"
    and req: "aq_prev_log_index req = p" "has_prev a req" "aq_entries req = map to_LogEntry (drop (p - al_index a) (al_entries a))"
    and b: "has_prev b req" "sized (aq_entries req)" "matching a b"
    and m: "al_index a < m" "al_index b < m" "m \<le> al_last a"
  shows "map_option to_LogEntry (al_get (merged b (aq_entries req) c) m) = map_option to_LogEntry (al_get a m)"
proof -
  let ?es = "aq_entries req" and ?b = "merged b (aq_entries req) c"
  have num: "numbered p ?es" using numbered_suffix [OF a(2), of "p - al_index a"] a(1,3) req(3) by simp
  have bp: "al_index b \<le> p" "p \<le> al_last b" using req(1) b(1) has_prev_bounds by (auto simp: has_prev_def)
  show ?thesis
  proof (cases "m \<le> p")
    case True
    have "\<exists>x. al_get a p = Some x" "\<exists>y. al_get b p = Some y"
      using True m(1,2) a(3) bp by (auto simp: al_get_def)
    then obtain x y where xy: "al_get a p = Some x" "al_get b p = Some y" by blast
    then have "e_term x = e_term y" using req(1,2) b(1) by (simp add: has_prev_def)
    with matchingD [OF b(3) xy _ m(1,2) True] merged_reads(1) [OF num bp True, of c] show ?thesis by simp
  next
    case False
    define q where "q = m - p - 1"
    have q: "q < length ?es" "m = p + q + 1" "le_index (?es ! q) = m"
      using False m(1,3) a(1,3) req(3) numbered_at [OF num, of q] by (auto simp: q_def)
    obtain x where x: "al_get a m = Some x" "?es ! q = to_LogEntry x"
      using q(1,2) req(3) a(1,3) m(1,3) by (auto simp: al_get_def)
    obtain j where t: "takes b ?es ?b j" using merged_takes [OF num bp b(2)] by blast
    show ?thesis
    proof (cases "j \<le> q")
      case True
      then show ?thesis using t q x by (auto simp: takes_def)
    next
      case False
      then have "matches b (?es ! q)" "al_get ?b m = al_get b m"
        using t q(3) unfolding takes_def by (metis not_le_imp_less)+
      moreover then obtain y where "al_get b m = Some y" "e_term y = e_term x" using q(3) x(2) by (auto simp: matches_def)
      ultimately show ?thesis using matchingD [OF b(3) x(1), of y m] m(1,2) x(1) by simp
    qed
  qed
qed

section \<open>The commit index\<close>

definition sorted_terms :: "alog \<Rightarrow> bool" where
  "sorted_terms a \<longleftrightarrow> sorted (map e_term (al_entries a))"

text \<open>An index some follower has, above the commit index, whose entry is of the current term.\<close>

definition qualifies :: "raft \<Rightarrow> nat \<Rightarrow> bool" where
  "qualifies r m \<longleftrightarrow> r_commit_index r < m \<and> (\<exists>e. get_entry (r_log r) m = Some e \<and> e_term e = r_curr_term r)"

definition bounds_step :: "raft \<Rightarrow> nat \<Rightarrow> nat \<Rightarrow> nat \<Rightarrow> nat \<Rightarrow> bool" where
  "bounds_step r lo hi lo' hi' \<longleftrightarrow> lo' = lo \<and> hi' = hi \<or>
     (qualifies r hi' \<or> hi' = hi) \<and> (qualifies r lo' \<or> lo' = lo) \<and> lo' \<le> lo \<and> hi \<le> hi' \<and>
     (\<exists>m. qualifies r m \<and> lo' \<le> m \<and> m \<le> hi')"

lemma bounds_step_trans:
  assumes "bounds_step r lo hi lo1 hi1" and "bounds_step r lo1 hi1 lo2 hi2"
  shows "bounds_step r lo hi lo2 hi2"
proof (cases "lo1 = lo \<and> hi1 = hi \<or> lo2 = lo1 \<and> hi2 = hi1")
  case True
  then show ?thesis using assms by auto
next
  case False
  then obtain m where m: "qualifies r m" "lo1 \<le> m" "m \<le> hi1" "lo2 \<le> lo1" "hi1 \<le> hi2" "lo1 \<le> lo" "hi \<le> hi1"
    using assms by (auto simp: bounds_step_def)
  have "qualifies r hi2 \<or> hi2 = hi" "qualifies r lo2 \<or> lo2 = lo"
    using assms False by (auto simp: bounds_step_def)
  moreover have "lo2 \<le> m" "m \<le> hi2" "lo2 \<le> lo" "hi \<le> hi2" using m by auto
  ultimately show ?thesis using m(1) unfolding bounds_step_def by blast
qed

lemma match_bounds_step: "match_bounds r as (lo, hi) = Some (lo', hi') \<Longrightarrow> bounds_step r lo hi lo' hi'"
proof (induction "as" arbitrary: lo hi)
  case Nil
  then show ?case by (simp add: bounds_step_def)
next
  case (Cons a "as")
  from Cons.prems obtain n where n: "node_at r a = Some n" by (auto split: bind_splits)
  show ?case
  proof (cases "n_id n \<noteq> r_self_id r \<and> n_match_index n > r_commit_index r")
    case True
    let ?m = "n_match_index n"
    from True Cons.prems n obtain e where e: "get_entry (r_log r) ?m = Some e"
      "match_bounds r as (if e_term e = r_curr_term r then (min lo ?m, max hi ?m) else (lo, hi)) = Some (lo', hi')"
      by (auto split: bind_splits)
    show ?thesis
    proof (cases "e_term e = r_curr_term r")
      case t: True
      have "bounds_step r lo hi (min lo ?m) (max hi ?m)"
        using True e(1) t by (auto simp: bounds_step_def qualifies_def min_def max_def)
      then show ?thesis using Cons.IH e(2) t by (auto intro: bounds_step_trans)
    qed (use Cons.IH e(2) in simp)
  next
    case False
    then have "match_bounds r as (lo, hi) = Some (lo', hi')" using Cons.prems n by (auto split: if_splits)
    then show ?thesis by (rule Cons.IH)
  qed
qed

lemma commit_scan_range:
  "commit_scan r i lo = Some (Some k) \<Longrightarrow> 0 < lo \<Longrightarrow> k \<le> i \<and> lo \<le> k \<and> count_matching r k > cluster_size r div 2"
proof (induction i)
  case 0
  then show ?case by (subst (asm) commit_scan.simps) auto
next
  case (Suc i)
  then show ?case by (subst (asm) commit_scan.simps) (auto split: if_splits)
qed

lemma commit_scan_sound: "commit_scan r i lo = Some (Some k) \<Longrightarrow> count_matching r k > cluster_size r div 2"
proof -
  have "\<forall>k. y = Some k \<longrightarrow> count_matching r k > cluster_size r div 2" if "commit_scan r i lo = Some y" for y
    by (rule commit_scan.raw_induct [OF _ that,
          where P = "\<lambda>r _ _ y. \<forall>k. y = Some k \<longrightarrow> count_matching r k > cluster_size r div 2"])
      (auto split: if_splits)
  then show "commit_scan r i lo = Some (Some k) \<Longrightarrow> count_matching r k > cluster_size r div 2" by blast
qed

lemma count_matching_0: "count_matching r k \<le> count_matching r 0"
proof -
  have "length (filter (has_match r k) xs) \<le> length (filter (has_match r 0) xs)" for xs
    by (induction xs) (auto simp: has_match_def split: option.splits)
  then show ?thesis by (simp add: count_matching_def)
qed

lemma commit_scan_zero:
  "commit_scan r 0 0 = Some (Some k) \<Longrightarrow> k = 0"
proof -
  assume run: "commit_scan r 0 0 = Some (Some k)"
  then have "count_matching r 0 > cluster_size r div 2" using commit_scan_sound [OF run] count_matching_0 [of r k] by simp
  with run show "k = 0" by (subst (asm) commit_scan.simps) simp
qed

text \<open>
  In a cluster of more than one, the commit index only moves to an index that a majority has and
  whose entry is of the leader's current term.
\<close>

lemma sorted_terms_between:
  assumes "sorted_terms a" and "al_get a i = Some x" and "al_get a k = Some z" and "0 < i" and "i \<le> j" and "j \<le> k"
    and "e_term x = t" and "e_term z = t"
  shows "\<exists>y. al_get a j = Some y \<and> e_term y = t"
proof -
  have i: "al_index a < i" "k \<le> al_last a" "al_index a < k" "al_entries a ! (i - al_index a - 1) = x" "al_entries a ! (k - al_index a - 1) = z"
    using assms(2,3,4,5,6) by (auto simp: al_get_def split: if_splits)
  let ?j = "j - al_index a - 1"
  have le: "i - al_index a - 1 \<le> ?j" "?j \<le> k - al_index a - 1" "k - al_index a - 1 < length (al_entries a)"
    using i assms(5,6) by auto
  have "e_term (al_entries a ! (i - al_index a - 1)) \<le> e_term (al_entries a ! ?j)"
    "e_term (al_entries a ! ?j) \<le> e_term (al_entries a ! (k - al_index a - 1))"
    using assms(1) le sorted_nth_mono [of "map e_term (al_entries a)"] by (auto simp: sorted_terms_def)
  then have "e_term (al_entries a ! ?j) = t" using i assms(7,8) by simp
  moreover have "al_get a j = Some (al_entries a ! ?j)" using i assms(4,5,6) by (auto simp: al_get_def)
  ultimately show ?thesis by simp
qed

lemma commit_configuration_commit: "commit_configuration old r = Some r' \<Longrightarrow> r_commit_index r' = r_commit_index r"
  by (auto simp: commit_configuration_def complete_reconfiguration_def reset_recfg_def do_write_def prepare_def
      set_node_def emit_def Let_def split: option.splits if_splits)

lemma commit_advances:
  assumes "log_rep (r_log r) a" and "sorted_terms a" and "r_commit_index r \<le> al_last a" and "cluster_size r \<noteq> 1"
    and "adjust_commit_index r = Some r'"
  shows "r_commit_index r' = r_commit_index r \<or>
    r_commit_index r < r_commit_index r' \<and> r_commit_index r' \<le> al_last a \<and>
    count_matching r (r_commit_index r') > cluster_size r div 2 \<and>
    (\<exists>e. al_get a (r_commit_index r') = Some e \<and> e_term e = r_curr_term r)"
proof -
  let ?last = "last_entry_index (r_log r)"
  have last: "?last = al_last a" using rep_last_entry_index [OF assms(1)] by simp
  obtain lo hi found where run: "match_bounds r (members r) (?last, 0) = Some (lo, hi)" "commit_scan r hi lo = Some found"
    "commit_configuration (r_commit_index r mod 2 ^ 32) (commit_alone (r_commit_index r mod 2 ^ 32) (set_commit found r)) = Some r'"
    using assms(5) by (auto simp: adjust_commit_index_def Let_def split: bind_splits)
  have r': "r_commit_index r' = r_commit_index (set_commit found r)"
    using run(3) commit_configuration_commit assms(4)
    by (fastforce simp: commit_alone_def set_commit_def log_committed_def cluster_size_def split: option.splits)
  have b: "bounds_step r (al_last a) 0 lo hi" using match_bounds_step run(1) last by simp
  have q: "m \<le> al_last a \<and> 0 < m" if "qualifies r m" for m
    using that by (auto simp: qualifies_def rep_get [OF assms(1)] al_get_def split: if_splits)
  show ?thesis
  proof (cases found)
    case None
    then show ?thesis using r' by (simp add: set_commit_def)
  next
    case (Some k)
    then have k: "r_commit_index r' = k" using r' by (simp add: set_commit_def log_committed_def)
    have scan: "commit_scan r hi lo = Some (Some k)" using run(2) Some by simp
    show ?thesis
    proof (cases "\<exists>m. qualifies r m \<and> lo \<le> m \<and> m \<le> hi")
      case False
      then have "lo = al_last a" "hi = 0" using b by (auto simp: bounds_step_def)
      then have "al_last a = 0"
        using scan commit_scan_range [OF scan] by (cases "al_last a = 0") auto
      then show ?thesis using k scan commit_scan_zero \<open>lo = al_last a\<close> \<open>hi = 0\<close> assms(3) by simp
    next
      case True
      then obtain m where m: "qualifies r m" "lo \<le> m" "m \<le> hi" by blast
      have lo: "r_commit_index r < lo \<and> 0 < lo \<and> (qualifies r lo \<or> lo = al_last a)"
        using b m q [OF m(1)] by (auto simp: bounds_step_def qualifies_def)
      have hi: "qualifies r hi" using b m q [OF m(1)] by (auto simp: bounds_step_def)
      have r: "k \<le> hi" "lo \<le> k" "count_matching r k > cluster_size r div 2"
        using commit_scan_range [OF scan] lo by auto
      have "\<exists>e. al_get a k = Some e \<and> e_term e = r_curr_term r"
      proof (cases "qualifies r lo")
        case True
        then show ?thesis
          using hi r(1,2) lo sorted_terms_between [OF assms(2), of lo _ hi _ k "r_curr_term r"]
          by (auto simp: qualifies_def rep_get [OF assms(1)])
      next
        case False
        then have "k = hi" using lo r(1,2) q [OF hi] by simp
        then show ?thesis using hi by (auto simp: qualifies_def rep_get [OF assms(1)])
      qed
      then show ?thesis using r lo q [OF hi] k by auto
    qed
  qed
qed

section \<open>New entries at the leader\<close>

lemma live_append_entry:
  assumes "live_rep os l a" and "t < u64_bound" and "total (al_entries a) + length s + 72 < 2 ^ 59" and "al_last a + 1 < u64_bound"
  shows "alog_ok (al_append a [make_entry (lg_cfg l) s (last_entry_index l + 1) t cfg])"
    and "total [make_entry (lg_cfg l) s (last_entry_index l + 1) t cfg] < length s + 72"
    and "e_index (make_entry (lg_cfg l) s (last_entry_index l + 1) t cfg) = al_last a + 1"
proof -
  let ?es = "[\<lparr>le_term = t, le_index = al_last a + 1, le_data = s, le_config = cfg\<rparr>]"
  have rep: "log_rep l a" and wf: "wf_alog a" using assms(1) by (auto simp: live_rep_def log_rep_def)
  have last: "last_entry_index l = al_last a" using rep_last_entry_index [OF rep] by simp
  have e: "[make_entry (lg_cfg l) s (last_entry_index l + 1) t cfg] = built (lg_cfg l) ?es" by (simp add: built_def last)
  have "wf_alog (al_append a [make_entry (lg_cfg l) s (last_entry_index l + 1) t cfg])"
    unfolding e by (rule wf_append_built [OF wf]) (use rep assms in \<open>auto simp: log_rep_def sized_def\<close>)
  moreover show small: "total [make_entry (lg_cfg l) s (last_entry_index l + 1) t cfg] < length s + 72"
    using align8(2) [of "40 + cfg_offset cfg + length s"] assms(3) by (auto simp: total_def cfg_offset_def)
  ultimately show "alog_ok (al_append a [make_entry (lg_cfg l) s (last_entry_index l + 1) t cfg])"
    using assms(3) by (simp add: alog_ok_def)
  show "e_index (make_entry (lg_cfg l) s (last_entry_index l + 1) t cfg) = al_last a + 1" by (simp add: last)
qed

lemma live_append_next:
  assumes "live_rep os (r_log r) a" and "r_curr_term r < u64_bound"
    and "total (al_entries a) + length s + 72 < 2 ^ 59" and "al_last a + 1 < u64_bound"
  shows "alog_ok (al_append a [make_next_entry s cfg r])" and "e_index (make_next_entry s cfg r) = al_last a + 1"
    and "str (make_next_entry s cfg r) = s"
  using live_append_entry [OF assms] assms(3) by (simp_all add: make_next_entry_def str_make_entry)

lemma raft_append_leader:
  assumes "live_rep os (r_log r) a" and "r_role r = LEADER" and "r_curr_term r < u64_bound"
    and "total (al_entries a) + length txt + 72 < 2 ^ 59" and "al_last a + 1 < u64_bound"
  shows "\<exists>l'. raft_append os txt r = Some (al_last a + 1, r\<lparr>r_log := l'\<rparr>) \<and>
    live_rep os l' (al_append a [make_next_entry txt False r])"
proof -
  note n = live_append_next [OF assms(1,3-5)]
  obtain l' where "append os [make_next_entry txt False r] True (r_log r) = Some (RC_GOOD, l')"
    "live_rep os l' (al_append a [make_next_entry txt False r])"
    using file_log.app_good [OF assms(1) n(1), of False True] by blast
  then show ?thesis using assms(2) n(2) by (auto simp: raft_append_def)
qed

end
