(* ===== verification/Append_Quiet.thy ===== *)
theory Append_Quiet
  imports Replication_Handlers Election_Effects
begin

text \<open>
  What the follower's \<open>append_entries\<close> handler does to the election state: it is quiet or raises
  the term.
\<close>

lemma store_entries_core: "store_entries os es r = Some s \<Longrightarrow> case s of Inl r' \<Rightarrow> \<exists>l. r' = r\<lparr>r_log := l\<rparr> | Inr (_, r') \<Rightarrow> \<exists>l. r' = r\<lparr>r_log := l\<rparr>"
  by (auto simp: store_entries_def Let_def split: bind_splits sum.splits prod.splits if_splits)

text \<open>What of the state the handler may still touch after stepping to the term of the request.\<close>

definition same_vote :: "raft \<Rightarrow> raft \<Rightarrow> bool" where
  "same_vote r r' \<longleftrightarrow> r_curr_term r' = r_curr_term r \<and> r_voted_for r' = r_voted_for r \<and> r_role r' = r_role r \<and>
     r_votes r' = r_votes r \<and> ballots r' = ballots r"

lemma same_vote_refl [simp]: "same_vote r r"
  by (simp add: same_vote_def)

lemma same_vote_trans: "same_vote r1 r2 \<Longrightarrow> same_vote r2 r3 \<Longrightarrow> same_vote r1 r3"
  by (simp add: same_vote_def)

lemma same_vote_fold: "(\<And>x r. same_vote r (f x r)) \<Longrightarrow> same_vote r (fold f xs r)"
  by (induction xs arbitrary: r) (auto intro: same_vote_trans)

lemma same_vote_parts:
  "same_vote r (r\<lparr>r_log := l\<rparr>)" "same_vote r (follow_commit c r)" "same_vote r (add_missing s r)" "same_vote r (erase s r)"
  "same_vote r (r\<lparr>r_leader := ld, r_last_heartbeat := hb\<rparr>)"
  by (auto simp: same_vote_def ballots_def follow_commit_def log_committed_def add_missing_def emplace_def erase_def make_node_def
      Let_def split: prod.splits)

lemma same_vote_adjust: "same_vote r (adjust_configuration s r)"
proof (cases "s = []")
  case False
  have step: "same_vote r1 (if x \<in> A then r1 else erase x r1)" for x r1 A by (simp add: same_vote_parts(4))
  then show ?thesis
    using False same_vote_trans [OF same_vote_fold same_vote_fold, where f2 = add_missing, OF same_vote_parts(3) step]
    by (simp add: adjust_configuration_def Let_def)
qed (simp add: adjust_configuration_def)

lemma quiet_raised_same_vote: "quiet r r1 \<or> raised r r1 \<Longrightarrow> same_vote r1 r2 \<Longrightarrow> quiet r r2 \<or> raised r r2"
  by (auto simp: quiet_def raised_def same_vote_def)

lemma rpc_append_entries_quiet:
  assumes "rpc_append_entries w req r = Some (res, failed, r')"
  shows "quiet r r' \<or> raised r r'"
proof (cases "aq_term req < r_curr_term r")
  case True
  then show ?thesis using assms by (simp add: rpc_append_entries_def frame_quiet)
next
  case False
  then obtain r1 where r1: "(if aq_term req > r_curr_term r
      then step_down (aq_term req) (aq_leader_id req) (r\<lparr>r_voted_for := []\<rparr>)
      else Some ((reset_election_timer r)\<lparr>r_role := FOLLOWER\<rparr>)) = Some r1"
    using assms by (auto simp: rpc_append_entries_def split: bind_splits)
  have q: "quiet r r1 \<or> raised r r1"
  proof (cases "aq_term req > r_curr_term r")
    case True
    with r1 step_down_raised(1) [of "aq_term req" _ "r\<lparr>r_voted_for := []\<rparr>" r1] show ?thesis by (simp add: raised_def ballots_def)
  next
    case False
    with r1 show ?thesis by (auto simp: quiet_def reset_election_timer_def emit_def ballots_def)
  qed
  have "same_vote r1 r'"
  proof -
    have "same_vote r1 r2" if "(if aq_entries req \<noteq> [] then store_entries (w_os w) (aq_entries req) r1 else Some (Inr (False, r1))) = Some s"
      "s = Inl r2 \<or> s = Inr (adj, r2)" for s r2 adj
      using that store_entries_core [of "w_os w" "aq_entries req" r1 s] same_vote_parts(1) by (auto split: if_splits)
    then show ?thesis
      using assms False r1
      by (auto simp: rpc_append_entries_def Let_def same_vote_adjust same_vote_parts(2,5) split: bind_splits sum.splits prod.splits if_splits
          intro!: same_vote_trans [OF _ same_vote_trans [OF same_vote_parts(2) same_vote_parts(5)]]
            same_vote_trans [OF _ same_vote_adjust])
  qed
  with q show ?thesis by (rule quiet_raised_same_vote)
qed

end
