(* ===== verification/Election_Properties.thy ===== *)
theory Election_Properties
  imports Demo_Cluster Append_Quiet
begin

text \<open>
  The properties of elections: what one server promises with a vote, and what follows for the
  cluster.  They are applied to the run of the demo cluster.
\<close>

section \<open>One server\<close>

text \<open>C13: a vote is granted only for a term that is not behind, to a candidate whose log is not behind
  in last term or last index, and only if no other candidate has this server's vote in that term; the
  vote is then recorded.  A refusal records no vote in the same term.\<close>

theorem vote_contract:
  assumes "rpc_request_vote req r = Some (res, r')" and "good_id (vq_candidate_id req)"
  shows "if vs_vote_granted res
    then r_curr_term r \<le> vq_term req \<and> last_entry_term (r_log r) \<le> vq_last_log_term req \<and>
      last_entry_index (r_log r) \<le> vq_last_log_index req \<and>
      (r_curr_term r = vq_term req \<longrightarrow> r_voted_for r = [] \<or> r_voted_for r = vq_candidate_id req) \<and>
      vs_term res = vq_term req \<and> r_curr_term r' = vq_term req \<and> r_voted_for r' = vq_candidate_id req
    else vs_term res = r_curr_term r' \<and> r_curr_term r \<le> r_curr_term r' \<and>
      (r_curr_term r' = r_curr_term r \<longrightarrow> r_voted_for r' = r_voted_for r)"
  using rpc_request_vote_effect [OF assms] by (auto simp: log_newer_def quiet_def raised_def not_less)

theorem vote_contract_witness: "r_curr_term demo_voter = 2 \<and> r_voted_for demo_voter = ''a:1''"
proof -
  have "good_id (vq_candidate_id demo_req)" by (simp add: good_id_def)
  from vote_contract [OF demo_voter this] show ?thesis by simp
qed

text \<open>a pre-vote changes nothing at the server asked, and is granted only to a candidate whose log
  is not behind and, unless it asks early, when no leader was heard of for the minimal election timeout.\<close>

theorem pre_vote_contract:
  "snd (rpc_pre_vote w req r) = r \<and>
   (vs_vote_granted (fst (rpc_pre_vote w req r)) \<longleftrightarrow>
      last_entry_term (r_log r) \<le> vq_last_log_term req \<and> last_entry_index (r_log r) \<le> vq_last_log_index req \<and>
      (r_min_election_timeout r \<le> w_now w - r_last_heartbeat r \<or> vq_early req))"
  by (auto simp: rpc_pre_vote_def Let_def log_newer_def)

lemma checkout_term:
  assumes "checkout w r = Some r'" and "r_curr_term r' \<noteq> r_curr_term r \<or> r_voted_for r' \<noteq> r_voted_for r"
  shows "cluster_size r div 2 < r_pre_votes_granted r"
  using assms by (auto simp: checkout_def reset_election_timer_def emit_def split: if_splits)

text \<open>the answer to a pre-vote starts an election only when, with it, a majority of the cluster has
  granted the pre-vote; otherwise term and vote stay as they are.\<close>

theorem election_needs_pre_votes:
  assumes "on_pre_vote w res r = Some r'" and "r_curr_term r' \<noteq> r_curr_term r \<or> r_voted_for r' \<noteq> r_voted_for r"
  shows "r_role r = FOLLOWER \<and>
    cluster_size r div 2 < (case res of Some v \<Rightarrow> r_pre_votes_granted r + of_bool (vs_vote_granted v) | None \<Rightarrow> r_pre_votes_granted r)"
proof -
  have f: "r_role r = FOLLOWER" using assms by (cases "r_role r") (auto simp: on_pre_vote_def)
  then obtain r1 where r1: "checkout w r1 = Some r'" "r_curr_term r1 = r_curr_term r" "r_voted_for r1 = r_voted_for r"
    "cluster_size r1 = cluster_size r"
    "r_pre_votes_granted r1 = (case res of Some v \<Rightarrow> r_pre_votes_granted r + of_bool (vs_vote_granted v) | None \<Rightarrow> r_pre_votes_granted r)"
    using assms(1) by (auto simp: on_pre_vote_def cluster_size_def split: option.splits if_splits)
  with checkout_term [OF r1(1)] assms(2) f show ?thesis by simp
qed

theorem election_needs_pre_votes_witness: "cluster_size demo_asking div 2 < r_pre_votes_granted demo_asking + 1"
  using election_needs_pre_votes [OF demo_candidate] demo_candidate_ballots(4,5) by simp

text \<open>C16: an \<open>append_entries\<close> request never takes a vote back or moves the term backwards, asks for
  no votes and makes no leader: it is one of the other steps of the system below.\<close>

theorem append_entries_is_quiet:
  assumes "rpc_append_entries w req r = Some (res, failed, r')"
  shows "quiet r r' \<or> raised r r'"
  using assms by (rule rpc_append_entries_quiet)

definition demo_append :: append_entries_req where
  "demo_append = \<lparr>aq_term = 1, aq_leader_id = ''a:1'', aq_prev_log_index = 0, aq_prev_log_term = 0,
     aq_entries = [to_LogEntry demo_entry, to_LogEntry demo_cfg_entry], aq_leader_commit = 0, aq_id = 1\<rparr>"

lemma demo_append_fits: "has_prev empty_alog demo_append" "fits empty_alog demo_append"
proof -
  have "e_size (make_entry 0 ''set k v'' 1 1 False) < 100" "e_size (make_entry 0 ''a:1,b:2'' 2 1 True) < 100"
    using demo_entry_sel by (simp_all add: demo_entry_def demo_cfg_entry_def)
  then have "total (built 0 [to_LogEntry demo_entry, to_LogEntry demo_cfg_entry]) < 2 ^ 59"
    by (simp add: built_def to_LogEntry_def total_def)
  then show "fits empty_alog demo_append"
    by (simp add: fits_def demo_append_def sized_def to_LogEntry_def)
  show "has_prev empty_alog demo_append" by (simp add: has_prev_def demo_append_def al_get_def)
qed

lemma demo_follower:
  "r_log (demo_raft i l) = l" "r_curr_term (demo_raft i l) = 0" "r_transfer_leader_to (demo_raft i l) = None"
  "r_commit_index (demo_raft i l) = 0" "r_self_id (demo_raft i l) = i" "w_os demo_world = demo_os"
  by (simp_all add: demo_raft_def demo_world_def)

lemma demo_append_stored:
  "\<exists>res r'. rpc_append_entries demo_world demo_append (demo_raft ''b:1'' demo_log) = Some (res, False, r') \<and> as_success res"
  using append_entries_stored [of demo_world "demo_raft ''b:1'' demo_log" empty_alog demo_append] demo_append_fits demo_live
  by (auto simp: demo_follower)

theorem append_entries_is_quiet_witness:
  "\<exists>res r'. rpc_append_entries demo_world demo_append (demo_raft ''b:1'' demo_log) = Some (res, False, r') \<and>
    (quiet (demo_raft ''b:1'' demo_log) r' \<or> raised (demo_raft ''b:1'' demo_log) r')"
  using demo_append_stored append_entries_is_quiet by blast

section \<open>The cluster\<close>

text \<open>C1: in every reachable state of a cluster with fixed membership, at most one server was ever leader
  in a term, however calls and answers were delayed, reordered or lost.\<close>

theorem election_safety:
  assumes "reachable ids \<sigma>"
  shows "((t, i) \<in> s_leaders \<sigma> \<longrightarrow> (t, j) \<in> s_leaders \<sigma> \<longrightarrow> i = j) \<and>
    (i \<in> ids \<longrightarrow> j \<in> ids \<longrightarrow> r_role (s_server \<sigma> i) = LEADER \<longrightarrow> r_role (s_server \<sigma> j) = LEADER \<longrightarrow>
      r_curr_term (s_server \<sigma> i) = r_curr_term (s_server \<sigma> j) \<longrightarrow> i = j)"
  using unique_leader [OF assms] one_leader_per_term [OF assms] by blast

theorem election_safety_witness: "(2, ''a:1'') \<in> s_leaders demo_sys4 \<and> (2, ''b:1'') \<notin> s_leaders demo_sys4"
proof
  show "(2, ''a:1'') \<in> s_leaders demo_sys4" by (rule demo_sys4(2))
  show "(2, ''b:1'') \<notin> s_leaders demo_sys4"
  proof
    assume "(2, ''b:1'') \<in> s_leaders demo_sys4"
    from election_safety [OF demo_sys4(1), THEN conjunct1, rule_format, OF demo_sys4(2) this] show False by simp
  qed
qed

text \<open>C14: a server gives its vote to one candidate per term, and keeps it: while the term lasts the vote
  is the one it has on record.\<close>

theorem one_vote_per_term:
  assumes "reachable ids \<sigma>" and "(v, t, c) \<in> s_grants \<sigma>"
  shows "((v, t, c') \<in> s_grants \<sigma> \<longrightarrow> c = c') \<and> t \<le> r_curr_term (s_server \<sigma> v) \<and>
    (t = r_curr_term (s_server \<sigma> v) \<longrightarrow> r_voted_for (s_server \<sigma> v) = c)"
proof -
  have g: "inv_grants ids \<sigma>" using sys_inv_reachable [OF assms(1)] by (simp add: sys_inv_def)
  note kept = bspec [OF conjunct1 [OF g [unfolded inv_grants_def]] assms(2)]
  have "(v, t, c') \<in> s_grants \<sigma> \<Longrightarrow> c = c'" using g assms(2) unfolding inv_grants_def by metis
  with kept show ?thesis by simp
qed

theorem one_vote_per_term_witness: "(''b:1'', 2, ''c:1'') \<notin> s_grants demo_sys3"
proof
  have "(''b:1'', 2, ''a:1'') \<in> s_grants demo_sys3" by (simp add: demo_sys3_def)
  note vote = one_vote_per_term [OF demo_sys3(1) this, THEN conjunct1, rule_format]
  assume "(''b:1'', 2, ''c:1'') \<in> s_grants demo_sys3"
  from vote [OF this] show False by simp
qed

text \<open>C3: while the membership is fixed, in every state that the servers reach from a start as followers, a leader has
  the votes of a majority of the cluster in its term.\<close>

theorem leader_has_majority:
  assumes "reachable ids \<sigma>" and "i \<in> ids" and "r_role (s_server \<sigma> i) = LEADER"
  shows "\<exists>Q. majority ids Q \<and> (\<forall>v \<in> Q. (v, r_curr_term (s_server \<sigma> i), i) \<in> s_grants \<sigma>)"
proof -
  have inv: "inv_roles ids \<sigma>" using sys_inv_reachable [OF assms(1)] by (simp add: sys_inv_def)
  then have "(r_curr_term (s_server \<sigma> i), i) \<in> s_leaders \<sigma>" using assms(2,3) by (simp add: inv_roles_def)
  with inv show ?thesis by (auto simp: inv_roles_def)
qed

theorem leader_has_majority_witness: "\<exists>Q. majority demo_ids Q \<and> Q \<times> {2} \<times> {''a:1''} \<subseteq> s_grants demo_sys4"
  using leader_has_majority [OF demo_sys4(1), of "''a:1''"] demo_sys4(3) demo_leader(2,3) by (fastforce simp: demo_ids_def)

end
