(* ===== verification/Replication_Properties.thy ===== *)
theory Replication_Properties
  imports Election_Properties
begin

text \<open>
  The properties of replication: the follower's log after a request, the leader's request, the commit
  index and applying, membership, and the transfer of files.
\<close>

section \<open>The follower\<close>

text \<open>C4: a request that fits the log is accepted: afterwards the log reads as before up to the entry the
  request builds on; the first \<open>j\<close> entries of the request, which the log held by index and term, stay as they
  were, and every entry after them is stored exactly - term, index, text and configuration flag - and ends the log;
  a log that held them all is unchanged.  The commit index follows the leader's but not beyond the log.\<close>

theorem follower_stores:
  assumes "live_rep (w_os w) (r_log r) a" and "r_curr_term r \<le> aq_term req" and "r_transfer_leader_to r = None"
    and "has_prev a req" and "fits a req"
  shows "\<exists>res r' b. rpc_append_entries w req r = Some (res, False, r') \<and> as_success res \<and> as_term res = aq_term req \<and>
    live_rep (w_os w) (r_log r') b \<and> as_match_index res = al_last b \<and>
    (\<forall>i \<le> aq_prev_log_index req. al_get b i = al_get a i) \<and>
    (\<exists>j. takes a (aq_entries req) b j) \<and> (\<forall>e \<in> set (aq_entries req). matches b e) \<and>
    ((\<forall>e \<in> set (aq_entries req). matches a e) \<longrightarrow> b = a) \<and>
    r_curr_term r' = aq_term req \<and> r_role r' = FOLLOWER \<and> r_leader r' = aq_leader_id req \<and>
    r_commit_index r' = (if aq_leader_commit req > r_commit_index r then min (aq_leader_commit req) (al_last b) else r_commit_index r)"
proof -
  obtain res r' c where s: "rpc_append_entries w req r = Some (res, False, r')" "as_success res" "as_term res = aq_term req"
    "as_match_index res = al_last (merged a (aq_entries req) c)" "live_rep (w_os w) (r_log r') (merged a (aq_entries req) c)"
    "r_curr_term r' = aq_term req" "r_role r' = FOLLOWER" "r_leader r' = aq_leader_id req"
    "r_commit_index r' = (if aq_leader_commit req > r_commit_index r
      then min (aq_leader_commit req) (al_last (merged a (aq_entries req) c)) else r_commit_index r)"
    using append_entries_stored [OF assms] by blast
  have n: "numbered (aq_prev_log_index req) (aq_entries req)" "al_index a \<le> aq_prev_log_index req" "aq_prev_log_index req \<le> al_last a"
    using assms(4,5) has_prev_bounds [OF assms(4)] by (auto simp: fits_def has_prev_def)
  note m = merged_reads [OF n]
  have "sized (aq_entries req)" using assms(5) by (simp add: fits_def)
  from merged_takes [OF n this] have "\<exists>j. takes a (aq_entries req) (merged a (aq_entries req) c) j" by blast
  then show ?thesis
    by (intro exI [of _ res] exI [of _ r'] exI [of _ "merged a (aq_entries req) c"])
      (use s m in \<open>auto simp: matches_def\<close>)
qed

theorem follower_stores_witness:
  "\<exists>res r' b. rpc_append_entries demo_world demo_append (demo_raft ''b:1'' demo_log) = Some (res, False, r') \<and>
    live_rep demo_os (r_log r') b \<and> map_option to_LogEntry (al_get b 1) = Some (to_LogEntry demo_entry) \<and>
    map_option to_LogEntry (al_get b 2) = Some (to_LogEntry demo_cfg_entry)"
proof -
  have "live_rep (w_os demo_world) (r_log (demo_raft ''b:1'' demo_log)) empty_alog" using demo_live by (simp add: demo_follower)
  from follower_stores [OF this _ _ demo_append_fits] obtain res r' b j where
    r: "rpc_append_entries demo_world demo_append (demo_raft ''b:1'' demo_log) = Some (res, False, r')"
      "live_rep demo_os (r_log r') b" "takes empty_alog (aq_entries demo_append) b j"
    by (auto simp: demo_follower)
  have es: "aq_entries demo_append = [to_LogEntry demo_entry, to_LogEntry demo_cfg_entry]" by (simp add: demo_append_def)
  have "j = 0" using r(3) unfolding es takes_def by (cases j) (auto simp: matches_def al_get_def)
  then have "map_option to_LogEntry (al_get b (le_index (aq_entries demo_append ! m))) = Some (aq_entries demo_append ! m)"
    if "m < 2" for m using r(3) that by (simp add: takes_def es)
  from this [of 0] this [of 1] show ?thesis using r(1,2) by (auto simp: es)
qed

text \<open>C15: a request of an old term, or one whose previous entry the log lacks or has with another term - also at
  the compaction point, of which only index and term are left - is refused and changes neither the log nor the commit
  index.\<close>

theorem follower_refuses:
  assumes "live_rep (w_os w) (r_log r) a" and "r_transfer_leader_to r = None"
    and "aq_term req < r_curr_term r \<or>
      (case al_get a (aq_prev_log_index req) of
         Some e \<Rightarrow> e_term e \<noteq> aq_prev_log_term req
       | None \<Rightarrow> \<not> (aq_prev_log_index req = al_index a \<and> aq_prev_log_term req = al_term a))"
  shows "\<exists>res r'. rpc_append_entries w req r = Some (res, False, r') \<and> \<not> as_success res \<and> r_log r' = r_log r \<and>
    as_match_index res = al_last a \<and> r_commit_index r' = r_commit_index r \<and> as_term res = r_curr_term r' \<and>
    r_curr_term r' = max (r_curr_term r) (aq_term req)"
  by (rule append_entries_refused [OF assms])

theorem follower_refuses_witness:
  "\<exists>res r'. rpc_append_entries demo_world (demo_append\<lparr>aq_prev_log_index := 7\<rparr>) (demo_raft ''b:1'' demo_log) = Some (res, False, r') \<and>
    \<not> as_success res \<and> r_log r' = demo_log \<and> r_curr_term r' = 1"
proof -
  have "live_rep (w_os demo_world) (r_log (demo_raft ''b:1'' demo_log)) empty_alog" using demo_live by (simp add: demo_follower)
  from follower_refuses [OF this, of "demo_append\<lparr>aq_prev_log_index := 7\<rparr>"] show ?thesis
    by (auto simp: demo_follower al_get_def) (simp add: demo_append_def)
qed

section \<open>The leader\<close>

text \<open>the leader asks a peer to continue right after the entry before its next index, with that
  entry's index and term and every entry it has from there on, in order.\<close>

theorem leader_request:
  assumes "live_rep os (r_log r) a" and "node_at r x = Some n" and "al_index a < n_next_index n"
    and "n_next_index n \<le> al_last a + 1"
  shows "\<exists>t req r'. append_entries_to x r = Some r' \<and> r_out r' = r_out r @ [Append_Entries t req] \<and>
    t_node t = x \<and> t_host t = n_host n \<and> t_port t = n_port n \<and>
    aq_term req = r_curr_term r \<and> aq_leader_id req = r_self_id r \<and> aq_leader_commit req = r_commit_index r \<and>
    aq_prev_log_index req = n_next_index n - 1 \<and> has_prev a req \<and>
    aq_entries req = map to_LogEntry (drop (n_next_index n - 1 - al_index a) (al_entries a)) \<and>
    numbered (aq_prev_log_index req) (aq_entries req)"
  by (rule request_of_leader [OF assms])

lemma demo_raft_node: "node_at (demo_raft i l) 1 = Some (demo_node ''b'')"
  by (simp add: demo_raft_def)

theorem leader_request_witness:
  "\<exists>t req r'. append_entries_to 1 (demo_raft ''a:1'' demo_log2) = Some r' \<and> r_out r' = [Append_Entries t req] \<and>
    t_host t = ''b'' \<and> aq_entries req = [to_LogEntry demo_entry, to_LogEntry demo_cfg_entry]"
proof -
  have "live_rep demo_os (r_log (demo_raft ''a:1'' demo_log2)) demo_alog" using demo_live2 by (simp add: demo_follower)
  from leader_request [OF this demo_raft_node] show ?thesis by (auto simp: demo_node_def) (auto simp: demo_raft_def)
qed

text \<open>C6: when a follower whose log matches the leader's (log matching: two entries of the same index and term come
  with the same past) has stored the request of the leader, the two logs hold the same entries - term, index, text
  and configuration flag - at every position up to the leader's last that neither has compacted.\<close>

theorem logs_agree:
  assumes "live_rep os (r_log r) a" and "node_at r x = Some n" and "al_index a < n_next_index n"
    and "n_next_index n \<le> al_last a + 1" and "append_entries_to x r = Some r1" and "r_out r1 = r_out r @ [Append_Entries t req]"
    and "live_rep (w_os w) (r_log f) b" and "r_curr_term f \<le> r_curr_term r" and "r_transfer_leader_to f = None"
    and "has_prev b req" and "fits b req" and "matching a b"
  shows "\<exists>res f' b'. rpc_append_entries w req f = Some (res, False, f') \<and> as_success res \<and>
    live_rep (w_os w) (r_log f') b' \<and> as_match_index res = al_last b' \<and> al_last a \<le> al_last b' \<and>
    (\<forall>m. al_index a < m \<and> al_index b < m \<and> m \<le> al_last a \<longrightarrow>
      map_option to_LogEntry (al_get b' m) = map_option to_LogEntry (al_get a m))"
proof -
  obtain t' req' r' where q: "append_entries_to x r = Some r'" "r_out r' = r_out r @ [Append_Entries t' req']"
    "aq_term req' = r_curr_term r" "aq_prev_log_index req' = n_next_index n - 1" "has_prev a req'"
    "aq_entries req' = map to_LogEntry (drop (n_next_index n - 1 - al_index a) (al_entries a))"
    using request_of_leader [OF assms(1-4)] by blast
  then have req: "req' = req" using assms(5,6) by simp
  note q = q [unfolded req]
  have wf: "contiguous (al_index a) (al_entries a)" using assms(1) by (auto simp: live_rep_def log_rep_def wf_alog_def)
  have up: "r_curr_term f \<le> aq_term req" using assms(8) q(3) by simp
  obtain res f' c where s: "rpc_append_entries w req f = Some (res, False, f')" "as_success res"
    "as_match_index res = al_last (merged b (aq_entries req) c)" "live_rep (w_os w) (r_log f') (merged b (aq_entries req) c)"
    using append_entries_stored [OF assms(7) up assms(9-11)] by blast
  have bnd: "al_index a \<le> n_next_index n - 1" "n_next_index n - 1 \<le> al_last a" using assms(3,4) by auto
  have "sized (aq_entries req)" using assms(11) by (simp add: fits_def)
  note same = replicated [OF bnd(1) wf bnd(2) q(4-6) assms(10) this assms(12), of _ c]
  have "al_last a \<le> al_last (merged b (aq_entries req) c)"
  proof -
    have n: "numbered (aq_prev_log_index req) (aq_entries req)" "al_index b \<le> aq_prev_log_index req" "aq_prev_log_index req \<le> al_last b"
      using assms(10,11) has_prev_bounds [OF assms(10)] by (auto simp: fits_def has_prev_def)
    have "aq_prev_log_index req + length (aq_entries req) = al_last a" using q(4,6) bnd by simp
    then show ?thesis using merged_reads(3) [OF n, of c] by simp
  qed
  with s same show ?thesis by blast
qed

lemma demo_request:
  obtains t req r' where "append_entries_to 1 (demo_raft ''a:1'' demo_log2) = Some r'"
    "r_out r' = r_out (demo_raft ''a:1'' demo_log2) @ [Append_Entries t req]" "has_prev empty_alog req" "fits empty_alog req"
proof -
  have "live_rep demo_os (r_log (demo_raft ''a:1'' demo_log2)) demo_alog" using demo_live2 by (simp add: demo_follower)
  from request_of_leader [OF this demo_raft_node] obtain t req r' where q:
    "append_entries_to 1 (demo_raft ''a:1'' demo_log2) = Some r'"
    "r_out r' = r_out (demo_raft ''a:1'' demo_log2) @ [Append_Entries t req]" "aq_prev_log_index req = 0" "has_prev demo_alog req"
    "aq_entries req = [to_LogEntry demo_entry, to_LogEntry demo_cfg_entry]"
    by (auto simp: demo_node_def)
  have "has_prev empty_alog req" using q(3,4) by (simp add: has_prev_def al_get_def)
  moreover have "fits empty_alog req" using demo_append_fits(2) q(3,5) by (simp add: fits_def demo_append_def)
  ultimately show ?thesis using that q(1,2) by blast
qed

theorem logs_agree_witness:
  "\<exists>req res f' b'. rpc_append_entries demo_world req (demo_raft ''b:1'' demo_log) = Some (res, False, f') \<and>
    live_rep demo_os (r_log f') b' \<and> 2 \<le> al_last b' \<and> map_option to_LogEntry (al_get b' 1) = Some (to_LogEntry demo_entry) \<and>
    map_option to_LogEntry (al_get b' 2) = Some (to_LogEntry demo_cfg_entry)"
proof -
  obtain t req r' where q: "append_entries_to 1 (demo_raft ''a:1'' demo_log2) = Some r'"
    "r_out r' = r_out (demo_raft ''a:1'' demo_log2) @ [Append_Entries t req]" "has_prev empty_alog req" "fits empty_alog req"
    by (rule demo_request)
  have l: "live_rep demo_os (r_log (demo_raft ''a:1'' demo_log2)) demo_alog"
    "live_rep (w_os demo_world) (r_log (demo_raft ''b:1'' demo_log)) empty_alog" using demo_live2 demo_live by (simp_all add: demo_follower)
  have "matching demo_alog empty_alog" by (auto simp: matching_def al_get_def split: if_splits)
  from logs_agree [OF l(1) demo_raft_node _ _ q(1,2) l(2) _ _ q(3,4) this] obtain res f' b' where
    f: "rpc_append_entries demo_world req (demo_raft ''b:1'' demo_log) = Some (res, False, f')" "live_rep demo_os (r_log f') b'" "2 \<le> al_last b'"
      "\<And>m. 0 < m \<Longrightarrow> m \<le> 2 \<Longrightarrow> map_option to_LogEntry (al_get b' m) = map_option to_LogEntry (al_get demo_alog m)"
    by (auto simp: demo_follower demo_node_def numeral_2_eq_2)
  have "al_get demo_alog 1 = Some demo_entry" "al_get demo_alog 2 = Some demo_cfg_entry" by (simp_all add: al_get_def)
  then have "map_option to_LogEntry (al_get b' 1) = Some (to_LogEntry demo_entry)" "map_option to_LogEntry (al_get b' 2) = Some (to_LogEntry demo_cfg_entry)"
    using f(4) [of 1] f(4) [of 2] by simp_all
  with f(1-3) show ?thesis by blast
qed

section \<open>Committing\<close>

lemma match_bounds_covers:
  assumes "\<forall>x \<in> set xs. \<exists>n. node_at r x = Some n \<and> n_match_index n \<le> al_last a" and "log_rep (r_log r) a"
    and "al_index a \<le> r_commit_index r" and "0 < lo"
  shows "\<exists>lo' hi'. match_bounds r xs (lo, hi) = Some (lo', hi') \<and> 0 < lo' \<and> lo' \<le> lo \<and> hi \<le> hi' \<and>
    (\<forall>x \<in> set xs. \<forall>n. node_at r x = Some n \<longrightarrow> n_id n \<noteq> r_self_id r \<longrightarrow> qualifies r (n_match_index n) \<longrightarrow>
      lo' \<le> n_match_index n \<and> n_match_index n \<le> hi')"
  using assms(1,4)
proof (induction xs arbitrary: lo hi)
  case (Cons x xs)
  obtain n where n: "node_at r x = Some n" "n_match_index n \<le> al_last a" using Cons.prems(1) by auto
  have get: "\<exists>e. get_entry (r_log r) (n_match_index n) = Some e" if "r_commit_index r < n_match_index n"
    using that n(2) assms(3) by (auto simp: rep_get [OF assms(2)] al_get_def)
  have "\<forall>y \<in> set xs. \<exists>n. node_at r y = Some n \<and> n_match_index n \<le> al_last a" using Cons.prems(1) by simp
  note IH = Cons.IH [OF this]
  show ?case
  proof (cases "n_id n \<noteq> r_self_id r \<and> r_commit_index r < n_match_index n")
    case False
    then show ?thesis using IH [OF Cons.prems(2), of hi] n(1) by (auto simp: qualifies_def)
  next
    case True
    then obtain e where e: "get_entry (r_log r) (n_match_index n) = Some e" using get by blast
    show ?thesis
    proof (cases "e_term e = r_curr_term r")
      case True2: True
      have "0 < min lo (n_match_index n)" using True Cons.prems(2) by simp
      from IH [OF this, of "max hi (n_match_index n)"] show ?thesis using n(1) True True2 e by auto
    next
      case False
      then show ?thesis using IH [OF Cons.prems(2), of hi] n(1) True e by (auto simp: qualifies_def)
    qed
  qed
qed simp

text \<open>The scan returns, with the greatest index that a majority has.\<close>

lemma commit_scan_Suc:
  "commit_scan r (Suc i) lo =
     (if lo \<le> Suc i then if count_matching r (Suc i) > cluster_size r div 2 then Some (Some (Suc i)) else commit_scan r i lo
      else Some None)"
  by (subst commit_scan.simps) simp

lemma commit_scan_total: "0 < lo \<Longrightarrow> \<exists>f. commit_scan r i lo = Some f"
  by (induction i) (simp_all add: commit_scan_Suc commit_scan.simps [of r 0])

lemma commit_scan_greatest:
  "commit_scan r i lo = Some f \<Longrightarrow> 0 < lo \<Longrightarrow> lo \<le> m \<Longrightarrow> m \<le> i \<Longrightarrow> count_matching r m > cluster_size r div 2 \<Longrightarrow>
   \<exists>k. f = Some k \<and> m \<le> k"
proof (induction i)
  case (Suc i)
  show ?case
  proof (cases "count_matching r (Suc i) > cluster_size r div 2")
    case True
    then show ?thesis using Suc.prems by (auto simp: commit_scan_Suc)
  next
    case False
    then have "m \<noteq> Suc i" using Suc.prems(5) by auto
    then have "m \<le> i" using Suc.prems(4) by simp
    moreover have "commit_scan r i lo = Some f" using False Suc.prems(1,3,4) by (simp add: commit_scan_Suc)
    ultimately show ?thesis using Suc by simp
  qed
qed simp

lemma adjust_commit_progress:
  assumes "log_rep (r_log r) a" and "0 < al_last a" and "al_index a \<le> r_commit_index r" and "r_recfg r = None"
    and "\<forall>x \<in> set (members r). \<exists>n. node_at r x = Some n \<and> n_match_index n \<le> al_last a"
  shows "\<exists>r'. adjust_commit_index r = Some r' \<and>
    (\<forall>x \<in> set (members r). \<forall>n e. node_at r x = Some n \<longrightarrow> n_id n \<noteq> r_self_id r \<longrightarrow> r_commit_index r < n_match_index n \<longrightarrow>
      al_get a (n_match_index n) = Some e \<longrightarrow> e_term e = r_curr_term r \<longrightarrow>
      count_matching r (n_match_index n) > cluster_size r div 2 \<longrightarrow> n_match_index n \<le> r_commit_index r')"
proof -
  have last: "last_entry_index (r_log r) = al_last a" using rep_last_entry_index [OF assms(1)] by simp
  obtain lo hi where b: "match_bounds r (members r) (al_last a, 0) = Some (lo, hi)" "0 < lo"
    "\<And>x n. x \<in> set (members r) \<Longrightarrow> node_at r x = Some n \<Longrightarrow> n_id n \<noteq> r_self_id r \<Longrightarrow> qualifies r (n_match_index n) \<Longrightarrow>
      lo \<le> n_match_index n \<and> n_match_index n \<le> hi"
    using match_bounds_covers [OF assms(5,1,3,2), of 0] by (elim exE conjE) simp
  obtain f where f: "commit_scan r hi lo = Some f" using commit_scan_total [OF b(2)] by blast
  note top = commit_scan_greatest [OF f b(2)]
  let ?r1 = "commit_alone (r_commit_index r mod 2 ^ 32) (set_commit f r)"
  have "r_recfg ?r1 = None"
    using assms(4) by (simp add: commit_alone_def set_commit_def log_committed_def Let_def split: option.split)
  then have run: "adjust_commit_index r = Some ?r1"
    using b(1) f by (simp add: adjust_commit_index_def last Let_def commit_configuration_def)
  have up: "m \<le> r_commit_index ?r1" if "f = Some k" "m \<le> k" "m \<le> al_last a" for m k
    using that last by (auto simp: commit_alone_def set_commit_def log_committed_def Let_def)
  have "n_match_index n \<le> r_commit_index ?r1"
    if "x \<in> set (members r)" "node_at r x = Some n" "n_id n \<noteq> r_self_id r" "r_commit_index r < n_match_index n"
      "al_get a (n_match_index n) = Some e" "e_term e = r_curr_term r" "count_matching r (n_match_index n) > cluster_size r div 2"
    for x n e
  proof -
    have "qualifies r (n_match_index n)" using that by (simp add: qualifies_def rep_get [OF assms(1)])
    from b(3) [OF that(1-3) this] top [OF _ _ that(7)] obtain k where "f = Some k" "n_match_index n \<le> k" by blast
    moreover have "n_match_index n \<le> al_last a" using that(1,2) assms(5) by fastforce
    ultimately show ?thesis by (rule up)
  qed
  with run show ?thesis by blast
qed

text \<open>C8: outside a change of the membership, and as long as every match index is within the leader's log, adjusting
  the commit index returns, and when a majority has reported an entry of the current term as matched, the commit
  index is at that entry or beyond it afterwards.\<close>

theorem commit_makes_progress:
  assumes "log_rep (r_log r) a" and "0 < al_last a" and "al_index a \<le> r_commit_index r" and "r_recfg r = None"
    and "\<forall>x \<in> set (members r). \<exists>n. node_at r x = Some n \<and> n_match_index n \<le> al_last a"
  shows "\<exists>r'. adjust_commit_index r = Some r' \<and>
    (\<forall>x \<in> set (members r). \<forall>n e. node_at r x = Some n \<longrightarrow> n_id n \<noteq> r_self_id r \<longrightarrow> r_commit_index r < n_match_index n \<longrightarrow>
      al_get a (n_match_index n) = Some e \<longrightarrow> e_term e = r_curr_term r \<longrightarrow>
      count_matching r (n_match_index n) > cluster_size r div 2 \<longrightarrow> n_match_index n \<le> r_commit_index r')"
  by (rule adjust_commit_progress [OF assms])

definition demo_acked :: raft where
  "demo_acked = set_node 1 (\<lambda>n. n\<lparr>n_match_index := 2\<rparr>) ((demo_raft ''a:1'' demo_log2)\<lparr>r_role := LEADER, r_curr_term := 1\<rparr>)"

lemma demo_acked:
  "r_log demo_acked = demo_log2" "r_recfg demo_acked = None" "members demo_acked = [0, 1, 2]" "r_self_id demo_acked = ''a:1''"
  "node_at demo_acked 0 = Some (demo_node ''a'')" "node_at demo_acked 1 = Some ((demo_node ''b'')\<lparr>n_match_index := 2\<rparr>)"
  "node_at demo_acked 2 = Some (demo_node ''c'')" "cluster_size demo_acked = 3" "r_commit_index demo_acked = 0"
  "r_curr_term demo_acked = 1" "contains demo_acked ''a:1''"
  by (simp_all add: demo_acked_def demo_raft_def set_node_def members_def cluster_size_def contains_def)

lemma demo_acked_count: "count_matching demo_acked 2 = 2"
  using demo_acked(6) by (simp add: count_matching_def demo_acked has_match_def demo_node_def)

lemma demo_acked_sync: "\<forall>x \<in> set (members demo_acked). \<exists>n. node_at demo_acked x = Some n \<and> n_match_index n \<le> al_last demo_alog"
  using demo_acked(6) by (simp add: demo_acked demo_node_def)

theorem commit_makes_progress_witness: "\<exists>r'. adjust_commit_index demo_acked = Some r' \<and> 2 \<le> r_commit_index r'"
proof -
  have "log_rep (r_log demo_acked) demo_alog" using demo_log2(2) by (simp add: demo_acked)
  from commit_makes_progress [OF this _ _ demo_acked(2) demo_acked_sync] obtain r' where
    r': "adjust_commit_index demo_acked = Some r'"
    "\<forall>x \<in> set (members demo_acked). \<forall>n e. node_at demo_acked x = Some n \<longrightarrow> n_id n \<noteq> r_self_id demo_acked \<longrightarrow>
      r_commit_index demo_acked < n_match_index n \<longrightarrow> al_get demo_alog (n_match_index n) = Some e \<longrightarrow>
      e_term e = r_curr_term demo_acked \<longrightarrow> count_matching demo_acked (n_match_index n) > cluster_size demo_acked div 2 \<longrightarrow>
      n_match_index n \<le> r_commit_index r'"
    by (auto simp: demo_acked(9))
  have "1 \<in> set (members demo_acked)" by (simp add: demo_acked)
  moreover have "al_get demo_alog 2 = Some demo_cfg_entry" by (simp add: al_get_def)
  ultimately show ?thesis
    using r'(2) [rule_format, of 1 "(demo_node ''b'')\<lparr>n_match_index := 2\<rparr>" demo_cfg_entry] r'(1) demo_acked_count demo_acked(6)
    by (auto simp: demo_acked demo_node_def)
qed

text \<open>C7: in a cluster of more than one, over a log whose terms do not decrease, the commit index only moves forward,
  to an index within the log that the match indices of a majority have reached - what the followers report, the leader
  counted among them - and whose entry is of the leader's current term.\<close>

theorem commit_is_safe:
  assumes "log_rep (r_log r) a" and "sorted_terms a" and "r_commit_index r \<le> al_last a" and "cluster_size r \<noteq> 1"
    and "adjust_commit_index r = Some r'"
  shows "r_commit_index r' = r_commit_index r \<or>
    r_commit_index r < r_commit_index r' \<and> r_commit_index r' \<le> al_last a \<and>
    count_matching r (r_commit_index r') > cluster_size r div 2 \<and>
    (\<exists>e. al_get a (r_commit_index r') = Some e \<and> e_term e = r_curr_term r)"
  by (rule commit_advances [OF assms])

theorem commit_is_safe_witness: "\<exists>r'. adjust_commit_index demo_acked = Some r' \<and> r_commit_index r' \<le> 2"
proof -
  have l: "log_rep (r_log demo_acked) demo_alog" using demo_log2(2) by (simp add: demo_acked)
  from adjust_commit_progress [OF this _ _ demo_acked(2) demo_acked_sync] obtain r' where r': "adjust_commit_index demo_acked = Some r'"
    by (auto simp: demo_acked(9))
  have "sorted_terms demo_alog" by (simp add: sorted_terms_def)
  from commit_is_safe [OF l this _ _ r'] r' show ?thesis by (auto simp: demo_acked(8,9))
qed

section \<open>A follower with a longer log\<close>

lemma match_bounds_missing:
  assumes "x \<in> set xs" and "node_at r x = Some n" and "n_id n \<noteq> r_self_id r" and "r_commit_index r < n_match_index n"
    and "get_entry (r_log r) (n_match_index n) = None"
  shows "match_bounds r xs b = None"
  using assms(1)
proof (induction xs arbitrary: b)
  case (Cons y ys)
  obtain lo hi where b: "b = (lo, hi)" by (cases b)
  show ?case
  proof (cases "y = x")
    case True
    then show ?thesis using assms(2-5) b by simp
  next
    case False
    then show ?thesis using Cons b by (auto split: bind_splits)
  qed
qed simp

lemma append_entries_to_same:
  "append_entries_to x r = Some r1 \<Longrightarrow> \<exists>i out. r1 = r\<lparr>r_append_entries_id := i, r_out := out\<rparr>"
  by (auto simp: append_entries_to_def Let_def emit_def split: bind_splits)

lemma longer_match_is_null:
  assumes "log_rep (r_log r) a" and "r_role r = LEADER" and "t_node t \<in> set (members r)" and "node_at r (t_node t) = Some n"
    and "n_id n \<noteq> r_self_id r" and "r_commit_index r \<le> al_last a" and "as_success v" and "al_last a < as_match_index v"
  shows "on_append_entries w t (Some v) r = None"
proof -
  let ?f = "\<lambda>n. n\<lparr>n_match_index := as_match_index v, n_next_index := add64 (as_match_index v) 1\<rparr>"
  let ?r = "set_node (t_node t) ?f r"
  have "get_entry (r_log ?r) (as_match_index v) = None"
    using assms(1,8) by (simp add: set_node_def rep_get [OF assms(1)] al_get_def)
  then have "match_bounds ?r (members ?r) b = None" for b
    using assms(3-6,8) by (intro match_bounds_missing [of "t_node t" _ _ "?f n"]) (simp_all add: set_node_def members_def)
  then have "adjust_commit_index ?r = None" by (simp add: adjust_commit_index_def Let_def)
  then show ?thesis using assms(2,4,7) by (simp add: on_append_entries_def Let_def)
qed

text \<open>a heartbeat to a follower whose log agrees with the leader's but goes on beyond it ends in a null
  pointer at the leader: the follower answers with the last index of its own log as the match index,
  and the leader looks that entry up in its log.\<close>

theorem longer_follower_crashes_leader:
  assumes "live_rep os (r_log r) a" and "r_role r = LEADER" and "x \<in> set (members r)" and "node_at r x = Some n"
    and "n_id n \<noteq> r_self_id r" and "n_next_index n = al_last a + 1" and "r_commit_index r \<le> al_last a"
    and "live_rep (w_os w) (r_log f) b" and "r_curr_term f \<le> r_curr_term r" and "r_transfer_leader_to f = None"
    and "al_last a < al_last b" and "al_index b \<le> al_last a" and "al_get b (al_last a) = al_get a (al_last a)"
    and "al_get a (al_last a) \<noteq> None" and "al_last a < u64_bound"
  shows "\<exists>t req r1 res f'. append_entries_to x r = Some r1 \<and> r_out r1 = r_out r @ [Append_Entries t req] \<and>
    rpc_append_entries w req f = Some (res, False, f') \<and> as_success res \<and> on_append_entries w t (Some res) r1 = None"
proof -
  have next_ok: "al_index a < n_next_index n" "n_next_index n \<le> al_last a + 1" using assms(6) by auto
  obtain t req r1 where q: "append_entries_to x r = Some r1" "r_out r1 = r_out r @ [Append_Entries t req]" "t_node t = x"
    "aq_term req = r_curr_term r" "aq_prev_log_index req = n_next_index n - 1" "has_prev a req"
    "aq_entries req = map to_LogEntry (drop (n_next_index n - 1 - al_index a) (al_entries a))"
    using request_of_leader [OF assms(1,4) next_ok] by blast
  have e: "aq_entries req = []" "aq_prev_log_index req = al_last a" using q(5,7) assms(6) by simp_all
  have prev: "has_prev b req"
    using q(6) e(2) assms(12-14) by (auto simp: has_prev_def split: option.splits)
  have "total (al_entries b) < 2 ^ 59" using assms(8) by (simp add: live_rep_def alog_ok_def)
  then have "fits b req" using e assms(15) by (simp add: fits_def sized_def built_def total_def)
  with append_entries_stored [OF assms(8) _ assms(10) prev] q(4) assms(9) obtain res f' c where
    s: "rpc_append_entries w req f = Some (res, False, f')" "as_success res" "as_match_index res = al_last (merged b [] c)"
    unfolding e by auto
  have "merged b [] c = b" by (simp add: merged_def)
  then have m: "al_last a < as_match_index res" using s(3) assms(11) by simp
  obtain i out where r1: "r1 = r\<lparr>r_append_entries_id := i, r_out := out\<rparr>" using append_entries_to_same [OF q(1)] by blast
  have "on_append_entries w t (Some res) r1 = None"
    by (rule longer_match_is_null [of _ a _ n, OF _ _ _ _ _ _ s(2) m])
      (use assms(1-5,7) q(3) in \<open>simp_all add: r1 members_def live_rep_def\<close>)
  with q(1,2) s(1,2) show ?thesis by blast
qed

theorem longer_follower_crashes_leader_witness:
  "\<exists>t req r1 res f'. append_entries_to 1 ((demo_raft ''a:1'' demo_log)\<lparr>r_role := LEADER\<rparr>) = Some r1 \<and>
    rpc_append_entries demo_world req (demo_raft ''b:1'' demo_log2) = Some (res, False, f') \<and>
    on_append_entries demo_world t (Some res) r1 = None"
proof -
  let ?r = "(demo_raft ''a:1'' demo_log)\<lparr>r_role := LEADER\<rparr>"
  have l: "live_rep demo_os (r_log ?r) empty_alog" "live_rep (w_os demo_world) (r_log (demo_raft ''b:1'' demo_log2)) demo_alog"
    using demo_live demo_live2 by (simp_all add: demo_follower)
  have n: "node_at ?r 1 = Some (demo_node ''b'')" "1 \<in> set (members ?r)" by (simp_all add: demo_raft_def members_def)
  have z: "al_last empty_alog = 0" "al_get demo_alog 0 = al_get empty_alog 0" "al_get empty_alog 0 \<noteq> None" by (simp_all add: al_get_def)
  have f: "n_id (demo_node ''b'') \<noteq> r_self_id ?r" "n_next_index (demo_node ''b'') = al_last empty_alog + 1" "r_commit_index ?r \<le> al_last empty_alog"
    by (simp_all add: demo_node_def demo_raft_def)
  have g: "r_curr_term (demo_raft ''b:1'' demo_log2) \<le> r_curr_term ?r" "r_transfer_leader_to (demo_raft ''b:1'' demo_log2) = None"
    "al_last empty_alog < al_last demo_alog" "al_index demo_alog \<le> al_last empty_alog"
    by (simp_all add: demo_follower)
  from longer_follower_crashes_leader [OF l(1) _ n(2,1) f l(2) g] z obtain t req r1 res f' where
    "append_entries_to 1 ?r = Some r1" "rpc_append_entries demo_world req (demo_raft ''b:1'' demo_log2) = Some (res, False, f')"
    "on_append_entries demo_world t (Some res) r1 = None" by auto
  then show ?thesis by blast
qed

section \<open>Two configurations in one request\<close>

text \<open>Two configuration entries are stored by one request, then the second one is cut off again, because another
  leader has something else there.  Both were built with the same previous configuration index, so the log ends up
  with the configuration it had before the request, although the first of the two entries is kept.\<close>

theorem batch_forgets_configuration:
  assumes "log_rep (r_log r) a" and "os_ready os (r_log r)" and "le_index x = al_last a + 1" and "le_index y = al_last a + 2"
    and "le_config x" and "le_config y" and "sized [x, y]" and "al_last a + 2 < u64_bound"
    and "lg_payload (r_log r) + 8 + total (built 0 [x, y]) < size_cap"
  shows "\<exists>adj r1 l2 e. store_entries os [x, y] r = Some (Inr (adj, r1)) \<and> chop os (le_index y) True (r_log r1) = Some (RC_GOOD, l2) \<and>
    get_entry l2 (le_index x) = Some e \<and> to_LogEntry e = x \<and> lg_cfg l2 = lg_cfg (r_log r) \<and> lg_cfg l2 < le_index x"
proof -
  let ?l = "r_log r" and ?c = "lg_cfg (r_log r)"
  let ?v = "built ?c [x, y]"
  have link: "cfg_link a ?c" "?c \<le> al_last a" using log_repD(4) [OF assms(1)] by (auto simp: cfg_link_def)
  have wf: "wf_alog (al_append a ?v)"
    by (rule wf_append_built) (use assms link log_repD(1) [OF assms(1)] in auto)
  have "total (built ?c [x, y]) = total (built 0 [x, y])" by (simp add: total_def built_def)
  with append_rep [OF assms(1) wf assms(2), of True] assms(9) obtain l1 where
    l1: "append os ?v True ?l = Some (RC_GOOD, l1)" "log_rep l1 (al_append a ?v)" "os_ready os l1" "lg_cfg l1 = cfg_after ?c ?v"
    by auto
  have new: "al_get a (le_index x) = None" using assms(3) by (simp add: al_get_def)
  have "\<not> entry_conflicted ?l (le_index x) (le_term x)" "\<not> has_entry ?l (le_index x) (le_term x)"
    using new assms(3) by (simp_all add: rep_conflicted [OF assms(1)] rep_has_entry [OF assms(1)])
  then have st: "store_entries os [x, y] r = Some (Inr (True, r\<lparr>r_log := l1\<rparr>))"
    using l1(1) assms(5) by (simp add: store_entries_def Let_def built_def)
  have y: "al_entries (al_append a ?v) ! (length (al_entries a) + 1) = make_entry ?c (le_data y) (le_index y) (le_term y) (le_config y)"
    by (simp add: built_def nth_append)
  have "length (le_data y) < 2 ^ 59" "?c < u64_bound" using assms(7,8) link(2) by (simp_all add: sized_def)
  then have prev: "prev_cfg (make_entry ?c (le_data y) (le_index y) (le_term y) (le_config y)) = ?c"
    using assms(6) by (simp add: prev_cfg_make_entry)
  have i: "al_index (al_append a ?v) < le_index y" "le_index y \<le> al_last (al_append a ?v)" using assms(4) by simp_all
  have "lg_cfg l1 = al_index (al_append a ?v) + (length (al_entries a) + 1) + 1"
    using l1(4) assms(4,6) by (simp add: built_def)
  then have "chop_walk l1 (le_index y) (lg_cfg l1) = chop_walk l1 (le_index y) ?c"
    using cfg_walk_step(1) [OF l1(2), of "length (al_entries a) + 1" "le_index y"] y prev assms(4,6) by simp
  also have "\<dots> = Some ?c" using cfg_walk_done(1) [of ?c "le_index y" l1] link(2) assms(4) by simp
  finally have walk: "chop_walk l1 (le_index y) (lg_cfg l1) = Some ?c" .
  obtain l2 where l2: "chop os (le_index y) True l1 = Some (RC_GOOD, l2)" "log_rep l2 (al_chop (al_append a ?v) (le_index y))"
    "chop_walk l1 (le_index y) (lg_cfg l1) = Some (lg_cfg l2)"
    using chop_rep [OF l1(2,3) i, of True] by blast
  have "al_get (al_append a ?v) (al_last a + 1 + 0) = Some (?v ! 0)" by (rule al_get_append_new) simp
  then have "get_entry l2 (le_index x) = Some (?v ! 0)"
    using rep_get [OF l2(2)] assms(3,4) i al_get_chop [of "al_append a ?v" "le_index y" "le_index x"] by simp
  moreover have "map to_LogEntry ?v = [x, y]" using to_LogEntry_built [OF assms(7)] .
  then have "to_LogEntry (?v ! 0) = x" by (simp add: built_def)
  ultimately show ?thesis using st l2(1,3) walk link(2) assms(3) by auto
qed

theorem batch_forgets_configuration_witness:
  "\<exists>adj r1 l2 e. store_entries demo_os [\<lparr>le_term = 1, le_index = 1, le_data = ''a'', le_config = True\<rparr>,
      \<lparr>le_term = 1, le_index = 2, le_data = ''a,b'', le_config = True\<rparr>] (demo_raft ''b:1'' demo_log) = Some (Inr (adj, r1)) \<and>
    chop demo_os 2 True (r_log r1) = Some (RC_GOOD, l2) \<and> get_entry l2 1 = Some e \<and> e_cfg e \<and> lg_cfg l2 = 0"
proof -
  let ?x = "\<lparr>le_term = 1, le_index = 1, le_data = ''a'', le_config = True\<rparr>"
  let ?y = "\<lparr>le_term = 1, le_index = 2, le_data = ''a,b'', le_config = True\<rparr>"
  have "sized [?x, ?y]" "lg_payload demo_log + 8 + total (built 0 [?x, ?y]) < size_cap"
    by (simp_all add: sized_def demo_log(7) built_def total_def round_up_eq cfg_offset_def)
  with batch_forgets_configuration [of "demo_raft ''b:1'' demo_log" empty_alog demo_os ?x ?y] obtain adj r1 l2 e where
    r: "store_entries demo_os [?x, ?y] (demo_raft ''b:1'' demo_log) = Some (Inr (adj, r1))" "chop demo_os 2 True (r_log r1) = Some (RC_GOOD, l2)"
      "get_entry l2 1 = Some e" "to_LogEntry e = ?x" "lg_cfg l2 = 0"
    using demo_log(2-4) by (auto simp: demo_follower)
  have "e_cfg e" using arg_cong [OF r(4), of le_config] by simp
  with r show ?thesis by blast
qed

end
