(* ===== verification/Log_Effects.thy ===== *)
theory Log_Effects
  imports Replication_Handlers Election_Effects
begin

text \<open>
  What the handlers send to other logs.  Every append_entries request a handler puts into the list of
  actions was built by a leader from its own log (\<open>told\<close>), and a server without a change of the
  membership or a leadership transfer in progress stays one (\<open>ready\<close>).
\<close>

fun append_of :: "action \<Rightarrow> (task \<times> append_entries_req) list" where
  "append_of (Append_Entries t req) = [(t, req)]"
| "append_of _ = []"

definition appends :: "raft \<Rightarrow> (task \<times> append_entries_req) list" where
  "appends r = concat (map append_of (r_out r))"

definition ready :: "raft \<Rightarrow> bool" where
  "ready r \<longleftrightarrow> r_recfg r = None \<and> r_transfer_leader_to r = None \<and> (\<forall>x n. node_at r x = Some n \<longrightarrow> 0 < n_next_index n)"

text \<open>The task is for another member, at its address.\<close>

definition dest_ok :: "raft \<Rightarrow> task \<Rightarrow> bool" where
  "dest_ok r t \<longleftrightarrow> (\<exists>k. (k, t_node t) \<in> set (r_cluster r) \<and> k \<noteq> r_self_id r \<and> t_host t @ '':'' @ t_port t = k)"

definition told :: "raft \<Rightarrow> task \<times> append_entries_req \<Rightarrow> bool" where
  "told r = (\<lambda>(t, req). r_role r = LEADER \<and> dest_ok r t \<and>
     (\<exists>q n i. vote_core q = vote_core r \<and> 0 < n_next_index n \<and>
        req = fill_append_entries q n i (entries_from (r_log q) (n_next_index n))))"

lemma told_core: "vote_core r' = vote_core r \<Longrightarrow> told r' = told r"
  by (auto simp: told_def dest_ok_def vote_core_def fun_eq_iff)

definition sends :: "raft \<Rightarrow> raft \<Rightarrow> bool" where
  "sends r r' \<longleftrightarrow> (ready r \<longrightarrow> ready r' \<and> (\<exists>new. appends r' = appends r @ new \<and> (\<forall>x \<in> set new. told r' x)))"

text \<open>Nothing sent.\<close>

definition keeps :: "raft \<Rightarrow> raft \<Rightarrow> bool" where
  "keeps r r' \<longleftrightarrow> (ready r \<longrightarrow> ready r' \<and> appends r' = appends r)"

lemma keeps_refl [simp, intro]: "keeps r r"
  by (simp add: keeps_def)

lemma keeps_trans: "keeps r1 r2 \<Longrightarrow> keeps r2 r3 \<Longrightarrow> keeps r1 r3"
  by (auto simp: keeps_def)

lemma keeps_sends: "keeps r r' \<Longrightarrow> sends r r'"
  by (auto simp: keeps_def sends_def)

lemma sends_after: "keeps r1 r2 \<Longrightarrow> sends r2 r3 \<Longrightarrow> sends r1 r3"
  by (auto simp: keeps_def sends_def)

lemma sends_trans: "sends r1 r2 \<Longrightarrow> sends r2 r3 \<Longrightarrow> vote_core r3 = vote_core r2 \<Longrightarrow> sends r1 r3"
  using told_core [of r3 r2] by (auto simp: sends_def)

lemma sends_frame: "sends r1 r2 \<Longrightarrow> sends r2 r3 \<Longrightarrow> frame r2 r3 \<Longrightarrow> sends r1 r3"
  by (rule sends_trans) (simp_all add: frame_def)

lemma keeps_for_nodes:
  assumes "\<And>a r r'. f a r = Some r' \<Longrightarrow> keeps r r'" and "for_nodes f as r = Some r'"
  shows "keeps r r'"
  using assms(2)
proof (induction "as" arbitrary: r)
  case (Cons a "as")
  then obtain r1 where "f a r = Some r1" "for_nodes f as r1 = Some r'" by (auto split: bind_splits)
  with Cons.IH assms(1) show ?case by (blast intro: keeps_trans)
qed simp

section \<open>Steps that send nothing to a log\<close>

lemma keeps_emit: "append_of act = [] \<Longrightarrow> keeps r (emit act r)"
  by (simp add: keeps_def ready_def appends_def emit_def)

lemma keeps_fields [simp]:
  "keeps r (r\<lparr>r_pre_vote_id := i\<rparr>)" "keeps r (r\<lparr>r_timeout_now_id := i\<rparr>)" "keeps r (r\<lparr>r_request_vote_id := i\<rparr>)"
  "keeps r (r\<lparr>r_append_entries_id := i\<rparr>)" "keeps r (r\<lparr>r_last_heartbeat := i\<rparr>)" "keeps r (r\<lparr>r_commit_index := i\<rparr>)"
  "keeps r (r\<lparr>r_replies := h\<rparr>)" "keeps r (log_committed r)" "keeps r (r\<lparr>r_leader := s\<rparr>)" "keeps r (r\<lparr>r_role := role, r_leader := s\<rparr>)"
  "keeps r (r\<lparr>r_pre_votes_granted := i, r_pre_votes_refused := j, r_role := role\<rparr>)" "keeps r (r\<lparr>r_votes := i\<rparr>)"
  "keeps r (r\<lparr>r_pre_votes_granted := i\<rparr>)" "keeps r (r\<lparr>r_pre_votes_refused := i\<rparr>)" "keeps r (r\<lparr>r_voted_for := s\<rparr>)"
  "keeps r (r\<lparr>r_curr_term := i, r_voted_for := s\<rparr>)" "keeps r (r\<lparr>r_role := role, r_curr_term := i\<rparr>)" "keeps r (r\<lparr>r_role := role\<rparr>)"
  "keeps r (r\<lparr>r_role := role, r_leader := s, r_curr_term := i, r_voted_for := s', r_votes := j\<rparr>)" "keeps r (r\<lparr>r_data_transfer_id := i\<rparr>)"
  "keeps r (r\<lparr>r_last := s\<rparr>)" "keeps r (r\<lparr>r_iter := ps\<rparr>)" "keeps r (r\<lparr>r_fin := f\<rparr>)" "keeps r (r\<lparr>r_fin := f, r_gcount := i\<rparr>)"
  "keeps r (init_transfer w r)"
  by (simp_all add: keeps_def ready_def appends_def log_committed_def init_transfer_def)

lemma keeps_set_node: "(\<And>n. 0 < n_next_index n \<Longrightarrow> 0 < n_next_index (f n)) \<Longrightarrow> keeps r (set_node a f r)"
  by (auto simp: keeps_def ready_def appends_def set_node_def)

lemma keeps_timers [simp]:
  "keeps r (remove_election_timer r)" "keeps r (reset_election_timer r)" "keeps r (remove_heartbeat_timer r)" "keeps r (reset_heartbeat_timer r)"
  by (simp_all add: keeps_emit remove_election_timer_def reset_election_timer_def remove_heartbeat_timer_def reset_heartbeat_timer_def)

lemma keeps_send_pre_vote: "send_pre_vote early a r = Some r' \<Longrightarrow> keeps r r'"
  by (auto simp: send_pre_vote_def Let_def intro!: keeps_trans [OF keeps_fields(1) keeps_emit])

lemma keeps_request_vote: "request_vote a r = Some r' \<Longrightarrow> keeps r r'"
  by (auto simp: request_vote_def Let_def intro!: keeps_trans [OF keeps_fields(3) keeps_emit])

lemma keeps_timeout_now: "timeout_now a r = Some r' \<Longrightarrow> keeps r r'"
  by (auto simp: timeout_now_def Let_def intro!: keeps_trans [OF keeps_fields(2) keeps_emit])

lemma keeps_to_peer: "(\<And>r r'. f a r = Some r' \<Longrightarrow> keeps r r') \<Longrightarrow> to_peer f a r = Some r' \<Longrightarrow> keeps r r'"
  by (auto simp: to_peer_def split: bind_splits if_splits)

lemma keeps_adjust_commit_index: "adjust_commit_index r = Some r' \<Longrightarrow> keeps r r'"
  unfolding keeps_def
  by (auto simp: ready_def appends_def adjust_commit_index_def set_commit_def commit_alone_def log_committed_def commit_configuration_def
      Let_def split: bind_splits option.splits if_splits)

text \<open>With nobody to hand leadership over to, stepping down is only this.\<close>

lemma step_down_ready:
  assumes "r_transfer_leader_to r = None"
  shows "step_down t s r = Some (reset_election_timer ((remove_heartbeat_timer r)\<lparr>r_role := FOLLOWER, r_curr_term := t\<rparr>))"
  using assms by (simp add: step_down_def Let_def reset_election_timer_def remove_heartbeat_timer_def emit_def)

lemma keeps_step_down: "step_down t s r = Some r' \<Longrightarrow> keeps r r'"
proof (cases "ready r")
  case True
  assume "step_down t s r = Some r'"
  then have "r' = reset_election_timer ((remove_heartbeat_timer r)\<lparr>r_role := FOLLOWER, r_curr_term := t\<rparr>)"
    using step_down_ready True by (auto simp: ready_def)
  then show ?thesis by (blast intro: keeps_trans [OF keeps_trans [OF keeps_timers(3) keeps_fields(17)] keeps_timers(2)])
qed (simp add: keeps_def)

section \<open>What a leader sends\<close>

lemma sends_append_entries_to:
  assumes "append_entries_to a r = Some r'" and "member_ok ids i r" and "(k, a) \<in> set (r_cluster r)" and "k \<noteq> r_self_id r"
    and "r_role r = LEADER"
  shows "sends r r'"
proof -
  obtain n where n: "node_at r a = Some n" "n_host n @ '':'' @ n_port n = k" using member_ok_node [OF assms(2,3)] by blast
  define q where "q = r\<lparr>r_append_entries_id := r_append_entries_id r + 1\<rparr>"
  define t where "t = \<lparr>t_id = r_append_entries_id r + 1, t_node = a, t_host = n_host n, t_port = n_port n\<rparr>"
  define req where "req = fill_append_entries q n (r_append_entries_id r + 1) (entries_from (r_log r) (n_next_index n))"
  have r': "r' = emit (Append_Entries t req) q"
    using assms(1) n by (simp add: append_entries_to_def make_task_def q_def t_def req_def Let_def)
  have core: "vote_core q = vote_core r'" "r_log q = r_log r" by (simp_all add: r' q_def vote_core_def emit_def)
  have "dest_ok r' t" using assms(3,4) n(2) by (auto simp: dest_ok_def t_def r' q_def emit_def)
  moreover have "r_role r' = LEADER" using assms(5) by (simp add: r' q_def emit_def)
  ultimately have "told r' (t, req)" if "ready r"
    using that n(1) core unfolding told_def req_def ready_def by (auto intro!: exI [of _ q] exI [of _ n])
  moreover have "appends r' = appends r @ [(t, req)]" by (simp add: r' q_def appends_def emit_def)
  moreover have "ready r' = ready r" by (simp add: r' q_def ready_def emit_def)
  ultimately show ?thesis by (simp add: sends_def)
qed

lemma sends_to_members:
  assumes "for_nodes f as r = Some r'" and "set as \<subseteq> set (members r)" and "member_ok ids i r" and "r_role r = LEADER"
    and step: "\<And>a r r'. a \<in> set (members r) \<Longrightarrow> member_ok ids i r \<Longrightarrow> r_role r = LEADER \<Longrightarrow> f a r = Some r' \<Longrightarrow> sends r r' \<and> frame r r'"
  shows "sends r r' \<and> frame r r'"
  using assms(1-4)
proof (induction "as" arbitrary: r)
  case (Cons a "as")
  then obtain r1 where r1: "f a r = Some r1" "for_nodes f as r1 = Some r'" by (auto split: bind_splits)
  have 1: "sends r r1" "frame r r1" using step [OF _ Cons.prems(3,4) r1(1)] Cons.prems(2) by simp_all
  have "set as \<subseteq> set (members r1)" "member_ok ids i r1" "r_role r1 = LEADER"
    using Cons.prems(2-4) frameD(4,8) [OF 1(2)] member_ok_frame [OF 1(2)] by simp_all
  from Cons.IH [OF r1(2) this] 1 show ?case by (blast intro: sends_frame frame_trans)
qed (simp add: keeps_sends)

lemma sends_append_entries:
  assumes "append_entries w r = Some r'" and "member_ok ids i r"
  shows "sends r r'"
proof -
  let ?send = "to_peer (\<lambda>a r. do { n \<leftarrow> node_at r a; if n_transfer_data_to n then Some r else append_entries_to a r })"
  let ?r1 = "(reset_heartbeat_timer r)\<lparr>r_last_heartbeat := w_now w\<rparr>"
  have start: "keeps r ?r1" "frame r ?r1"
    by (rule keeps_trans [OF keeps_timers(4) keeps_fields(5)], rule frame_trans [OF frame_timers(4) frame_simps(5)])
  have step: "sends q q' \<and> frame q q'" if "a \<in> set (members q)" "member_ok ids i q" "r_role q = LEADER" "?send a q = Some q'" for a q q'
  proof -
    note q = that
    have "a \<in> snd ` set (r_cluster q)" using q(1) by (simp add: members_def)
    then obtain k where k: "(k, a) \<in> set (r_cluster q)" by auto
    obtain n where n: "node_at q a = Some n" "n_id n = k" using member_ok_node [OF q(2) k] by blast
    show ?thesis
    proof (cases "k \<noteq> r_self_id q \<and> \<not> n_transfer_data_to n")
      case True
      then have "append_entries_to a q = Some q'" using q(4) n by (simp add: to_peer_def)
      then show ?thesis using sends_append_entries_to [OF _ q(2) k _ q(3)] True frame_append_entries_to by blast
    next
      case False
      then show ?thesis using q(4) n by (auto simp: to_peer_def keeps_sends split: if_splits)
    qed
  qed
  show ?thesis
  proof (cases "r_role (reset_heartbeat_timer r) = LEADER")
    case True
    with assms(1) obtain r2 where r2: "for_nodes ?send (members (reset_heartbeat_timer r)) ?r1 = Some r2"
      "(if cluster_size r2 = 1 \<and> contains r2 (r_self_id r2) then adjust_commit_index r2 else Some r2) = Some r'"
      by (auto simp: append_entries_def Let_def split: bind_splits)
    have "member_ok ids i ?r1" "r_role ?r1 = LEADER" "set (members (reset_heartbeat_timer r)) \<subseteq> set (members ?r1)"
      using assms(2) member_ok_frame [OF start(2)] True by (simp_all add: members_def)
    from sends_to_members [OF r2(1) this(3,1,2) step] have "sends ?r1 r2" "frame ?r1 r2" by simp_all
    moreover have "keeps r2 r' \<and> frame r2 r'"
      using r2(2) by (auto split: if_splits intro: keeps_adjust_commit_index frame_adjust_commit_index)
    ultimately show ?thesis using start(1) by (blast intro: sends_after sends_frame keeps_sends)
  qed (use assms(1) in \<open>auto simp: append_entries_def Let_def intro: keeps_sends\<close>)
qed

section \<open>Elections\<close>

lemma sends_step_up:
  assumes "step_up w r = Some r'" and "member_ok ids i r"
  shows "sends r r'"
proof -
  let ?r1 = "r\<lparr>r_role := LEADER, r_leader := r_self_id r\<rparr>"
  let ?f = "\<lambda>a r1. do { _ \<leftarrow> node_at r1 a;
      Some (set_node a (\<lambda>n. n\<lparr>n_match_index := 0, n_next_index := last_entry_index (r_log r) + 1\<rparr>) r1) }"
  obtain r2 where r2: "for_nodes ?f (members ?r1) ?r1 = Some r2" "append_entries w (remove_election_timer r2) = Some r'"
    using assms(1) by (auto simp: step_up_def Let_def split: bind_splits)
  have "keeps ?r1 r2" by (rule keeps_for_nodes [OF _ r2(1)]) (auto split: bind_splits intro!: keeps_set_node)
  moreover have "frame ?r1 r2" by (rule frame_for_nodes [OF _ r2(1)]) (auto split: bind_splits)
  moreover have "member_ok ids i ?r1"
    using assms(2) member_ok_cong [of ?r1 r] by (simp add: peer_names_def members_def)
  ultimately have "keeps r r2" "member_ok ids i (remove_election_timer r2)"
    using keeps_trans [OF keeps_fields(10)] member_ok_frame frame_timers(1) by blast+
  then show ?thesis using sends_append_entries [OF r2(2)] by (blast intro: sends_after keeps_trans keeps_timers)
qed

lemma sends_leader_election:
  assumes "leader_election w r = Some r'" and "member_ok ids i r"
  shows "sends r r'"
proof -
  define r1 where "r1 = r\<lparr>r_role := CANDIDATE, r_leader := ''unknown'', r_curr_term := r_curr_term r + 1,
      r_voted_for := c_string (r_self_id r), r_votes := of_bool (contains r (r_self_id r))\<rparr>"
  have k: "keeps r r1" by (simp add: r1_def)
  have m: "member_ok ids i r1" using assms(2) member_ok_cong [of r1 r] by (simp add: r1_def peer_names_def members_def)
  have run: "(if cluster_size r1 = 1 \<and> r_votes r1 \<noteq> 0 then step_up w r1
      else map_option reset_election_timer (for_nodes (to_peer request_vote) (members r1) r1)) = Some r'"
    using assms(1) unfolding leader_election_def Let_def r1_def .
  show ?thesis
  proof (cases "cluster_size r1 = 1 \<and> r_votes r1 \<noteq> 0")
    case True
    then have "step_up w r1 = Some r'" using run by simp
    then show ?thesis using sends_step_up m k sends_after by blast
  next
    case False
    then obtain r2 where r2: "for_nodes (to_peer request_vote) (members r1) r1 = Some r2" "r' = reset_election_timer r2"
      using run by auto
    have "keeps r1 r2" by (rule keeps_for_nodes [OF _ r2(1)]) (rule keeps_to_peer [OF keeps_request_vote])
    then show ?thesis using k r2(2) by (blast intro: keeps_sends keeps_trans keeps_timers)
  qed
qed

lemma sends_pre_vote:
  assumes "pre_vote w early r = Some r'" and "member_ok ids i r"
  shows "sends r r'"
proof (cases "cluster_size r = 1 \<and> contains r (r_self_id r)")
  case True
  then show ?thesis using assms sends_leader_election by (simp add: pre_vote_def Let_def)
next
  case False
  let ?r1 = "r\<lparr>r_pre_votes_granted := of_bool (contains r (r_self_id r)), r_pre_votes_refused := 0, r_role := FOLLOWER\<rparr>"
  have run: "for_nodes (to_peer (send_pre_vote early)) (members ?r1) ?r1 = Some r'"
    using assms(1) False by (auto simp: pre_vote_def Let_def)
  have "keeps ?r1 r'" by (rule keeps_for_nodes [OF _ run]) (rule keeps_to_peer [OF keeps_send_pre_vote])
  then show ?thesis by (rule keeps_sends [OF keeps_trans [OF keeps_fields(11)]])
qed

lemma sends_checkout:
  "checkout w r = Some r' \<Longrightarrow> member_ok ids i r \<Longrightarrow> sends r r'"
  using sends_leader_election by (auto simp: checkout_def keeps_sends split: if_splits)

lemma sends_on_pre_vote:
  assumes "on_pre_vote w res r = Some r'" and "member_ok ids i r"
  shows "sends r r'"
proof -
  have m: "member_ok ids i (r\<lparr>r_pre_votes_granted := x\<rparr>)" "member_ok ids i (r\<lparr>r_pre_votes_refused := x\<rparr>)" for x
    using assms(2) member_ok_frame by (simp_all add: member_ok_frame [OF frame_simps(11)] member_ok_frame [OF frame_simps(12)])
  have c: "checkout w (r\<lparr>r_pre_votes_granted := x\<rparr>) = Some r' \<Longrightarrow> sends r r'"
    "checkout w (r\<lparr>r_pre_votes_refused := x\<rparr>) = Some r' \<Longrightarrow> sends r r'" for x
    using sends_after [OF keeps_fields(13) sends_checkout [OF _ m(1)]] sends_after [OF keeps_fields(14) sends_checkout [OF _ m(2)]] by blast+
  show ?thesis using assms(1) by (auto simp: on_pre_vote_def keeps_sends split: if_splits option.splits dest: c)
qed

lemma sends_on_request_vote:
  assumes "on_request_vote w res r = Some r'" and "member_ok ids i r"
  shows "sends r r'"
proof -
  have m: "member_ok ids i (r\<lparr>r_votes := x\<rparr>)" for x
    using assms(2) member_ok_cong [of "r\<lparr>r_votes := x\<rparr>" r] by (simp add: peer_names_def members_def)
  show ?thesis using assms(1) sends_step_up [OF _ m] keeps_step_down
    by (auto simp: on_request_vote_def Let_def intro: keeps_sends sends_after [OF keeps_fields(12)] split: option.splits if_splits)
qed

lemma sends_on_election_timeout: "on_election_timeout w ec r = Some r' \<Longrightarrow> member_ok ids i r \<Longrightarrow> sends r r'"
  using sends_pre_vote by (auto simp: on_election_timeout_def keeps_sends split: if_splits)

lemma sends_on_heartbeat_timeout: "on_heartbeat_timeout w ec r = Some r' \<Longrightarrow> member_ok ids i r \<Longrightarrow> sends r r'"
  using sends_append_entries by (auto simp: on_heartbeat_timeout_def keeps_sends split: if_splits)

lemma sends_rpc_timeout_now:
  assumes "rpc_timeout_now w q r = Some (res, r')" and "member_ok ids i r"
  shows "sends r r'"
proof -
  have "pre_vote w True (remove_election_timer r) = Some r'" using assms(1) by (auto simp: rpc_timeout_now_def split: bind_splits)
  moreover have "member_ok ids i (remove_election_timer r)" using assms(2) member_ok_frame [OF frame_timers(1)] by blast
  ultimately show ?thesis using sends_pre_vote sends_after [OF keeps_timers(1)] by blast
qed

lemma keeps_rpc_request_vote: "rpc_request_vote req r = Some (res, r') \<Longrightarrow> keeps r r'"
  by (auto simp: rpc_request_vote_def Let_def dest!: keeps_step_down split: bind_splits if_splits
      intro: keeps_trans [OF keeps_fields(15)] keeps_trans [OF keeps_trans [OF keeps_fields(15)]] keeps_trans [OF _ keeps_fields(16)]
        keeps_trans [OF keeps_trans [OF keeps_fields(15)] keeps_fields(16)])

section \<open>The answer to a request\<close>

lemma transfer_file_only: "transfer_file w p req r = (req', r') \<Longrightarrow> frame r r' \<and> keeps r r'"
  by (auto simp: transfer_file_def set_last_def frame_def vote_core_def peer_names_def ballots_def members_def keeps_def ready_def
      appends_def Let_def split: if_splits option.splits prod.splits)

lemma transfer_only: "transfer w req r = Some (req', r') \<Longrightarrow> frame r r' \<and> keeps r r'"
proof -
  assume run: "transfer w req r = Some (req', r')"
  have s: "frame r (r\<lparr>r_iter := ps\<rparr>) \<and> keeps r (r\<lparr>r_iter := ps\<rparr>)" "frame r (r\<lparr>r_iter := ps, r_last := l\<rparr>) \<and> keeps r (r\<lparr>r_iter := ps, r_last := l\<rparr>)" for ps l
    by (simp_all add: frame_def vote_core_def peer_names_def ballots_def members_def keeps_def ready_def appends_def)
  from run obtain ps where "(if is_directory w (hd ps) then
        case set_last w (hd ps) req (r\<lparr>r_iter := ps\<rparr>) of (req', r') \<Rightarrow> Some (req'\<lparr>dq_name := r_last r' @ ''/''\<rparr>, r')
      else if is_regular_file w (hd ps) then Some (transfer_file w (hd ps) req (r\<lparr>r_iter := ps\<rparr>)) else Some (req, r\<lparr>r_iter := ps\<rparr>)) = Some (req', r')"
    by (auto simp: transfer_def Let_def split: bind_splits)
  then show ?thesis using s transfer_file_only [of w "hd ps" req "r\<lparr>r_iter := ps\<rparr>"]
    by (auto simp: set_last_def split: if_splits intro: frame_trans keeps_trans [OF keeps_fields(22)])
qed

lemma frame_data_id [simp]: "frame r (r\<lparr>r_data_transfer_id := i\<rparr>)" "frame r (init_transfer w r)"
  by (simp_all add: frame_def vote_core_def peer_names_def ballots_def members_def init_transfer_def)

lemma do_data_transfer_only:
  assumes "do_data_transfer w a r = Some r'" and "ready r"
  shows "frame r r' \<and> keeps r r'"
proof (cases "r_role r = LEADER")
  case True
  have new: "\<not> newly r a" using assms(2) by (simp add: ready_def newly_def)
  define r1 where "r1 = r\<lparr>r_data_transfer_id := r_data_transfer_id r + 1\<rparr>"
  define r2 where "r2 = (if r_data_transfer_id r + 1 = 1 then set_node a (\<lambda>n. n\<lparr>n_transfer_data_to := True,
      n_next_index := last_entry_index (r_log r1) + 1\<rparr>) r1 else r1)"
  have 2: "frame r r2 \<and> keeps r r2"
    unfolding r2_def r1_def
    by (auto intro!: frame_trans [OF frame_data_id(1) frame_set_node] keeps_trans [OF keeps_fields(20) keeps_set_node] simp: peer_name_def)
  let ?req = "fill_data r1 (r_data_transfer_id r + 1)"
  let ?step = "if r_iter r2 \<noteq> [] then transfer w ?req r2
      else if is_regular_file w (r_path r2) then Some (transfer_file w (r_path r2) ?req r2)
      else if is_directory w (r_path r2) then
        case set_last w (r_path r2) ?req r2 of (req', r') \<Rightarrow> Some (req'\<lparr>dq_name := r_last r' @ ''/''\<rparr>, r')
      else Some (?req, r2)"
  obtain n where n: "node_at r a = Some n" using assms(1) True by (auto simp: do_data_transfer_def split: bind_splits)
  have "do_data_transfer w a r = do { (req', r3) \<leftarrow> ?step; t \<leftarrow> make_task r3 a (r_data_transfer_id r + 1); Some (emit (Data_Transfer t req') r3) }"
    unfolding do_data_transfer_def r2_def r1_def using True new n by (simp only: Let_def bind.bind_lunit simp_thms if_False)
  with assms(1) obtain req' r3 t where r3: "?step = Some (req', r3)" "r' = emit (Data_Transfer t req') r3"
    by (auto simp only: bind_eq_Some_conv split_paired_Ex prod.case option.inject)
  have "frame r2 (r2\<lparr>r_last := l\<rparr>)" for l by (simp add: frame_def vote_core_def peer_names_def ballots_def members_def)
  then have "frame r2 r3 \<and> keeps r2 r3"
    using r3(1) transfer_only transfer_file_only by (auto simp: set_last_def split: if_splits)
  then show ?thesis unfolding r3(2) using 2
    by (auto intro: frame_trans [OF _ frame_emit] keeps_trans [OF _ keeps_emit] frame_trans keeps_trans)
qed (use assms(1) in \<open>simp add: do_data_transfer_def\<close>)

text \<open>For a server with nothing in progress.  The answered request was its own.\<close>

lemma on_append_entries_effect:
  assumes run: "on_append_entries w t ans r = Some r'" and "ready r" and "member_ok ids i r"
    and dest: "(k, t_node t) \<in> set (r_cluster r)" "k \<noteq> r_self_id r"
    and small: "\<And>v. ans = Some v \<Longrightarrow> as_match_index v + 1 < u64_bound"
  shows "sends r r' \<and> (frame r r' \<or> (\<exists>v s. ans = Some v \<and> r_curr_term r < as_term v \<and> step_down (as_term v) s r = Some r'))"
proof -
  have new: "\<not> newly q a" if "ready q" for q a using that by (simp add: ready_def newly_def)
  show ?thesis
  proof (cases "ans = None \<or> r_role r \<noteq> LEADER")
    case True
    then show ?thesis using run new [OF assms(2)] by (auto simp: on_append_entries_def Let_def keeps_sends split: option.splits)
  next
    case False
    then obtain v where v: "ans = Some v" "r_role r = LEADER" by auto
    then have pos: "0 < add64 (as_match_index v) 1" using small by simp
    let ?a = "t_node t"
    show ?thesis
    proof (cases "as_success v")
      case ok: True
      let ?r0 = "set_node ?a (\<lambda>n. n\<lparr>n_match_index := as_match_index v, n_next_index := add64 (as_match_index v) 1\<rparr>) r"
      have "\<exists>m r1 n r2. node_at r ?a = Some m \<and> adjust_commit_index ?r0 = Some r1 \<and> node_at r1 ?a = Some n \<and>
          (if n_transfer_leader_to n then handle_transfer_leader_to ?a r1 else Some r1) = Some r2 \<and>
          (if newly r2 ?a then handle_catch_up w r2 else Some r2) = Some r'"
        using run v ok unfolding on_append_entries_def Let_def
        by (simp only: option.case simp_thms if_True if_False bind_eq_Some_conv) blast
      then obtain r1 and n :: node and r2 where r1: "adjust_commit_index ?r0 = Some r1"
        "(if n_transfer_leader_to n then handle_transfer_leader_to ?a r1 else Some r1) = Some r2"
        "(if newly r2 ?a then handle_catch_up w r2 else Some r2) = Some r'" by blast
      have 0: "keeps r ?r0" "frame r ?r0" using pos by (auto intro: keeps_set_node)
      have 1: "keeps ?r0 r1" "frame ?r0 r1" using r1(1) keeps_adjust_commit_index frame_adjust_commit_index by blast+
      have 2: "keeps r1 r2" "frame r1 r2"
        using r1(2) keeps_timeout_now frame_timeout_now by (auto simp: handle_transfer_leader_to_def split: bind_splits if_splits)
      have k: "keeps r r2" using 0(1) 1(1) 2(1) keeps_trans by blast
      then have "r' = r2" using r1(3) new [of r2] assms(2) by (simp add: keeps_def)
      then show ?thesis using k 0(2) 1(2) 2(2) by (blast intro: keeps_sends frame_trans)
    next
      case refused: False
      show ?thesis
      proof (cases "as_term v > r_curr_term r")
        case True
        then show ?thesis using run v refused keeps_step_down
          by (auto simp: on_append_entries_def Let_def intro: keeps_sends split: bind_splits)
      next
        case False
        let ?r1 = "set_node ?a (\<lambda>n. n\<lparr>n_next_index := add64 (as_match_index v) 1\<rparr>) r"
        have 1: "keeps r ?r1" "frame r ?r1" using pos by (auto intro: keeps_set_node)
        have rest: "(if lookup (r_log ?r1) (add64 (as_match_index v) 1) = None then
              do_data_transfer w ?a (set_node ?a (\<lambda>n. n\<lparr>n_transfer_data_to := True\<rparr>) (init_transfer w ?r1))
            else append_entries_to ?a ?r1) = Some r'"
          using run v refused False by (auto simp: on_append_entries_def Let_def split: bind_splits)
        show ?thesis
        proof (cases "lookup (r_log ?r1) (add64 (as_match_index v) 1) = None")
          case True
          let ?r2 = "set_node ?a (\<lambda>n. n\<lparr>n_transfer_data_to := True\<rparr>) (init_transfer w ?r1)"
          have 2: "keeps ?r1 ?r2" "frame ?r1 ?r2"
            by (auto intro: keeps_trans [OF keeps_fields(25) keeps_set_node] frame_trans [OF frame_data_id(2) frame_node_fields(5)])
          have "ready ?r2" using 1(1) 2(1) assms(2) by (simp add: keeps_def)
          then have "frame ?r2 r' \<and> keeps ?r2 r'" using do_data_transfer_only rest True by simp
          then show ?thesis using 1 2 by (blast intro: keeps_sends keeps_trans frame_trans)
        next
          case False
          have "member_ok ids i ?r1" using assms(3) member_ok_frame [OF 1(2)] by simp
          moreover have "(k, ?a) \<in> set (r_cluster ?r1)" "k \<noteq> r_self_id ?r1" "r_role ?r1 = LEADER"
            using dest v(2) by (simp_all add: set_node_def)
          moreover have "append_entries_to ?a ?r1 = Some r'" using rest by (simp only: False if_False)
          ultimately have "sends ?r1 r'" "frame ?r1 r'" using sends_append_entries_to frame_append_entries_to by blast+
          then show ?thesis using 1 by (blast intro: sends_after frame_trans)
        qed
      qed
    qed
  qed
qed

end
