(* ===== verification/Transfer_Arrives.thy ===== *)
theory Transfer_Arrives
  imports Log_Effects
begin

text \<open>
  A data transfer from both sides: the leader sends one chunk per request, the follower handles it, the
  leader handles the answer.  The first request replaces the follower's log by the leader's compaction
  point; the data of the requests goes into the file.
\<close>

section \<open>The first request\<close>

definition compacted_to :: "nat \<Rightarrow> nat \<Rightarrow> string \<Rightarrow> alog" where
  "compacted_to i t c = \<lparr>al_index = i, al_term = t, al_config = c, al_entries = []\<rparr>"

lemma compacted_to_sel [simp]:
  "al_index (compacted_to i t c) = i" "al_term (compacted_to i t c) = t" "al_config (compacted_to i t c) = c"
  "al_entries (compacted_to i t c) = []"
  by (simp_all add: compacted_to_def)

lemma chop_all:
  assumes "live_rep os l b"
  shows "\<exists>rc l'. chop os (last_index l + 1) True l = Some (rc, l') \<and> live_rep os l' (b\<lparr>al_entries := []\<rparr>)"
proof (cases "al_entries b = []")
  case True
  then have "\<not> (al_index b < last_index l + 1 \<and> last_index l + 1 \<le> al_last b)"
    using rep_last_index(1) [of l b] assms by (simp add: live_rep_def)
  moreover have "b\<lparr>al_entries := []\<rparr> = b" using True by simp
  ultimately show ?thesis using file_log.cut_oor [OF assms, of "last_index l + 1" True] assms by simp
next
  case False
  have i: "last_index l = al_index b" using rep_last_index(1) [of l b] assms by (simp add: live_rep_def)
  have "al_index b < last_index l + 1" "last_index l + 1 \<le> al_last b" using False i by (cases "al_entries b"; simp)+
  then show ?thesis using file_log.cut_good [OF assms, of "last_index l + 1" True] i by (auto simp: al_chop_def)
qed

text \<open>Adjusting the members touches nothing that their addition and removal leave alone.\<close>

lemma fold_same: "(\<And>x r. g (f x r) = g r) \<Longrightarrow> g (fold f xs r) = g r"
  by (induction xs arbitrary: r) auto

lemma adjust_same:
  assumes "\<And>s r. g (add_missing s r) = g r" and "\<And>s r. g (erase s r) = g r"
  shows "g (adjust_configuration s r) = g r"
proof (cases "s = []")
  case False
  let ?r1 = "fold add_missing (split s '','') r"
  have "g ?r1 = g r" by (rule fold_same) (rule assms(1))
  moreover have "g (fold (\<lambda>x r. if x \<in> set (split s '','') then r else erase x r) xs ?r1) = g ?r1" for xs
    by (rule fold_same) (simp add: assms(2))
  ultimately show ?thesis using False by (simp add: adjust_configuration_def Let_def)
qed (simp add: adjust_configuration_def)

definition files_part :: "raft \<Rightarrow> string \<times> string option \<times> action list \<times> nat \<times> addr option" where
  "files_part r = (r_rpc_last r, r_fout r, r_out r, r_last_applied r, r_transfer_leader_to r)"

lemma files_part_adjust: "files_part (adjust_configuration s r) = files_part r"
  by (rule adjust_same [of files_part])
    (simp_all add: files_part_def add_missing_def make_node_def emplace_def erase_def Let_def split: prod.splits)

lemma install_returns:
  assumes "live_rep os (r_log r) b" and "al_index b \<le> dq_last_index req" and "dq_last_index req < u64_bound" and "dq_last_term req < u64_bound"
    and "length (dq_last_config req) < 2 ^ 59"
  shows "\<exists>r'. install_snapshot os req r = Some r' \<and> same_log (r\<lparr>r_log := r_log r', r_commit_index := dq_last_index req\<rparr>) r' \<and>
    files_part r' = files_part (r\<lparr>r_last_applied := dq_last_index req\<rparr>) \<and>
    live_rep os (r_log r') (compacted_to (dq_last_index req) (dq_last_term req)
      (if dq_last_config req = [] then al_config b else dq_last_config req))"
proof -
  obtain rc l1 where l1: "chop os (last_index (r_log r) + 1) True (r_log r) = Some (rc, l1)" "live_rep os l1 (b\<lparr>al_entries := []\<rparr>)"
    using chop_all [OF assms(1)] by blast
  define r1 where "r1 = r\<lparr>r_log := l1, r_commit_index := dq_last_index req, r_last_applied := dq_last_index req\<rparr>"
  define r2 where "r2 = adjust_configuration (dq_last_config req) r1"
  have r2: "same_log r1 r2" unfolding r2_def by (rule same_log_adjust)
  then have log2: "r_log r2 = l1" by (simp add: same_log_def r1_def)
  have rep: "log_rep l1 (b\<lparr>al_entries := []\<rparr>)" "os_ready os l1" using l1(2) by (simp_all add: live_rep_def)
  have "stat_rep l1 (al_index b) (al_term b) (al_config b)" using log_repD(3) [OF rep(1)] by simp
  from copy_states_rep [OF this rep(2) assms(5,3,4)] obtain l2 where
    l2: "copy_states os (make_states (dq_last_config req)) (dq_last_index req) (dq_last_term req) l1 = Some (RC_GOOD, l2)" "same_ldbs l1 l2"
      "os_ready os l2" "stat_rep l2 (dq_last_index req) (dq_last_term req) (if dq_last_config req = [] then al_config b else dq_last_config req)"
    by blast
  have "lg_cfg l1 \<le> al_index b" using log_repD(4) [OF rep(1)] by (simp add: cfg_link_def)
  then have "log_rep l2 (compacted_to (dq_last_index req) (dq_last_term req) (if dq_last_config req = [] then al_config b else dq_last_config req))"
    using log_repD(2) [OF rep(1)] l2(2,4) assms(2-4)
    by (auto simp: log_rep_def wf_alog_def cfg_chain_def cfg_link_def same_ldbs_def ldbs_rep_def ldbs_def)
  moreover have "install_snapshot os req r = Some (r2\<lparr>r_log := l2\<rparr>)"
    using l1(1) l2(1) log2 by (simp add: install_snapshot_def Let_def r1_def [symmetric] r2_def [symmetric])
  moreover have "files_part (r2\<lparr>r_log := l2\<rparr>) = files_part (r\<lparr>r_last_applied := dq_last_index req\<rparr>)"
    using files_part_adjust [of "dq_last_config req" r1] by (simp add: r2_def files_part_def r1_def)
  ultimately show ?thesis using l2(3) r2 by (auto simp: live_rep_def same_log_def r1_def total_def)
qed

section \<open>The receiver\<close>

fun data_for :: "string \<Rightarrow> action \<Rightarrow> string" where
  "data_for name (Write_File p d) = (if p = name then d else [])"
| "data_for name _ = []"

text \<open>What was written to a file.\<close>

definition received :: "raft \<Rightarrow> string \<Rightarrow> string" where
  "received r name = concat (map (data_for name) (r_out r))"

text \<open>The file of that name is open if it was the last one.\<close>

definition receiving :: "string \<Rightarrow> raft \<Rightarrow> bool" where
  "receiving name r \<longleftrightarrow> r_transfer_leader_to r = None \<and> (r_rpc_last r = name \<longrightarrow> r_fout r = Some name)"

definition file_name :: "string \<Rightarrow> bool" where
  "file_name name \<longleftrightarrow> name \<noteq> [] \<and> last name \<noteq> CHR ''/''"

lemma receive_file_data:
  assumes "dq_name req = name" and "file_name name" and "receiving name r"
  shows "receiving name (receive_file w req r)" "r_rpc_last (receive_file w req r) = name"
    "received (receive_file w req r) name = received r name @ dq_data req"
    "r_log (receive_file w req r) = r_log r" "r_curr_term (receive_file w req r) = r_curr_term r" "r_role (receive_file w req r) = r_role r"
  using assms by (auto simp: receive_file_def receiving_def received_def file_name_def emit_def Let_def)

definition applied :: "raft \<Rightarrow> logger \<times> nat \<times> nat" where
  "applied r = (r_log r, r_commit_index r, r_last_applied r)"

text \<open>The log, at the first request of a transfer.\<close>

definition can_install :: "os \<Rightarrow> data_req \<Rightarrow> raft \<Rightarrow> bool" where
  "can_install os req r \<longleftrightarrow> (\<exists>b. live_rep os (r_log r) b \<and> al_index b \<le> dq_last_index req) \<and> dq_last_index req < u64_bound \<and>
     dq_last_term req < u64_bound \<and> length (dq_last_config req) < 2 ^ 59 \<and> dq_last_config req \<noteq> []"

lemma request_received:
  assumes tm: "r_curr_term f \<le> dq_term req" and name: "dq_name req = name" "file_name name" and f: "receiving name f"
    and inst: "dq_id req = 1 \<Longrightarrow> r_log_compaction_enabled f \<Longrightarrow> can_install (w_os w) req f"
  shows "\<exists>res f'. rpc_data_transfer w req f = Some (res, f') \<and> ds_success res \<and> r_curr_term f' = dq_term req \<and> r_role f' = FOLLOWER \<and>
    receiving name f' \<and> r_rpc_last f' = name \<and> received f' name = received f name @ dq_data req \<and>
    (if dq_id req = 1 \<and> r_log_compaction_enabled f
     then live_rep (w_os w) (r_log f') (compacted_to (dq_last_index req) (dq_last_term req) (dq_last_config req)) \<and>
       r_commit_index f' = dq_last_index req \<and> r_last_applied f' = dq_last_index req
     else applied f' = applied f)"
proof -
  have n: "r_transfer_leader_to (f\<lparr>r_voted_for := []\<rparr>) = None" using f by (simp add: receiving_def)
  define f1 where "f1 = (if dq_term req > r_curr_term f
    then reset_election_timer ((remove_heartbeat_timer (f\<lparr>r_voted_for := []\<rparr>))\<lparr>r_role := FOLLOWER, r_curr_term := dq_term req\<rparr>) else f)"
  define f2 where "f2 = f1\<lparr>r_role := FOLLOWER, r_leader := dq_leader_id req\<rparr>"
  have step: "(if dq_term req > r_curr_term f then step_down (dq_term req) (dq_leader_id req) (f\<lparr>r_voted_for := []\<rparr>) else Some f) = Some f1"
    using step_down_ready [OF n] by (simp add: f1_def)
  have f2: "receiving name f2" "received f2 name = received f name" "applied f2 = applied f" "r_curr_term f2 = dq_term req" "r_role f2 = FOLLOWER"
    "r_log_compaction_enabled f2 = r_log_compaction_enabled f"
    using f tm by (auto simp: f2_def f1_def receiving_def received_def applied_def reset_election_timer_def remove_heartbeat_timer_def emit_def)
  let ?first = "dq_id req = 1 \<and> r_log_compaction_enabled f"
  let ?logs = "\<lambda>f'. if ?first
    then live_rep (w_os w) (r_log f') (compacted_to (dq_last_index req) (dq_last_term req) (dq_last_config req)) \<and>
      r_commit_index f' = dq_last_index req \<and> r_last_applied f' = dq_last_index req
    else applied f' = applied f"
  let ?p = "case first_slash name of None \<Rightarrow> length name - 1 | Some p \<Rightarrow> p"
  have "\<exists>f3. (if dq_id req = 1 then do {
        r' \<leftarrow> (if r_log_compaction_enabled f2 then install_snapshot (w_os w) req (remove_election_timer f2) else Some (remove_election_timer f2));
        Some (if name = [] then r' else emit (Transfer_Callback (take (?p + 1) name) True) r')
      } else Some f2) = Some f3 \<and> receiving name f3 \<and> received f3 name = received f2 name \<and> r_curr_term f3 = dq_term req \<and>
      r_role f3 = FOLLOWER \<and> ?logs f3"
  proof (cases ?first)
    case False
    then show ?thesis using f2 name(2)
      by (auto simp: file_name_def remove_election_timer_def receiving_def received_def applied_def emit_def)
  next
    case True
    let ?f = "remove_election_timer f2"
    obtain b where b: "live_rep (w_os w) (r_log f) b" "al_index b \<le> dq_last_index req" and bnd: "dq_last_index req < u64_bound"
      "dq_last_term req < u64_bound" "length (dq_last_config req) < 2 ^ 59" "dq_last_config req \<noteq> []"
      using inst True by (auto simp: can_install_def)
    have "live_rep (w_os w) (r_log ?f) b" using b(1) f2(3) by (simp add: remove_election_timer_def emit_def applied_def)
    from install_returns [OF this b(2) bnd(1-3)] obtain g where
      g: "install_snapshot (w_os w) req ?f = Some g" "same_log (?f\<lparr>r_log := r_log g, r_commit_index := dq_last_index req\<rparr>) g"
        "files_part g = files_part (?f\<lparr>r_last_applied := dq_last_index req\<rparr>)"
        "live_rep (w_os w) (r_log g) (compacted_to (dq_last_index req) (dq_last_term req) (dq_last_config req))"
      using bnd(4) by auto
    then show ?thesis using True f2 name(2)
      by (auto simp: file_name_def remove_election_timer_def receiving_def received_def emit_def files_part_def same_log_def)
  qed
  then obtain f3 where f3: "(if dq_id req = 1 then do {
        r' \<leftarrow> (if r_log_compaction_enabled f2 then install_snapshot (w_os w) req (remove_election_timer f2) else Some (remove_election_timer f2));
        Some (if name = [] then r' else emit (Transfer_Callback (take (?p + 1) name) True) r')
      } else Some f2) = Some f3" "receiving name f3" "received f3 name = received f2 name" "r_curr_term f3 = dq_term req"
      "r_role f3 = FOLLOWER" "?logs f3" by blast
  have "rpc_data_transfer w req f = Some (data_result f3 (dq_id req) True, receive_file w req f3)"
  proof -
    have "\<not> dq_term req < r_curr_term f" using tm by simp
    then show ?thesis
      unfolding rpc_data_transfer_def Let_def by (simp only: if_False step bind.bind_lunit f2_def [symmetric] name(1) f3(1))
  qed
  moreover have "applied (receive_file w req f3) = applied f3"
    by (auto simp: receive_file_def emit_def Let_def applied_def split: option.split)
  ultimately show ?thesis using receive_file_data [OF name f3(2), of w] f3(3-6) f2(2) by (auto simp: data_result_def applied_def)
qed

section \<open>The sender\<close>

definition sender :: "world \<Rightarrow> addr \<Rightarrow> string \<Rightarrow> string \<Rightarrow> nat \<Rightarrow> raft \<Rightarrow> bool" where
  "sender w a name c pos r \<longleftrightarrow> r_role r = LEADER \<and> (\<exists>n. node_at r a = Some n) \<and> r_iter r = [] \<and>
     w_kind w (r_path r) = Some (Regular c) \<and> c \<noteq> [] \<and> name = relative w (r_path r) r \<and>
     (r_fin r = None \<and> pos = 0 \<or> r_fin r = Some (r_path r, pos) \<and> r_last r = name)"

definition asks :: "addr \<Rightarrow> task \<Rightarrow> data_req \<Rightarrow> raft \<Rightarrow> bool" where
  "asks a t req r \<longleftrightarrow> last (r_out r) = Data_Transfer t req \<and> t_node t = a \<and> dq_term req = r_curr_term r \<and>
     dq_name req = r_last r \<and> length (dq_data req) = r_gcount r \<and> dq_id req = r_data_transfer_id r"

lemma read_chunk:
  assumes "w_kind w path = Some (Regular c)" and "c \<noteq> []"
    and "r_fin q = None \<and> pos = 0 \<and> name = relative w path q \<or> r_fin q = Some (path, pos) \<and> r_last q = name"
  shows "\<exists>p. transfer_file w path req q = (req\<lparr>dq_data := take buff_size (drop pos c), dq_name := name, dq_perms := p\<rparr>,
    q\<lparr>r_last := name, r_fin := Some (path, pos + length (take buff_size (drop pos c))), r_gcount := length (take buff_size (drop pos c))\<rparr>)"
proof (cases "r_fin q")
  case None
  have "relative w path (q\<lparr>r_fin := x\<rparr>) = relative w path q" for x by (simp add: relative_def)
  then show ?thesis using assms None
    by (intro exI [of _ "w_perms w path"]) (simp add: transfer_file_def set_last_def file_contents_def Let_def)
next
  case (Some x)
  then have x: "x = (path, pos)" "r_last q = name" using assms(3) by auto
  show ?thesis
    by (intro exI [of _ "dq_perms req"])
      (use assms(1,2) Some x in \<open>simp add: transfer_file_def file_contents_def Let_def\<close>)
qed

lemma send_chunk:
  assumes "sender w a name c pos r"
  shows "\<exists>t req r'. do_data_transfer w a r = Some r' \<and> asks a t req r' \<and> sender w a name c (pos + length (dq_data req)) r' \<and> r_last r' = name \<and>
    dq_data req = take buff_size (drop pos c) \<and> r_curr_term r' = r_curr_term r \<and> r_data_transfer_id r' = r_data_transfer_id r + 1 \<and>
    (r_log_compaction_enabled r \<longrightarrow> dq_last_index req = last_index (r_log r) \<and> dq_last_term req = last_term (r_log r) \<and>
      (r_data_transfer_id r = 0 \<longrightarrow> dq_last_config req = last_config (r_log r)))"
proof -
  obtain n where n: "node_at r a = Some n" using assms by (auto simp: sender_def)
  have path: "w_kind w (r_path r) = Some (Regular c)" "c \<noteq> []" "r_iter r = []" "r_role r = LEADER" using assms by (auto simp: sender_def)
  define i where "i = r_data_transfer_id r + 1"
  define r1 where "r1 = r\<lparr>r_data_transfer_id := i\<rparr>"
  define r2 where "r2 = (if i = 1 then set_node a (\<lambda>n. n\<lparr>n_transfer_data_to := True,
      n_next_index := last_entry_index (r_log r1) + 1\<rparr>) r1 else r1)"
  have r2: "r_path r2 = r_path r" "r_parent r2 = r_parent r" "r_iter r2 = []" "r_fin r2 = r_fin r" "r_last r2 = r_last r" "r_role r2 = LEADER"
    "r_curr_term r2 = r_curr_term r" "r_data_transfer_id r2 = i" "\<exists>n. node_at r2 a = Some n" "r_out r2 = r_out r"
    using path n by (auto simp: r2_def r1_def set_node_def)
  have "r_fin r2 = None \<and> pos = 0 \<and> name = relative w (r_path r) r2 \<or> r_fin r2 = Some (r_path r, pos) \<and> r_last r2 = name"
    using assms r2 by (auto simp: sender_def relative_def)
  from read_chunk [OF path(1,2) this, of "fill_data r1 i"] obtain p where
    p: "transfer_file w (r_path r) (fill_data r1 i) r2 =
      ((fill_data r1 i)\<lparr>dq_data := take buff_size (drop pos c), dq_name := name, dq_perms := p\<rparr>,
       r2\<lparr>r_last := name, r_fin := Some (r_path r, pos + length (take buff_size (drop pos c))), r_gcount := length (take buff_size (drop pos c))\<rparr>)"
    by blast
  define req where "req = (fill_data r1 i)\<lparr>dq_data := take buff_size (drop pos c), dq_name := name, dq_perms := p\<rparr>"
  define r3 where "r3 = r2\<lparr>r_last := name, r_fin := Some (r_path r, pos + length (take buff_size (drop pos c))), r_gcount := length (take buff_size (drop pos c))\<rparr>"
  obtain m where m: "node_at r2 a = Some m" using r2(9) by blast
  then have t: "make_task r3 a i = Some \<lparr>t_id = i, t_node = a, t_host = n_host m, t_port = n_port m\<rparr>" (is "_ = Some ?t")
    by (simp add: make_task_def r3_def)
  have "do_data_transfer w a r = Some (emit (Data_Transfer ?t req) r3)"
  proof -
    have "is_regular_file w (r_path r2)" using path(1) r2(1) by (simp add: is_regular_file_def)
    then have tr: "(if r_iter r2 \<noteq> [] then transfer w (fill_data r1 i) r2
        else if is_regular_file w (r_path r2) then Some (transfer_file w (r_path r2) (fill_data r1 i) r2)
        else if is_directory w (r_path r2) then
          case set_last w (r_path r2) (fill_data r1 i) r2 of (req', r') \<Rightarrow> Some (req'\<lparr>dq_name := r_last r' @ ''/''\<rparr>, r')
        else Some (fill_data r1 i, r2)) = Some (req, r3)"
      using r2(1,3) p by (simp add: req_def r3_def)
    have "\<not> (r_iter r = [] \<and> newly r a \<and> w_kind w (r_path r) = None \<and> \<not> n_transfer_data_to n)" using path(1) by simp
    then show ?thesis
      unfolding do_data_transfer_def Let_def i_def [symmetric] r1_def [symmetric] r2_def [symmetric]
      using path(4) by (simp only: n bind.bind_lunit if_False tr prod.case t simp_thms not_False_eq_True)
  qed
  moreover have "asks a ?t req (emit (Data_Transfer ?t req) r3)"
    using r2 by (simp add: asks_def emit_def r3_def req_def fill_data_def r1_def)
  moreover have "sender w a name c (pos + length (dq_data req)) (emit (Data_Transfer ?t req) r3)"
    using assms r2 by (simp add: sender_def emit_def r3_def req_def relative_def)
  ultimately show ?thesis
    using r2 by (intro exI [of _ ?t] exI [of _ req] exI [of _ "emit (Data_Transfer ?t req) r3"])
      (simp add: emit_def r3_def req_def fill_data_def r1_def i_def)
qed

section \<open>The exchange\<close>

text \<open>
  \<open>m\<close> times: the last request goes from the leader to the follower, and its answer back.  The files the
  leader reads are those of \<open>w\<close>, the follower works in \<open>w'\<close>.
\<close>

fun exchange :: "world \<Rightarrow> world \<Rightarrow> nat \<Rightarrow> raft \<times> raft \<Rightarrow> (raft \<times> raft) option" where
  "exchange w w' 0 s = Some s"
| "exchange w w' (Suc m) (r, f) =
     (case last (r_out r) of
        Data_Transfer t req \<Rightarrow>
          do {
            (res, f1) \<leftarrow> rpc_data_transfer w' req f;
            r1 \<leftarrow> on_data_transfer w t (Some res) r;
            exchange w w' m (r1, f1)
          }
      | _ \<Rightarrow> None)"

text \<open>The state after a chunk was sent: whether it was the last one is seen from its length.\<close>

definition sent :: "world \<Rightarrow> addr \<Rightarrow> string \<Rightarrow> string \<Rightarrow> nat \<Rightarrow> raft \<Rightarrow> bool" where
  "sent w a name c pos r \<longleftrightarrow> sender w a name c pos r \<and> r_last r = name \<and> r_fin r \<noteq> None \<and> pos \<le> length c \<and>
     (r_gcount r \<noteq> buff_size \<or> length c = buff_size \<longrightarrow> pos = length c)"

lemma sent_chunk:
  assumes "sender w a name c pos r" and "pos \<le> length c" and "length c = buff_size \<Longrightarrow> pos = 0"
    and "sender w a name c (pos + length (take buff_size (drop pos c))) r'" and "r_last r' = name" 
    and "r_gcount r' = length (take buff_size (drop pos c))"
  shows "sent w a name c (pos + length (take buff_size (drop pos c))) r'"
proof -
  have "r_fin r' \<noteq> None"
  proof
    assume "r_fin r' = None"
    then have "length (take buff_size (drop pos c)) = 0 \<and> pos = 0" using assms(4) by (auto simp: sender_def)
    moreover have "c \<noteq> []" using assms(1) by (simp add: sender_def)
    ultimately show False by (auto simp: buff_size_def min_def split: if_splits)
  qed
  moreover define k where "k = length (take buff_size (drop pos c))"
  moreover have "k = min (length c - pos) buff_size" by (simp add: k_def min.commute)
  then have "pos + k \<le> length c" "k \<noteq> buff_size \<or> length c = buff_size \<longrightarrow> pos + k = length c"
    using assms(2,3) by linarith+
  ultimately show ?thesis using assms(4-6) by (simp add: sent_def)
qed

lemma on_answer:
  assumes "sent w a name c pos r" and "t_node t = a" and "ds_success v"
  shows "on_data_transfer w t (Some v) r =
    (if r_gcount r \<noteq> buff_size \<or> length c = buff_size then do_done_transfer a (r\<lparr>r_fin := None\<rparr>) else do_data_transfer w a r)"
  using assms
  by (auto simp: on_data_transfer_def Let_def advance_transfer_def sent_def sender_def is_regular_file_def at_eof_def file_contents_def)

lemma done_sent:
  assumes "sent w a name c pos r"
  shows "\<exists>t q r'. do_done_transfer a (r\<lparr>r_fin := None\<rparr>) = Some r' \<and> last (r_out r') = Done_Transfer t q \<and> t_node t = a \<and>
    nq_name q = name \<and> nq_term q = r_curr_term r \<and> r_curr_term r' = r_curr_term r"
  using assms by (auto simp: sent_def sender_def do_done_transfer_def make_task_def fill_done_def emit_def Let_def)

lemma exchange_rest:
  assumes "sent w a name c pos r" and "asks a t req r" and "file_name name" and "receiving name f"
    and "r_curr_term f \<le> r_curr_term r"
    and "dq_id req = 1 \<Longrightarrow> r_log_compaction_enabled f \<Longrightarrow> can_install (w_os w') req f"
    and "0 < r_data_transfer_id r"
  shows "\<exists>m r' f' t' q. exchange w w' (Suc m) (r, f) = Some (r', f') \<and> last (r_out r') = Done_Transfer t' q \<and> nq_name q = name \<and>
    nq_term q = r_curr_term r \<and> receiving name f' \<and> r_rpc_last f' = name \<and> r_curr_term f' = r_curr_term r \<and> r_role f' = FOLLOWER \<and>
    received f' name = received f name @ dq_data req @ drop pos c \<and>
    (if dq_id req = 1 \<and> r_log_compaction_enabled f
     then live_rep (w_os w') (r_log f') (compacted_to (dq_last_index req) (dq_last_term req) (dq_last_config req)) \<and>
       r_commit_index f' = dq_last_index req \<and> r_last_applied f' = dq_last_index req
     else applied f' = applied f)"
  using assms
proof (induction "if r_gcount r = buff_size then Suc (length c - pos) else 0" arbitrary: r f t req pos rule: less_induct)
  case less
  have q: "last (r_out r) = Data_Transfer t req" "t_node t = a" "dq_term req = r_curr_term r" "dq_name req = name" "dq_id req = r_data_transfer_id r"
    using less.prems(1,2) by (auto simp: asks_def sent_def)
  have "r_curr_term f \<le> dq_term req" using less.prems(5) q(3) by simp
  from request_received [OF this q(4) less.prems(3,4), of w'] less.prems(6) obtain res f1 where
    f1: "rpc_data_transfer w' req f = Some (res, f1)" "ds_success res" "r_curr_term f1 = r_curr_term r" "r_role f1 = FOLLOWER"
      "receiving name f1" "r_rpc_last f1 = name" "received f1 name = received f name @ dq_data req"
      "if dq_id req = 1 \<and> r_log_compaction_enabled f
       then live_rep (w_os w') (r_log f1) (compacted_to (dq_last_index req) (dq_last_term req) (dq_last_config req)) \<and>
         r_commit_index f1 = dq_last_index req \<and> r_last_applied f1 = dq_last_index req
       else applied f1 = applied f"
    using q(3) by auto
  note ans = on_answer [OF less.prems(1) q(2) f1(2)]
  show ?case
  proof (cases "r_gcount r \<noteq> buff_size \<or> length c = buff_size")
    case True
    obtain t' d r' where d: "do_done_transfer a (r\<lparr>r_fin := None\<rparr>) = Some r'" "last (r_out r') = Done_Transfer t' d" "nq_name d = name"
      "nq_term d = r_curr_term r" using done_sent [OF less.prems(1)] by blast
    have "exchange w w' (Suc 0) (r, f) = Some (r', f1)" using q(1) f1(1) ans True d(1) by simp
    moreover have "drop pos c = []" using less.prems(1) True by (auto simp: sent_def)
    ultimately show ?thesis using d(2-4) f1(3-8) by (intro exI [of _ 0] exI [of _ r'] exI [of _ f1] exI [of _ t'] exI [of _ d]) simp
  next
    case False
    have s: "sender w a name c pos r" "pos \<le> length c" "length c = buff_size \<Longrightarrow> pos = 0" using less.prems(1) False by (auto simp: sent_def)
    obtain t2 req2 r2 where r2: "do_data_transfer w a r = Some r2" "asks a t2 req2 r2"
      "sender w a name c (pos + length (dq_data req2)) r2" "r_last r2 = name" "dq_data req2 = take buff_size (drop pos c)"
      "r_curr_term r2 = r_curr_term r" "r_data_transfer_id r2 = r_data_transfer_id r + 1"
      using send_chunk [OF s(1)] by blast
    let ?k = "length (dq_data req2)"
    have g: "r_gcount r2 = ?k" using r2(2) by (simp add: asks_def)
    have sent2: "sent w a name c (pos + ?k) r2" using sent_chunk [OF s _ r2(4)] r2(3,5) g by simp
    have id: "dq_id req2 \<noteq> 1" "0 < r_data_transfer_id r2" using r2(2,7) less.prems(7) by (simp_all add: asks_def)
    have less': "(if r_gcount r2 = buff_size then Suc (length c - (pos + ?k)) else 0) <
      (if r_gcount r = buff_size then Suc (length c - pos) else 0)"
      using False g r2(5) by (auto simp: buff_size_def)
    from less.hyps [OF less' sent2 r2(2) less.prems(3) f1(5)] f1(3) r2(6) id obtain m r' f' t' d where
      e: "exchange w w' (Suc m) (r2, f1) = Some (r', f')" "last (r_out r') = Done_Transfer t' d" "nq_name d = name" "nq_term d = r_curr_term r"
        "receiving name f'" "r_rpc_last f' = name" "r_curr_term f' = r_curr_term r" "r_role f' = FOLLOWER"
        "received f' name = received f1 name @ dq_data req2 @ drop (pos + ?k) c" "applied f' = applied f1"
      by auto
    have "exchange w w' (Suc (Suc m)) (r, f) = Some (r', f')" using q(1) f1(1) ans False r2(1) e(1) by simp
    moreover have "dq_data req2 @ drop (pos + ?k) c = drop pos c"
      unfolding r2(5) by (metis append_take_drop_id drop_drop add.commute length_take min.absorb2 nat_le_linear take_all min.commute)
    ultimately show ?thesis using e f1(7,8)
      by (intro exI [of _ "Suc m"] exI [of _ r'] exI [of _ f'] exI [of _ t'] exI [of _ d]) (auto simp: applied_def split: if_splits)
  qed
qed

lemma exchange_whole:
  assumes "sender w a name c 0 r" and "r_fin r = None" and "r_data_transfer_id r = 0" and "file_name name"
    and f: "receiving name f" "r_curr_term f \<le> r_curr_term r" "r_log_compaction_enabled f = r_log_compaction_enabled r"
    and log: "r_log_compaction_enabled r \<Longrightarrow> log_rep (r_log r) l \<and> al_config l \<noteq> [] \<and> length (al_config l) < 2 ^ 59 \<and>
      (\<exists>b. live_rep (w_os w') (r_log f) b \<and> al_index b \<le> al_index l)"
  shows "\<exists>r1 m r' f' t q. do_data_transfer w a r = Some r1 \<and> exchange w w' (Suc m) (r1, f) = Some (r', f') \<and>
    last (r_out r') = Done_Transfer t q \<and> nq_name q = name \<and> nq_term q = r_curr_term f' \<and>
    receiving name f' \<and> r_rpc_last f' = name \<and> r_curr_term f' = r_curr_term r \<and> r_role f' = FOLLOWER \<and>
    received f' name = received f name @ c \<and>
    (if r_log_compaction_enabled r
     then live_rep (w_os w') (r_log f') (compacted_to (al_index l) (al_term l) (al_config l)) \<and>
       r_commit_index f' = al_index l \<and> r_last_applied f' = al_index l
     else applied f' = applied f)"
proof -
  from send_chunk [OF assms(1)] obtain t req r1 where r1: "do_data_transfer w a r = Some r1" "asks a t req r1"
    "sender w a name c (0 + length (dq_data req)) r1" "r_last r1 = name" "dq_data req = take buff_size (drop 0 c)" "r_curr_term r1 = r_curr_term r"
    "r_data_transfer_id r1 = r_data_transfer_id r + 1"
    "r_log_compaction_enabled r \<longrightarrow> dq_last_index req = last_index (r_log r) \<and> dq_last_term req = last_term (r_log r) \<and>
      (r_data_transfer_id r = 0 \<longrightarrow> dq_last_config req = last_config (r_log r))"
    by (elim exE conjE) (rule that)
  have id: "dq_id req = 1" using r1(2,7) assms(3) by (simp add: asks_def)
  have g: "r_gcount r1 = length (dq_data req)" using r1(2) by (simp add: asks_def)
  have st: "sent w a name c (0 + length (dq_data req)) r1"
    using sent_chunk [OF assms(1) _ _ _ r1(4)] r1(3,5) g by simp
  have state: "dq_last_index req = al_index l" "dq_last_term req = al_term l" "dq_last_config req = al_config l" if "r_log_compaction_enabled r"
    using r1(8) that assms(3) rep_last_index [of "r_log r" l] log [OF that] by simp_all
  have inst: "can_install (w_os w') req f" if "r_log_compaction_enabled f"
    using state log f(3) that log_repD(7,8) [of "r_log r" l] by (auto simp: can_install_def)
  from exchange_rest [OF st r1(2) assms(4) f(1), of w'] f(2) r1(6,7) inst obtain m r' f' t' q where
    e: "exchange w w' (Suc m) (r1, f) = Some (r', f')" "last (r_out r') = Done_Transfer t' q" "nq_name q = name"
      "nq_term q = r_curr_term r" "receiving name f'" "r_rpc_last f' = name" "r_curr_term f' = r_curr_term r" "r_role f' = FOLLOWER"
      "received f' name = received f name @ dq_data req @ drop (0 + length (dq_data req)) c"
      "if dq_id req = 1 \<and> r_log_compaction_enabled f
       then live_rep (w_os w') (r_log f') (compacted_to (dq_last_index req) (dq_last_term req) (dq_last_config req)) \<and>
         r_commit_index f' = dq_last_index req \<and> r_last_applied f' = dq_last_index req
       else applied f' = applied f"
    by auto
  have "dq_data req @ drop (0 + length (dq_data req)) c = c" unfolding r1(5) by (simp add: min_def)
  then show ?thesis using r1(1) e id f(3) state
    by (intro exI [of _ r1] exI [of _ m] exI [of _ r'] exI [of _ f'] exI [of _ t'] exI [of _ q]) auto
qed

section \<open>After the transfer\<close>

lemma done_handled:
  assumes "r_curr_term f \<le> nq_term q" and "nq_name q = name" and "r_transfer_leader_to f = None"
  shows "\<exists>ok f'. rpc_done_transfer w q f = Some (ok, f') \<and> ds_success ok \<and> r_rpc_last f' = r_rpc_last f \<and> r_fout f' = None \<and>
    received f' = received f \<and> r_transfer_leader_to f' = None"
proof -
  have n: "r_transfer_leader_to (f\<lparr>r_voted_for := []\<rparr>) = None" using assms(3) by simp
  show ?thesis
    using assms step_down_ready [OF n]
    by (auto simp: rpc_done_transfer_def Let_def data_result_def received_def fun_eq_iff set_path_def reset_election_timer_def
        remove_heartbeat_timer_def emit_def split: option.split)
qed

text \<open>The name of the last file is kept, so that the same file is not opened again.\<close>

lemma request_lost:
  assumes run: "rpc_data_transfer w req f = Some (res, f')" and tm: "r_curr_term f \<le> dq_term req" and name: "dq_name req = name" "file_name name"
    and f: "r_rpc_last f = name" "r_fout f = None" "r_transfer_leader_to f = None"
  shows "ds_success res \<and> received f' name = received f name \<and> r_rpc_last f' = name \<and> r_fout f' = None"
proof -
  have n: "r_transfer_leader_to (f\<lparr>r_voted_for := []\<rparr>) = None" using f(3) by simp
  define lost where "lost = (\<lambda>g. r_rpc_last g = name \<and> r_fout g = None \<and> received g name = received f name)"
  have files: "lost g'" if "files_part g' = files_part g" "lost g" for g g'
    using that by (auto simp: lost_def files_part_def received_def)
  obtain f1 where f1: "(if dq_term req > r_curr_term f then step_down (dq_term req) (dq_leader_id req) (f\<lparr>r_voted_for := []\<rparr>) else Some f) = Some f1"
    using step_down_ready [OF n] by (cases "dq_term req > r_curr_term f") auto
  then have "lost f1" using step_down_ready [OF n] f
    by (auto simp: lost_def received_def reset_election_timer_def remove_heartbeat_timer_def emit_def split: if_splits)
  then have 2: "lost (f1\<lparr>r_role := FOLLOWER, r_leader := l\<rparr>)" "lost (remove_election_timer (f1\<lparr>r_role := FOLLOWER, r_leader := l\<rparr>))" for l
    by (auto simp: lost_def received_def remove_election_timer_def emit_def)
  have inst: "lost g'" if "install_snapshot os req g = Some g'" "lost g" for os g g'
  proof -
    have "files_part g' = files_part (g\<lparr>r_last_applied := dq_last_index req\<rparr>)"
      using that(1) files_part_adjust by (auto simp: install_snapshot_def Let_def files_part_def bind_eq_Some_conv)
    then show ?thesis using that(2) by (auto simp: lost_def files_part_def received_def)
  qed
  have recv: "lost (receive_file w req g)" if "lost g" for g
    using that name by (auto simp: lost_def receive_file_def received_def file_name_def Let_def)
  have cb: "lost (emit (Transfer_Callback p b) g)" if "lost g" for p b g
    using that by (auto simp: lost_def received_def emit_def)
  define f2 where "f2 = f1\<lparr>r_role := FOLLOWER, r_leader := dq_leader_id req\<rparr>"
  let ?p = "case first_slash name of None \<Rightarrow> length name - 1 | Some p \<Rightarrow> p"
  let ?first = "do {
        r' \<leftarrow> (if r_log_compaction_enabled f2 then install_snapshot (w_os w) req (remove_election_timer f2) else Some (remove_election_timer f2));
        Some (if name = [] then r' else emit (Transfer_Callback (take (?p + 1) name) True) r')
      }"
  have "\<not> dq_term req < r_curr_term f" using tm by simp
  then have eq: "rpc_data_transfer w req f = do { r3 \<leftarrow> (if dq_id req = 1 then ?first else Some f2);
      Some (data_result r3 (dq_id req) True, receive_file w req r3) }"
    unfolding rpc_data_transfer_def Let_def by (simp only: if_False f1 bind.bind_lunit f2_def [symmetric] name(1))
  from run [unfolded eq bind_eq_Some_conv] obtain f3 where
    "(if dq_id req = 1 then ?first else Some f2) = Some f3 \<and> Some (data_result f3 (dq_id req) True, receive_file w req f3) = Some (res, f')"
    unfolding bind_eq_Some_conv by (elim exE)
  then have f3: "(if dq_id req = 1 then ?first else Some f2) = Some f3" "res = data_result f3 (dq_id req) True" "f' = receive_file w req f3"
    by auto
  have "lost f3"
  proof (cases "dq_id req = 1")
    case True
    then have "?first = Some f3" using f3(1) by simp
    then obtain g where "(if r_log_compaction_enabled f2 then install_snapshot (w_os w) req (remove_election_timer f2) else Some (remove_election_timer f2)) = Some g"
      "f3 = (if name = [] then g else emit (Transfer_Callback (take (?p + 1) name) True) g)"
      unfolding bind_eq_Some_conv by (elim exE conjE) simp
    then show ?thesis using inst 2 cb by (auto simp: f2_def split: if_splits)
  qed (use f3(1) 2 in \<open>auto simp: f2_def\<close>)
  then show ?thesis using recv f3(2,3) by (simp add: lost_def data_result_def)
qed

end
