(* ===== verification/Transfer_Properties.thy ===== *)
theory Transfer_Properties
  imports Replication_Properties Log_Properties Transfer_Arrives
begin

text \<open>
  The properties of applying committed entries, of the configuration in the log, and of transferring
  a file in chunks.
\<close>

section \<open>Applying\<close>

lemma apply_committed_result:
  assumes "log_rep (r_log r) a" and "al_index a \<le> r_last_applied r" and "r_commit_index r \<le> al_last a"
  shows "apply_committed r = Some (filter (\<lambda>e. \<not> e_cfg e)
      (take (r_commit_index r - r_last_applied r) (drop (r_last_applied r - al_index a) (al_entries a))),
    r\<lparr>r_last_applied := max (r_last_applied r) (r_commit_index r)\<rparr>)"
  using assms
proof (induction r rule: apply_committed.induct)
  case (1 r)
  show ?case
  proof (cases "r_last_applied r < r_commit_index r")
    case False
    then show ?thesis by (simp add: apply_committed.simps [of r] max_def)
  next
    case True
    let ?k = "r_last_applied r - al_index a" and ?r1 = "r\<lparr>r_last_applied := r_last_applied r + 1\<rparr>"
    have k: "?k < length (al_entries a)" using True "1.prems"(2,3) by simp
    have e: "get_entry (r_log r) (r_last_applied r + 1) = Some (al_entries a ! ?k)"
      using True "1.prems" by (simp add: rep_get [OF "1.prems"(1)] al_get_def)
    have IH: "apply_committed ?r1 = Some (filter (\<lambda>e. \<not> e_cfg e)
        (take (r_commit_index r - (r_last_applied r + 1)) (drop (r_last_applied r + 1 - al_index a) (al_entries a))),
      r\<lparr>r_last_applied := r_commit_index r\<rparr>)"
      using "1.IH" [OF True refl, of "al_entries a ! ?k"] e "1.prems" True by (simp add: max_def)
    have d: "drop ?k (al_entries a) = al_entries a ! ?k # drop (Suc ?k) (al_entries a)"
      using k by (simp add: Cons_nth_drop_Suc)
    have s: "r_last_applied r + 1 - al_index a = Suc ?k" "r_commit_index r - r_last_applied r = Suc (r_commit_index r - (r_last_applied r + 1))"
      using "1.prems"(2) True by auto
    show ?thesis
      using True e IH unfolding s by (simp add: apply_committed.simps [of r] Let_def d max_def)
  qed
qed

text \<open>C21: the callback gets exactly the commands between the last applied index and the commit index, in
  log order, without the configuration entries, each once, and never an index the log lacks.\<close>

theorem applies_in_order:
  assumes "log_rep (r_log r) a" and "al_index a \<le> r_last_applied r" and "r_commit_index r \<le> al_last a"
    and "r_last_applied r \<le> r_commit_index r"
  shows "apply_committed r = Some (filter (\<lambda>e. \<not> e_cfg e)
      (take (r_commit_index r - r_last_applied r) (drop (r_last_applied r - al_index a) (al_entries a))),
    r\<lparr>r_last_applied := r_commit_index r\<rparr>)"
  using apply_committed_result [OF assms(1-3)] assms(4) by (simp add: max_def)

theorem applies_in_order_witness:
  "apply_committed (demo_acked\<lparr>r_commit_index := 2\<rparr>) = Some ([demo_entry], demo_acked\<lparr>r_commit_index := 2, r_last_applied := 2\<rparr>)"
proof -
  have l: "log_rep (r_log (demo_acked\<lparr>r_commit_index := 2\<rparr>)) demo_alog" using demo_log2(2) by (simp add: demo_acked)
  have z: "r_last_applied demo_acked = 0" by (simp add: demo_acked_def set_node_def demo_raft_def)
  show ?thesis using applies_in_order [OF l] by (simp add: z)
qed

section \<open>Configurations\<close>

lemma adjust_fold_members:
  "fst ` set (r_cluster (fold add_missing xs r)) = fst ` set (r_cluster r) \<union> set xs"
proof (induction xs arbitrary: r)
  case (Cons x xs)
  have "fst ` set (r_cluster (add_missing x r)) = insert x (fst ` set (r_cluster r))"
    by (auto simp: add_missing_def make_node_def emplace_def contains_def Let_def split: prod.splits)
  then show ?case by (simp add: Cons.IH)
qed simp

lemma erase_others_members:
  "fst ` set (r_cluster (fold (\<lambda>x r. if x \<in> A then r else erase x r) ks r)) = fst ` set (r_cluster r) - (set ks - A)"
proof (induction ks arbitrary: r)
  case (Cons k ks)
  have "fst ` set (r_cluster (erase k r)) = fst ` set (r_cluster r) - {k}" by (force simp: erase_def Let_def)
  then show ?case by (auto simp: Cons.IH)
qed simp

text \<open>after a configuration entry was stored, the members are exactly the addresses the entry lists,
  and nothing of the log, the term, the vote or the commit index has changed.\<close>

theorem adjusted_members:
  assumes "conf \<noteq> []"
  shows "fst ` set (r_cluster (adjust_configuration conf r)) = set (split conf '','') \<and> same_log r (adjust_configuration conf r)"
  using assms same_log_adjust [of r conf] adjust_fold_members [of "split conf '',''" r]
  by (auto simp: adjust_configuration_def Let_def erase_others_members)

theorem adjusted_members_witness:
  "fst ` set (r_cluster (adjust_configuration ''b:1,d:1'' (demo_raft ''a:1'' demo_log))) = {''b:1'', ''d:1''}"
  using adjusted_members [of "''b:1,d:1''" "demo_raft ''a:1'' demo_log"] by (simp add: split_pieces)

text \<open>the configuration entry a leader writes lists its members: splitting it gives their ids back.\<close>

theorem configuration_round_trip:
  assumes "r_cluster r \<noteq> []" and "\<forall>x \<in> set (members r). \<exists>n. node_at r x = Some n \<and> CHR '','' \<notin> set (n_id n)"
  shows "\<exists>s. serialize_configuration r = Some s \<and> split s '','' = map (\<lambda>x. n_id (the (node_at r x))) (members r)"
proof -
  have "serialize_configuration r = Some (join (CHR '','') (map (\<lambda>x. n_id (the (node_at r x))) (members r)))"
    using assms(2) by (fastforce simp: serialize_configuration_def)
  moreover have "split (join (CHR '','') (map (\<lambda>x. n_id (the (node_at r x))) (members r))) '','' = map (\<lambda>x. n_id (the (node_at r x))) (members r)"
    unfolding split_pieces by (rule pieces_join) (use assms in \<open>force simp: members_def\<close>)+
  ultimately show ?thesis by blast
qed

theorem configuration_round_trip_witness:
  "\<exists>s. serialize_configuration (demo_raft ''a:1'' demo_log) = Some s \<and> split s '','' = [''a:1'', ''b:1'', ''c:1'']"
  using configuration_round_trip [of "demo_raft ''a:1'' demo_log"]
  by (simp add: demo_raft_def members_def demo_node_def)

section \<open>Sending a file in chunks\<close>

text \<open>The requests of \<open>n\<close> calls, each answered with success before the next: the data they carry
  together, and the state after the last answer.\<close>

fun send_rounds :: "world \<Rightarrow> nat \<Rightarrow> raft \<Rightarrow> (string \<times> raft) option" where
  "send_rounds w 0 r = Some ([], r)"
| "send_rounds w (Suc n) r =
     do {
       (req, r1) \<leftarrow> transfer w (fill_data r 1) r;
       (d, r2) \<leftarrow> send_rounds w n (advance_transfer w r1);
       Some (dq_data req @ d, r2)
     }"

text \<open>The state between two chunks of a file.\<close>

definition reading :: "string \<Rightarrow> string list \<Rightarrow> nat \<Rightarrow> raft \<Rightarrow> bool" where
  "reading path ps pos r \<longleftrightarrow> r_iter r = path # ps \<and> (r_fin r = Some (path, pos) \<or> r_fin r = None \<and> pos = 0)"

lemma fill_data_empty [simp]: "dq_data (fill_data r i) = []"
  by (simp add: fill_data_def)

lemma transfer_chunk:
  assumes "reading path ps pos r" and "w_kind w path = Some (Regular c)" and "c \<noteq> []"
  shows "\<exists>req r1. transfer w (fill_data r i) r = Some (req, r1) \<and> dq_data req = take buff_size (drop pos c) \<and>
    r_iter r1 = path # ps \<and> r_gcount r1 = min buff_size (length c - pos) \<and>
    r_fin r1 = Some (path, pos + min buff_size (length c - pos))"
  using assms
  by (auto simp: reading_def transfer_def transfer_file_def is_directory_def is_regular_file_def file_contents_def set_last_def
      Let_def min.commute)

lemma send_rounds_chunk:
  assumes "reading path ps pos r" and "w_kind w path = Some (Regular c)" and "c \<noteq> []"
  shows "\<exists>r2. send_rounds w (Suc n) r = map_option (\<lambda>(d, r'). (take buff_size (drop pos c) @ d, r')) (send_rounds w n r2) \<and>
    (if length c - pos < buff_size \<or> length c = buff_size then r_iter r2 = ps \<and> r_fin r2 = None
     else reading path ps (pos + buff_size) r2)"
proof -
  obtain req r1 where r1: "transfer w (fill_data r 1) r = Some (req, r1)" "dq_data req = take buff_size (drop pos c)"
    "r_iter r1 = path # ps" "r_gcount r1 = min buff_size (length c - pos)" "r_fin r1 = Some (path, pos + min buff_size (length c - pos))"
    using transfer_chunk [OF assms] by blast
  have "send_rounds w (Suc n) r = map_option (\<lambda>(d, r'). (take buff_size (drop pos c) @ d, r')) (send_rounds w n (advance_transfer w r1))"
    using r1(1,2) by (cases "send_rounds w n (advance_transfer w r1)") (auto split: prod.splits)
  moreover have "if length c - pos < buff_size \<or> length c = buff_size then r_iter (advance_transfer w r1) = ps \<and> r_fin (advance_transfer w r1) = None
     else reading path ps (pos + buff_size) (advance_transfer w r1)"
    using r1(3-5) assms(2) by (auto simp: advance_transfer_def is_directory_def is_regular_file_def at_eof_def file_contents_def reading_def min_def)
  ultimately show ?thesis by blast
qed

lemma send_rest:
  assumes "reading path ps pos r" and "w_kind w path = Some (Regular c)" and "c \<noteq> []" and "length c \<noteq> buff_size" and "pos \<le> length c"
    and "length c - pos = k * buff_size + m" and "m < buff_size"
  shows "\<exists>r'. send_rounds w (Suc k) r = Some (drop pos c, r') \<and> r_iter r' = ps \<and> r_fin r' = None"
  using assms(1,5,6)
proof (induction k arbitrary: r pos)
  case 0
  obtain r2 where r2: "send_rounds w (Suc 0) r = map_option (\<lambda>(d, r'). (take buff_size (drop pos c) @ d, r')) (send_rounds w 0 r2)"
    "r_iter r2 = ps" "r_fin r2 = None"
    using send_rounds_chunk [OF 0(1) assms(2,3), of 0] 0 assms(7) by auto
  moreover have "take buff_size (drop pos c) = drop pos c" using 0 assms(7) by simp
  ultimately show ?case by simp
next
  case (Suc k)
  have "\<not> (length c - pos < buff_size \<or> length c = buff_size)" using Suc.prems(3) assms(4) by simp
  then obtain r2 where r2: "send_rounds w (Suc (Suc k)) r = map_option (\<lambda>(d, r'). (take buff_size (drop pos c) @ d, r')) (send_rounds w (Suc k) r2)"
    "reading path ps (pos + buff_size) r2"
    using send_rounds_chunk [OF Suc.prems(1) assms(2,3), of "Suc k"] by auto
  have "length c - (pos + buff_size) = k * buff_size + m" "pos + buff_size \<le> length c" using Suc.prems(2,3) by auto
  from Suc.IH [OF r2(2) this(2,1)] obtain r' where "send_rounds w (Suc k) r2 = Some (drop (pos + buff_size) c, r')" "r_iter r' = ps" "r_fin r' = None"
    by blast
  moreover have "take buff_size (drop pos c) @ drop (pos + buff_size) c = drop pos c"
    by (metis add.commute append_take_drop_id drop_drop)
  ultimately show ?case using r2(1) by simp
qed

text \<open>the chunks of a nonempty file add up to its contents, and after the last one the transfer goes
  on with the next file: as many calls as the length needs, one more when it is a larger multiple of
  the buffer.\<close>

theorem file_sent_whole:
  assumes "r_iter r = path # ps" and "w_kind w path = Some (Regular c)" and "c \<noteq> []" and "r_fin r = None"
  shows "\<exists>r'. send_rounds w (if length c = buff_size then 1 else Suc (length c div buff_size)) r = Some (c, r') \<and>
    r_iter r' = ps \<and> r_fin r' = None"
proof -
  have start: "reading path ps 0 r" using assms(1,4) by (simp add: reading_def)
  show ?thesis
  proof (cases "length c = buff_size")
    case True
    then show ?thesis using send_rounds_chunk [OF start assms(2,3), of 0] by auto
  next
    case False
    have "length c mod buff_size < buff_size" by (simp add: buff_size_def)
    from send_rest [OF start assms(2,3) False _ _ this, of "length c div buff_size"] False show ?thesis by simp
  qed
qed

definition demo_files :: world where
  "demo_files = demo_world\<lparr>w_kind := [''db'' \<mapsto> Regular ''x = 1'', ''big'' \<mapsto> Regular (replicate 65536 CHR ''x''), ''none'' \<mapsto> Regular []]\<rparr>"

theorem file_sent_whole_witness:
  "\<exists>r'. send_rounds demo_files 1 ((demo_raft ''a:1'' demo_log)\<lparr>r_iter := [''db'']\<rparr>) = Some (''x = 1'', r') \<and> r_iter r' = []"
  using file_sent_whole [of "(demo_raft ''a:1'' demo_log)\<lparr>r_iter := [''db'']\<rparr>" "''db''" "[]" demo_files "''x = 1''"]
  by (auto simp: demo_files_def buff_size_def demo_raft_def)

lemma empty_stuck:
  assumes "r_iter r = path # ps" and "w_kind w path = Some (Regular [])" and "r_fin r = None" and "r_gcount r = buff_size"
  shows "\<exists>r'. send_rounds w n r = Some ([], r') \<and> r_iter r' = path # ps"
  using assms
proof (induction n arbitrary: r)
  case (Suc n)
  obtain req r1 where r1: "transfer w (fill_data r 1) r = Some (req, r1)" "dq_data req = []" "r_iter r1 = path # ps" "r_fin r1 = None"
    "r_gcount r1 = buff_size"
    using Suc.prems by (auto simp: transfer_def transfer_file_def is_directory_def is_regular_file_def file_contents_def set_last_def Let_def)
  have "advance_transfer w r1 = r1"
    using r1(3-5) Suc.prems(2) by (simp add: advance_transfer_def is_directory_def is_regular_file_def at_eof_def file_contents_def buff_size_def)
  with Suc.IH [OF r1(3) Suc.prems(2) r1(4,5)] r1(1,2) show ?case by auto
qed simp

text \<open>an empty file that follows a file of exactly one buffer is sent again and again: its end is judged
  by the length of the last read, which was of the other file.\<close>

theorem empty_file_never_ends:
  assumes "r_iter r = big # path # ps" and "w_kind w big = Some (Regular c)" and "length c = buff_size"
    and "w_kind w path = Some (Regular [])" and "r_fin r = None"
  shows "\<exists>r'. send_rounds w (Suc n) r = Some (c, r') \<and> r_iter r' = path # ps"
proof -
  have c: "c \<noteq> []" using assms(3) by (auto simp: buff_size_def)
  obtain req r1 where r1: "transfer w (fill_data r 1) r = Some (req, r1)" "dq_data req = c" "r_iter r1 = big # path # ps"
    "r_gcount r1 = buff_size"
    using transfer_chunk [of big "path # ps" 0 r w c 1] assms c by (auto simp: reading_def)
  have a: "advance_transfer w r1 = r1\<lparr>r_iter := path # ps, r_fin := None\<rparr>"
    using r1(3,4) assms(2,3) by (simp add: advance_transfer_def is_directory_def is_regular_file_def at_eof_def file_contents_def)
  obtain r' where "send_rounds w n (advance_transfer w r1) = Some ([], r')" "r_iter r' = path # ps"
    using empty_stuck [of "advance_transfer w r1" path ps w n] a r1(4) assms(4) by auto
  then show ?thesis using r1(1,2) by auto
qed

theorem empty_file_never_ends_witness:
  "\<exists>d r'. send_rounds demo_files 1000 ((demo_raft ''a:1'' demo_log)\<lparr>r_iter := [''big'', ''none'']\<rparr>) = Some (d, r') \<and> r_iter r' = [''none'']"
  using empty_file_never_ends [of "(demo_raft ''a:1'' demo_log)\<lparr>r_iter := [''big'', ''none'']\<rparr>" "''big''" "''none''" "[]"
      demo_files "replicate 65536 CHR ''x''" 999]
  by (auto simp: demo_files_def buff_size_def demo_raft_def simp del: send_rounds.simps)

section \<open>A file from both sides\<close>

text \<open>C26: a transfer of a nonempty file whose name is not the one the follower received last, request by request
  and answer by answer, ends: the leader sends
  its last request, the follower has written exactly the contents of the file, under its name, and its
  log - with compaction - is empty after the leader's compaction point, with the leader's configuration,
  everything up to there counted as committed and applied.\<close>

theorem file_arrives:
  assumes "r_role r = LEADER" and "node_at r a = Some n" and "r_iter r = []" and "r_fin r = None" and "r_data_transfer_id r = 0"
    and "w_kind w (r_path r) = Some (Regular c)" and "c \<noteq> []" and "relative w (r_path r) r = name" and "file_name name"
    and f: "r_transfer_leader_to f = None" "r_rpc_last f \<noteq> name" "r_curr_term f \<le> r_curr_term r"
      "r_log_compaction_enabled f = r_log_compaction_enabled r"
    and log: "r_log_compaction_enabled r \<Longrightarrow> log_rep (r_log r) l \<and> al_config l \<noteq> [] \<and> length (al_config l) < 2 ^ 59 \<and>
      (\<exists>b. live_rep (w_os w') (r_log f) b \<and> al_index b \<le> al_index l)"
  shows "\<exists>r1 m r' f' t q. do_data_transfer w a r = Some r1 \<and> exchange w w' (Suc m) (r1, f) = Some (r', f') \<and>
    last (r_out r') = Done_Transfer t q \<and> nq_name q = name \<and> received f' name = received f name @ c \<and>
    (r_log_compaction_enabled r \<longrightarrow> live_rep (w_os w') (r_log f') (compacted_to (al_index l) (al_term l) (al_config l)) \<and>
       r_commit_index f' = al_index l \<and> r_last_applied f' = al_index l)"
proof -
  have "sender w a name c 0 r" using assms by (simp add: sender_def)
  moreover have "receiving name f" using f by (simp add: receiving_def)
  ultimately show ?thesis
    using exchange_whole [where w = w and w' = w' and l = l, OF _ assms(4,5,9) _ f(3,4) log] by fastforce
qed

lemma demo_compacted:
  obtains l where "live_rep demo_os l (al_drop demo_alog 2 ''a:1,b:2'')"
proof -
  have i: "al_index demo_alog < 2" "2 \<le> al_last demo_alog" "total (al_entries demo_alog) < 2 ^ 59"
    using demo_live2 by (simp_all add: live_rep_def)
  obtain l d where l: "drop_entries demo_os 2 True demo_log2 = Some (RC_GOOD, l)" "live_rep demo_os l (al_drop demo_alog 2 d)"
    using file_log.compact_good [OF demo_live2 i(1,2), of True] by blast
  obtain l' where "drop_entries demo_os 2 True demo_log2 = Some (RC_GOOD, l')" "last_config l' = ''a:1,b:2''"
    using drop_saves_configuration [OF demo_log2(2,3) i demo_complete, of True] demo_log2(4)
    by (auto simp: rep_get [OF demo_log2(2)] al_get_def Let_def)
  then have "last_config l = ''a:1,b:2''" using l(1) by simp
  then have "d = ''a:1,b:2''" using rep_last_index(3) [of l "al_drop demo_alog 2 d"] l(2) by (simp add: live_rep_def)
  then show thesis using l(2) that by simp
qed

theorem file_arrives_witness:
  "\<exists>l r1 m r' f'. do_data_transfer demo_files 1
      ((demo_raft ''a:1'' l)\<lparr>r_role := LEADER, r_path := ''db'', r_log_compaction_enabled := True\<rparr>) = Some r1 \<and>
    exchange demo_files demo_world (Suc m) (r1, (demo_raft ''b:1'' demo_log)\<lparr>r_log_compaction_enabled := True\<rparr>) = Some (r', f') \<and>
    received f' ''db'' = ''x = 1'' \<and> live_rep demo_os (r_log f') (compacted_to 2 1 ''a:1,b:2'') \<and> r_last_applied f' = 2"
proof -
  obtain l where l: "live_rep demo_os l (al_drop demo_alog 2 ''a:1,b:2'')" by (rule demo_compacted)
  let ?r = "(demo_raft ''a:1'' l)\<lparr>r_role := LEADER, r_path := ''db'', r_log_compaction_enabled := True\<rparr>"
  let ?f = "(demo_raft ''b:1'' demo_log)\<lparr>r_log_compaction_enabled := True\<rparr>"
  have r: "r_role ?r = LEADER" "node_at ?r 1 = Some (demo_node ''b'')" "r_iter ?r = []" "r_fin ?r = None" "r_data_transfer_id ?r = 0"
    "w_kind demo_files (r_path ?r) = Some (Regular ''x = 1'')" "''x = 1'' \<noteq> ([] :: string)" "relative demo_files (r_path ?r) ?r = ''db''" "file_name ''db''"
    "r_transfer_leader_to ?f = None" "r_rpc_last ?f \<noteq> ''db''" "r_curr_term ?f \<le> r_curr_term ?r" "r_log_compaction_enabled ?f = r_log_compaction_enabled ?r"
    by (simp_all add: demo_raft_def demo_files_def relative_def file_name_def)
  have "log_rep (r_log ?r) (al_drop demo_alog 2 ''a:1,b:2'') \<and> al_config (al_drop demo_alog 2 ''a:1,b:2'') \<noteq> [] \<and>
      length (al_config (al_drop demo_alog 2 ''a:1,b:2'')) < 2 ^ 59 \<and>
      (\<exists>b. live_rep (w_os demo_world) (r_log ?f) b \<and> al_index b \<le> al_index (al_drop demo_alog 2 ''a:1,b:2''))"
    using l demo_live by (auto simp: live_rep_def demo_follower intro!: exI [of _ empty_alog])
  from file_arrives [OF r this] obtain r1 m r' f' where
    e: "do_data_transfer demo_files 1 ?r = Some r1" "exchange demo_files demo_world (Suc m) (r1, ?f) = Some (r', f')"
      "received f' ''db'' = received ?f ''db'' @ ''x = 1''"
      "r_log_compaction_enabled ?r \<longrightarrow> live_rep (w_os demo_world) (r_log f') (compacted_to (al_index (al_drop demo_alog 2 ''a:1,b:2''))
         (al_term (al_drop demo_alog 2 ''a:1,b:2'')) (al_config (al_drop demo_alog 2 ''a:1,b:2''))) \<and>
       r_commit_index f' = al_index (al_drop demo_alog 2 ''a:1,b:2'') \<and> r_last_applied f' = al_index (al_drop demo_alog 2 ''a:1,b:2'')"
    by blast
  have "received ?f ''db'' = []" by (simp add: received_def demo_raft_def)
  then show ?thesis using e by (intro exI [of _ l] exI [of _ r1] exI [of _ m] exI [of _ r'] exI [of _ f']) (simp add: demo_follower al_last_term_def)
qed

text \<open>a second transfer of the same file is lost: the name of the last file is kept when the file is
  closed at the end of the first, so that it is not opened again.  Every request is answered with success,
  and nothing is written.\<close>

theorem second_transfer_lost:
  assumes "r_rpc_last f = name" and "file_name name" and "r_transfer_leader_to f = None"
    and "rpc_done_transfer w q f = Some (ok, f1)" and "r_curr_term f \<le> nq_term q" and "nq_name q = name"
    and "rpc_data_transfer w req f1 = Some (res, f2)" and "r_curr_term f1 \<le> dq_term req" and "dq_name req = name"
  shows "ds_success ok \<and> ds_success res \<and> received f2 name = received f name \<and> r_rpc_last f2 = name \<and> r_fout f2 = None"
proof -
  have "ds_success ok \<and> r_rpc_last f1 = r_rpc_last f \<and> r_fout f1 = None \<and> received f1 = received f \<and> r_transfer_leader_to f1 = None"
    using done_handled [OF assms(5,6,3), of w] assms(4) by auto
  then show ?thesis using request_lost [OF assms(7,8,9,2)] assms(1) by simp
qed

theorem second_transfer_lost_witness:
  "\<exists>f1 res f2. rpc_data_transfer demo_world ((fill_data f1 2)\<lparr>dq_name := ''db'', dq_data := ''x = 1''\<rparr>) f1 = Some (res, f2) \<and>
    ds_success res \<and> received f2 ''db'' = []"
proof -
  let ?f = "(demo_raft ''b:1'' demo_log)\<lparr>r_rpc_last := ''db'', r_fout := Some ''db''\<rparr>"
  let ?q = "\<lparr>nq_term = 0, nq_leader_id = ''a:1'', nq_name = ''db'', nq_id = 1\<rparr>"
  obtain ok f1 where 1: "rpc_done_transfer demo_world ?q ?f = Some (ok, f1)" "r_curr_term f1 = 0"
    by (auto simp: rpc_done_transfer_def demo_raft_def Let_def set_path_def demo_world_def)
  let ?req = "(fill_data f1 2)\<lparr>dq_name := ''db'', dq_data := ''x = 1''\<rparr>"
  have t: "r_curr_term f1 \<le> dq_term ?req" "dq_name ?req = ''db''" "dq_id ?req \<noteq> 1" "dq_term ?req = r_curr_term f1"
    by (simp_all add: fill_data_def)
  then obtain res f2 where 2: "rpc_data_transfer demo_world ?req f1 = Some (res, f2)"
    by (simp add: rpc_data_transfer_def Let_def)
  have "received ?f ''db'' = []" by (simp add: received_def demo_raft_def)
  with second_transfer_lost [OF _ _ _ 1(1) _ _ 2 t(1,2)] 2 show ?thesis
    by (fastforce simp: demo_raft_def file_name_def)
qed

end
