(* ===== verification/Raft_Membership.thy ===== *)
theory Raft_Membership
  imports Raft_Replication
begin

text \<open>
  Membership changes and leadership transfer of \<^verbatim>\<open>src/raft/raft_impl.hpp\<close>: \<open>add_server\<close>,
  \<open>del_server\<close>, \<open>leadership_transfer\<close> and its timeout.  A response object is named by a number.
  The result is the code, and the new state; \<^const>\<open>None\<close> is a null or dangling pointer, or a log
  operation that does not return.
\<close>

definition set_ready :: "nat \<Rightarrow> bool \<Rightarrow> raft \<Rightarrow> raft" where
  "set_ready h b r = r\<lparr>r_replies := (r_replies r)(h := (r_replies r h)\<lparr>h_ready := b\<rparr>)\<rparr>"

definition refuse :: "nat \<Rightarrow> string \<Rightarrow> raft \<Rightarrow> rc_errno \<times> raft" where
  "refuse h status r = (RC_ERROR, prepare h (status @ '' '' @ r_leader r) r)"

definition make_config :: "string \<Rightarrow> addr \<Rightarrow> nat \<Rightarrow> reconfiguration_type \<Rightarrow> raft \<Rightarrow> raft" where
  "make_config address a h type r =
     (set_ready h False r)\<lparr>r_recfg := Some \<lparr>rc_type = type, rc_address = address, rc_rep = h, rc_rounds = 0,
        rc_entry_added = False, rc_node = a, rc_last_round = 0\<rparr>\<rparr>"

section \<open>Adding a server\<close>

definition add_server :: "world \<Rightarrow> string \<Rightarrow> nat \<Rightarrow> raft \<Rightarrow> (rc_errno \<times> raft) option" where
  "add_server w address h r =
     (let address = make_id r address in
      if r_role r \<noteq> LEADER then Some (refuse h ''NOT_LEADER'' r)
      else if contains r address then Some (refuse h ''IN_CFG'' r)
      else if \<not> is_ipv4 address then Some (refuse h ''INVALID_SERVER'' r)
      else if r_recfg r \<noteq> None then Some (refuse h ''INPROGRESS'' r)
      else
        case make_node address default_rpc_port r of (a, r1) \<Rightarrow>
          let r2 = make_config address a h server_addition r1;
              r3 = r2\<lparr>r_recfg := map_option (\<lambda>c. c\<lparr>rc_last_round := w_now w\<rparr>) (r_recfg r2)\<rparr>
          in map_option (Pair RC_GOOD)
               (if r_log_compaction_enabled r3 then do_data_transfer w a (init_transfer w r3) else append_entries_to a r3))"

section \<open>Transferring leadership\<close>

text \<open>The timeout: the node the timer was set for, and whether the wait ended with an error code.\<close>

definition on_leadership_transfer_timeout :: "addr \<Rightarrow> bool \<Rightarrow> raft \<Rightarrow> raft option" where
  "on_leadership_transfer_timeout a ec r =
     (if ec then Some r
      else do {
        _ \<leftarrow> node_at r a;
        let r1 = set_node a (\<lambda>n. n\<lparr>n_transfer_leader_to := False\<rparr>) r
        in do {
          r2 \<leftarrow> (case r_recfg r1 of
                   Some c \<Rightarrow>
                     if rc_type c = server_removal then complete_reconfiguration ''TIMEOUT'' r1
                     else Some (case r_transfer_reply_to r1 of
                       Some h \<Rightarrow> if \<not> h_ready (r_replies r1 h) then do_write h (prepare h (''TIMEOUT'' @ r_leader r1) r1) else r1
                     | None \<Rightarrow> r1)
                 | None \<Rightarrow> Some (case r_transfer_reply_to r1 of
                       Some h \<Rightarrow> if \<not> h_ready (r_replies r1 h) then do_write h (prepare h (''TIMEOUT'' @ r_leader r1) r1) else r1
                     | None \<Rightarrow> r1));
          Some (r2\<lparr>r_transfer_reply_to := None, r_transfer_leader_to := None\<rparr>)
        }
      })"

definition leadership_transfer :: "string \<Rightarrow> nat \<Rightarrow> raft \<Rightarrow> (rc_errno \<times> raft) option" where
  "leadership_transfer address h r =
     (let address = make_id r address in
      if r_role r \<noteq> LEADER then Some (refuse h ''NOT_LEADER'' r)
      else if address = [] then Some (refuse h ''EMPTY_SERVER'' r)
      else if r_transfer_leader_to r \<noteq> None then Some (refuse h ''INPROGRESS'' r)
      else if address = r_self_id r then Some (refuse h ''IN_CFG'' r)
      else case map_of (r_cluster r) address of
        None \<Rightarrow> Some (refuse h ''NOT_IN_CFG'' r)
      | Some a \<Rightarrow>
          do {
            n \<leftarrow> node_at r a;
            let r1 = set_ready h False ((set_node a (\<lambda>n. n\<lparr>n_transfer_leader_to := True\<rparr>) r)
                  \<lparr>r_transfer_leader_to := Some a, r_transfer_reply_to := Some h\<rparr>)
            in map_option (Pair RC_GOOD)
                 (if n_match_index n = last_entry_index (r_log r) then timeout_now a r1
                  else map_option (emit (Set_Transfer_Timer a)) (append_entries_to a r1))
          })"

section \<open>Removing a server\<close>

text \<open>\<open>latest_server\<close>: the first peer with the greatest match index, or this server.\<close>

fun latest_among :: "raft \<Rightarrow> addr list \<Rightarrow> node option \<Rightarrow> node option option" where
  "latest_among r [] latest = Some latest"
| "latest_among r (a # as) latest =
     do {
       n \<leftarrow> node_at r a;
       latest_among r as
         (if n_id n \<noteq> r_self_id r \<and> (case latest of None \<Rightarrow> True | Some m \<Rightarrow> n_match_index m < n_match_index n)
          then Some n else latest)
     }"

definition latest_server :: "raft \<Rightarrow> string option" where
  "latest_server r =
     map_option (\<lambda>latest. case latest of None \<Rightarrow> r_self_id r | Some n \<Rightarrow> n_id n) (latest_among r (members r) None)"

text \<open>The local shared pointer keeps the removed node alive until a reconfiguration owns it.\<close>

definition keep_node :: "addr \<Rightarrow> node \<Rightarrow> raft \<Rightarrow> raft" where
  "keep_node a n r = r\<lparr>r_nodes := (r_nodes r)(a \<mapsto> n)\<rparr>"

definition remove_member :: "world \<Rightarrow> string \<Rightarrow> addr \<Rightarrow> node \<Rightarrow> nat \<Rightarrow> raft \<Rightarrow> (rc_errno \<times> raft) option" where
  "remove_member w address a n h r =
     (if address = r_self_id r then
        do {
          target \<leftarrow> latest_server r;
          (rc, r1) \<leftarrow> leadership_transfer target h r;
          Some (if rc = RC_GOOD then (RC_GOOD, make_config address a h server_removal (keep_node a n r1))
                else refuse h ''ERROR'' r1)
        }
      else
        map_option (Pair RC_GOOD) (append_entries w (make_config address a h server_removal (keep_node a n r))))"

definition del_server :: "world \<Rightarrow> string \<Rightarrow> nat \<Rightarrow> raft \<Rightarrow> (rc_errno \<times> raft) option" where
  "del_server w address h r =
     (let address = make_id r address in
      if r_role r \<noteq> LEADER then Some (refuse h ''NOT_LEADER'' r)
      else case map_of (r_cluster r) address of
        None \<Rightarrow> Some (refuse h ''NOT_IN_CFG'' r)
      | Some a \<Rightarrow>
          if r_recfg r \<noteq> None then Some (refuse h ''INPROGRESS'' r)
          else if cluster_size r = 1 then Some (refuse h ''UNIQUE_SERVER'' r)
          else do {
            n \<leftarrow> node_at r a;
            let r1 = erase address r
            in do {
              conf \<leftarrow> serialize_configuration r1;
              (rc, l) \<leftarrow> append (w_os w) [make_next_entry conf True r1] True (r_log r1);
              let r2 = r1\<lparr>r_log := l\<rparr>
              in if rc \<noteq> RC_GOOD then Some (refuse h ''ERROR'' r2) else remove_member w address a n h r2
            }
          })"

end
