(* ===== verification/Broadcast.thy ===== *)
theory Broadcast
  imports Raft_Membership Replication_Handlers
begin

text \<open>
  \<open>append_entries\<close> of a leader: every peer that is not being sent data gets one request, which carries everything
  from the peer's next index on.
\<close>

definition nodes_present :: "raft \<Rightarrow> addr list \<Rightarrow> bool" where
  "nodes_present r as \<longleftrightarrow> (\<forall>a \<in> set as. node_at r a \<noteq> None)"

text \<open>The next index is inside the log or right behind it.\<close>

definition next_inside :: "alog \<Rightarrow> node \<Rightarrow> bool" where
  "next_inside a n \<longleftrightarrow> al_index a < n_next_index n \<and> n_next_index n \<le> al_last a + 1"

definition carries_rest :: "raft \<Rightarrow> alog \<Rightarrow> addr \<Rightarrow> node \<Rightarrow> task \<Rightarrow> append_entries_req \<Rightarrow> bool" where
  "carries_rest r a x n t req \<longleftrightarrow> t_node t = x \<and> t_host t = n_host n \<and> t_port t = n_port n \<and>
     aq_term req = r_curr_term r \<and> aq_leader_id req = r_self_id r \<and>
     aq_prev_log_index req = n_next_index n - 1 \<and> has_prev a req \<and>
     aq_entries req = map to_LogEntry (drop (n_next_index n - 1 - al_index a) (al_entries a))"

lemma carries_rest_simps [simp]:
  "carries_rest (r\<lparr>r_append_entries_id := i\<rparr>) = carries_rest r" "carries_rest (r\<lparr>r_out := out\<rparr>) = carries_rest r"
  "carries_rest (r\<lparr>r_last_heartbeat := h\<rparr>) = carries_rest r" "carries_rest (emit act r) = carries_rest r"
  by (simp_all add: carries_rest_def fun_eq_iff emit_def)

lemma append_entries_to_adds:
  assumes "node_at r x = Some n" and "live_rep os (r_log r) a"
  shows "\<exists>t req. append_entries_to x r =
      Some (r\<lparr>r_append_entries_id := r_append_entries_id r + 1, r_out := r_out r @ [Append_Entries t req]\<rparr>) \<and>
    (next_inside a n \<longrightarrow> carries_rest r a x n t req)"
proof -
  obtain t req where run: "append_entries_to x r =
      Some (r\<lparr>r_append_entries_id := r_append_entries_id r + 1, r_out := r_out r @ [Append_Entries t req]\<rparr>)"
    using assms(1) by (simp add: append_entries_to_def make_task_def Let_def emit_def)
  have "carries_rest r a x n t req" if "next_inside a n"
    using request_of_leader [OF assms(2,1)] that run by (auto simp: carries_rest_def next_inside_def)
  with run show ?thesis by blast
qed

abbreviation send_rest :: "addr \<Rightarrow> raft \<Rightarrow> raft option" where
  "send_rest \<equiv> to_peer (\<lambda>a (r :: raft). do { (n :: node) \<leftarrow> node_at r a; if n_transfer_data_to n then Some r else append_entries_to a r })"

text \<open>The peers among the given nodes, each with a request among the new actions.\<close>

definition all_told :: "raft \<Rightarrow> alog \<Rightarrow> addr list \<Rightarrow> action list \<Rightarrow> bool" where
  "all_told r a xs new \<longleftrightarrow> (\<forall>x \<in> set xs. \<forall>n. node_at r x = Some n \<longrightarrow> n_id n \<noteq> r_self_id r \<longrightarrow> \<not> n_transfer_data_to n \<longrightarrow>
     next_inside a n \<longrightarrow> (\<exists>t req. Append_Entries t req \<in> set new \<and> carries_rest r a x n t req))"

lemma all_told_mono: "all_told r a xs new \<Longrightarrow> set new \<subseteq> set new' \<Longrightarrow> all_told r a xs new'"
  unfolding all_told_def by blast

lemma all_told_append: "all_told r a [x] new \<Longrightarrow> all_told r a xs new' \<Longrightarrow> all_told r a (x # xs) (new @ new')"
  using all_told_mono [of r a "[x]" new "new @ new'"] all_told_mono [of r a xs new' "new @ new'"]
  unfolding all_told_def by simp

lemma send_rest_one:
  assumes "node_at r x \<noteq> None" and "live_rep os (r_log r) a"
  shows "\<exists>i new. send_rest x r = Some (r\<lparr>r_append_entries_id := i, r_out := r_out r @ new\<rparr>) \<and> all_told r a [x] new"
proof -
  obtain n where n: "node_at r x = Some n" using assms(1) by blast
  show ?thesis
  proof (cases "n_id n = r_self_id r \<or> n_transfer_data_to n")
    case True
    then have "send_rest x r = Some (r\<lparr>r_append_entries_id := r_append_entries_id r, r_out := r_out r @ []\<rparr>)"
      using n by (auto simp: to_peer_def)
    moreover have "all_told r a [x] []" using True n by (auto simp: all_told_def)
    ultimately show ?thesis by blast
  next
    case False
    obtain t req where q: "append_entries_to x r =
        Some (r\<lparr>r_append_entries_id := r_append_entries_id r + 1, r_out := r_out r @ [Append_Entries t req]\<rparr>)"
      "next_inside a n \<longrightarrow> carries_rest r a x n t req"
      using append_entries_to_adds [OF n assms(2)] by blast
    then have "all_told r a [x] [Append_Entries t req]" using n by (auto simp: all_told_def)
    with q(1) False n show ?thesis by (auto simp: to_peer_def)
  qed
qed

lemma send_rest_all:
  assumes "nodes_present r xs" and "live_rep os (r_log r) a"
  shows "\<exists>i new. for_nodes send_rest xs r = Some (r\<lparr>r_append_entries_id := i, r_out := r_out r @ new\<rparr>) \<and> all_told r a xs new"
  using assms
proof (induction xs arbitrary: r)
  case Nil
  have "for_nodes send_rest [] r = Some (r\<lparr>r_append_entries_id := r_append_entries_id r, r_out := r_out r @ []\<rparr>)" by simp
  moreover have "all_told r a [] []" by (simp add: all_told_def)
  ultimately show ?case by blast
next
  case (Cons x xs)
  have "node_at r x \<noteq> None" using Cons.prems(1) by (simp add: nodes_present_def)
  from send_rest_one [OF this Cons.prems(2)] obtain i new where
    1: "send_rest x r = Some (r\<lparr>r_append_entries_id := i, r_out := r_out r @ new\<rparr>)" "all_told r a [x] new" by blast
  let ?r = "r\<lparr>r_append_entries_id := i, r_out := r_out r @ new\<rparr>"
  have "nodes_present ?r xs" "live_rep os (r_log ?r) a" using Cons.prems by (simp_all add: nodes_present_def)
  from Cons.IH [OF this] obtain j new' where 2:
    "for_nodes send_rest xs ?r = Some (?r\<lparr>r_append_entries_id := j, r_out := r_out ?r @ new'\<rparr>)" "all_told ?r a xs new'" by blast
  have "all_told r a xs new'" using 2(2) by (simp add: all_told_def)
  then have "all_told r a (x # xs) (new @ new')" using 1(2) by (rule all_told_append [rotated])
  moreover have "for_nodes send_rest (x # xs) r = Some (r\<lparr>r_append_entries_id := j, r_out := r_out r @ (new @ new')\<rparr>)"
    using 1(1) 2(1) by simp
  ultimately show ?case by blast
qed

lemma append_entries_tells:
  assumes "nodes_present r (members r)" and "cluster_size r \<noteq> 1" and "r_role r = LEADER" and "live_rep os (r_log r) a"
  shows "\<exists>i new. append_entries w r = Some (r\<lparr>r_last_heartbeat := w_now w, r_append_entries_id := i, r_out := r_out r @ new\<rparr>) \<and>
    all_told r a (members r) new"
proof -
  let ?r = "(reset_heartbeat_timer r)\<lparr>r_last_heartbeat := w_now w\<rparr>"
  have "nodes_present ?r (members r)" "live_rep os (r_log ?r) a"
    using assms by (simp_all add: nodes_present_def reset_heartbeat_timer_def emit_def)
  from send_rest_all [OF this] obtain i new where s:
    "for_nodes send_rest (members r) ?r = Some (?r\<lparr>r_append_entries_id := i, r_out := r_out ?r @ new\<rparr>)" "all_told ?r a (members r) new"
    by blast
  have "append_entries w r = Some (r\<lparr>r_last_heartbeat := w_now w, r_append_entries_id := i, r_out := r_out r @ (Set_Heartbeat_Timer # new)\<rparr>)"
    using s(1) assms(2,3) by (simp add: append_entries_def Let_def reset_heartbeat_timer_def emit_def cluster_size_def members_def)
  moreover have "all_told r a (members r) (Set_Heartbeat_Timer # new)"
    using s(2) by (auto simp: all_told_def reset_heartbeat_timer_def emit_def)
  ultimately show ?thesis by blast
qed

section \<open>A new entry reaches the peers\<close>

text \<open>
  Every peer whose next index was inside the log (or right behind it) before the entry was added gets a request that
  carries the rest of that log and the new entry.
\<close>

definition sent_to_peers :: "raft \<Rightarrow> alog \<Rightarrow> log_entry \<Rightarrow> addr list \<Rightarrow> action list \<Rightarrow> bool" where
  "sent_to_peers r a e xs new \<longleftrightarrow> (\<forall>x \<in> set xs. \<forall>n. node_at r x = Some n \<longrightarrow> n_id n \<noteq> r_self_id r \<longrightarrow>
     \<not> n_transfer_data_to n \<longrightarrow> next_inside a n \<longrightarrow>
     (\<exists>t req. Append_Entries t req \<in> set new \<and> t_node t = x \<and> t_host t = n_host n \<and> t_port t = n_port n \<and>
        aq_term req = r_curr_term r \<and> aq_prev_log_index req = n_next_index n - 1 \<and> has_prev a req \<and>
        aq_entries req = map to_LogEntry (drop (n_next_index n - 1 - al_index a) (al_entries a)) @ [to_LogEntry e]))"

lemma carries_rest_new:
  assumes "carries_rest r (al_append a [e]) x n t req" and "next_inside a n"
  shows "has_prev a req" and "aq_entries req = map to_LogEntry (drop (n_next_index n - 1 - al_index a) (al_entries a)) @ [to_LogEntry e]"
proof -
  have p: "aq_prev_log_index req \<le> al_last a" using assms by (auto simp: carries_rest_def next_inside_def)
  then show "has_prev a req" using assms(1) al_get_append_old [OF p, of "[e]"] by (auto simp: carries_rest_def has_prev_def split: option.splits)
  have "n_next_index n - 1 - al_index a \<le> length (al_entries a)" using assms(2) by (auto simp: next_inside_def)
  then show "aq_entries req = map to_LogEntry (drop (n_next_index n - 1 - al_index a) (al_entries a)) @ [to_LogEntry e]"
    using assms(1) by (simp add: carries_rest_def)
qed

lemma told_sent: "all_told r (al_append a [e]) xs new \<Longrightarrow> sent_to_peers r a e xs new"
  unfolding sent_to_peers_def
proof (intro ballI allI impI)
  fix x n assume told: "all_told r (al_append a [e]) xs new"
    and n: "x \<in> set xs" "node_at r x = Some n" "n_id n \<noteq> r_self_id r" "\<not> n_transfer_data_to n" "next_inside a n"
  have "next_inside (al_append a [e]) n" using n(5) by (simp add: next_inside_def)
  with told n obtain t req where q: "Append_Entries t req \<in> set new" "carries_rest r (al_append a [e]) x n t req"
    unfolding all_told_def by blast
  with carries_rest_new [OF q(2) n(5)] show "\<exists>t req. Append_Entries t req \<in> set new \<and> t_node t = x \<and> t_host t = n_host n \<and> t_port t = n_port n \<and>
        aq_term req = r_curr_term r \<and> aq_prev_log_index req = n_next_index n - 1 \<and> has_prev a req \<and>
        aq_entries req = map to_LogEntry (drop (n_next_index n - 1 - al_index a) (al_entries a)) @ [to_LogEntry e]"
    unfolding carries_rest_def by blast
qed

text \<open>Only the nodes, the name and the term of the sender matter.\<close>

lemma sent_to_peers_cong:
  "r_nodes r' = r_nodes r \<Longrightarrow> r_self_id r' = r_self_id r \<Longrightarrow> r_curr_term r' = r_curr_term r \<Longrightarrow>
   sent_to_peers r' a e xs new = sent_to_peers r a e xs new"
  by (simp add: sent_to_peers_def)

end
