(* ===== verification/Membership_Properties.thy ===== *)
theory Membership_Properties
  imports Broadcast Transfer_Properties
begin

text \<open>
  The properties of membership changes: who may start one, what is logged, when a new server is
  deployed, and how leadership is handed over.
\<close>

section \<open>Lists of members\<close>

lemma distinct_filter_key: "distinct (map fst xs) \<Longrightarrow> length (filter (\<lambda>(k, _). k = s) xs) \<le> 1"
proof (induction xs)
  case (Cons x xs)
  show ?case
  proof (cases "fst x = s")
    case True
    then have "s \<notin> fst ` set xs" using Cons.prems by auto
    then have "filter (\<lambda>p. fst p = s) xs = []" by (auto simp: filter_empty_conv)
    then show ?thesis by (simp add: case_prod_unfold)
  next
    case False
    then show ?thesis using Cons by (simp add: case_prod_unfold)
  qed
qed simp

text \<open>The length of a joined list does not depend on the order.\<close>

lemma length_join: "length (join c xs) = sum_list (map length xs) + (length xs - 1)"
  by (induction c xs rule: join.induct) simp_all

lemma length_join_mset: "mset xs = mset ys \<Longrightarrow> length (join c xs) = length (join c ys)"
  by (metis length_join mset_map size_mset sum_mset_sum_list)

section \<open>One change at a time\<close>

text \<open>C33: while a change of the membership is in progress every further change is refused, and so is every
  change at a server that is not the leader; all a refusal does is to fill in the body of the reply.\<close>

theorem one_change_at_a_time:
  assumes "r_recfg r \<noteq> None \<or> r_role r \<noteq> LEADER"
  shows "(\<exists>b. b \<noteq> [] \<and> add_server w address h r = Some (RC_ERROR, prepare h b r)) \<and>
    (\<exists>b. b \<noteq> [] \<and> del_server w address h r = Some (RC_ERROR, prepare h b r))"
proof -
  have refused: "\<exists>b. b \<noteq> [] \<and> refuse h (c # s) r = (RC_ERROR, prepare h b r)" for c s
    by (auto simp: refuse_def)
  have "\<exists>b. b \<noteq> [] \<and> add_server w address h r = Some (RC_ERROR, prepare h b r)"
    using assms by (auto simp: add_server_def Let_def intro: refused)
  moreover have "\<exists>b. b \<noteq> [] \<and> del_server w address h r = Some (RC_ERROR, prepare h b r)"
    using assms by (auto simp: del_server_def Let_def intro: refused split: option.split)
  ultimately show ?thesis ..
qed

theorem one_change_at_a_time_witness:
  "\<exists>b. add_server demo_world ''d'' 0 (demo_raft ''a:1'' demo_log) = Some (RC_ERROR, prepare 0 b (demo_raft ''a:1'' demo_log))"
  using one_change_at_a_time [of "demo_raft ''a:1'' demo_log" demo_world "''d''" 0] by (auto simp: demo_raft_def)

section \<open>Adding\<close>

text \<open>an accepted addition makes a node for the new server and starts to send it the log from its end on,
  but the new server is no member yet and nothing is logged; the reply waits.\<close>

theorem addition_starts:
  assumes "live_rep (w_os w) (r_log r) a" and "r_role r = LEADER" and "r_recfg r = None" and "\<not> contains r (make_id r address)"
    and "is_ipv4 (make_id r address)" and "\<not> r_log_compaction_enabled r"
  shows "\<exists>r' t req. add_server w address h r = Some (RC_GOOD, r') \<and> r_cluster r' = r_cluster r \<and> r_log r' = r_log r \<and>
    newly r' (r_fresh r) \<and> \<not> h_ready (r_replies r' h) \<and> r_out r' = r_out r @ [Append_Entries t req] \<and>
    t_node t = r_fresh r \<and> aq_entries req = [] \<and> aq_prev_log_index req = al_last a \<and> has_prev a req"
proof -
  obtain x r1 where m: "make_node (make_id r address) default_rpc_port r = (x, r1)" by (cases "make_node (make_id r address) default_rpc_port r")
  then have r1: "x = r_fresh r" "r_log r1 = r_log r" "r_cluster r1 = r_cluster r" "r_out r1 = r_out r" "r_role r1 = r_role r"
    "r_log_compaction_enabled r1 = r_log_compaction_enabled r"
    by (auto simp: make_node_def Let_def split: prod.splits)
  obtain n where n: "node_at r1 x = Some n" "n_next_index n = al_last a + 1"
    using m assms(1) rep_last_entry_index by (fastforce simp: make_node_def Let_def live_rep_def split: prod.splits)
  define r3 where "r3 = (make_config (make_id r address) x h server_addition r1)
    \<lparr>r_recfg := map_option (\<lambda>c. c\<lparr>rc_last_round := w_now w\<rparr>) (r_recfg (make_config (make_id r address) x h server_addition r1))\<rparr>"
  have r3: "r_log r3 = r_log r" "node_at r3 x = Some n" "r_cluster r3 = r_cluster r" "r_out r3 = r_out r"
    "newly r3 x" "\<not> h_ready (r_replies r3 h)"
    using r1 n by (simp_all add: r3_def make_config_def set_ready_def newly_def)
  have bnd: "al_index a < n_next_index n" "n_next_index n \<le> al_last a + 1" using n(2) by auto
  have live: "live_rep (w_os w) (r_log r3) a" using assms(1) r3(1) by simp
  obtain t req r' where q: "append_entries_to x r3 = Some r'" "r_out r' = r_out r3 @ [Append_Entries t req]" "t_node t = x"
    "aq_prev_log_index req = n_next_index n - 1" "has_prev a req"
    "aq_entries req = map to_LogEntry (drop (n_next_index n - 1 - al_index a) (al_entries a))"
    using request_of_leader [OF live r3(2) bnd] by blast
  obtain i out where same: "r' = r3\<lparr>r_append_entries_id := i, r_out := out\<rparr>" using append_entries_to_same [OF q(1)] by blast
  have "add_server w address h r = map_option (Pair RC_GOOD) (append_entries_to x r3)"
    using assms(2-6) m r1(6) by (simp add: add_server_def Let_def r3_def make_config_def set_ready_def)
  then have "add_server w address h r = Some (RC_GOOD, r')" using q(1) by simp
  moreover have "r_cluster r' = r_cluster r" "r_log r' = r_log r" "newly r' x" "\<not> h_ready (r_replies r' h)"
    using r3 same by (simp_all add: newly_def)
  ultimately show ?thesis using q r1(1) r3(4) n(2) by auto
qed

text \<open>C31: the round after which a new server becomes a member is the last one of the catching-up phase, was
  shorter than the minimal election timeout, and left the server at most five entries behind.\<close>

theorem deployed_when_caught_up:
  assumes "r_recfg r = Some c" and "node_at r (rc_node c) = Some n" and "handle_catch_up w r = Some r'"
    and "n_match_index n \<le> last_entry_index (r_log r)" and "0 < r_server_catch_up_rounds r" and "r_server_catch_up_rounds r < 2 ^ 32"
    and "r_cluster r' \<noteq> r_cluster r \<or> r_log r' \<noteq> r_log r"
  shows "r_server_catch_up_rounds r \<le> rc_rounds c + 1 \<and> w_now w - rc_last_round c < r_min_election_timeout r \<and>
    last_entry_index (r_log r) \<le> n_match_index n + 5 \<and> \<not> rc_entry_added c"
proof -
  have rounds: "(r_server_catch_up_rounds r + 2 ^ 32 - 1) mod 2 ^ 32 = r_server_catch_up_rounds r - 1"
    using assms(5,6) by (auto simp: mod_if)
  have run: "handle_catch_up w r =
      (if rc_rounds c < r_server_catch_up_rounds r - 1 then
         append_entries_to (rc_node c) (r\<lparr>r_recfg := Some (c\<lparr>rc_rounds := rc_rounds c + 1, rc_last_round := w_now w\<rparr>)\<rparr>)
       else if w_now w - rc_last_round c < r_min_election_timeout r \<and> sub64 (last_entry_index (r_log r)) (n_match_index n) \<le> 5 then
         do { (ok, r1) \<leftarrow> add_caught_up (w_os w) c n r; if ok then append_entries w r1 else Some r1 }
       else complete_reconfiguration ''TIMEOUT'' r)"
    by (simp only: handle_catch_up_def assms(1,2) bind.bind_lunit rounds Let_def)
  have same: "r_cluster r2 = r_cluster r1 \<and> r_log r2 = r_log r1" if "frame r1 r2" for r1 r2
    using frameD(6,7) [OF that] by simp
  show ?thesis
  proof (cases "rc_rounds c < r_server_catch_up_rounds r - 1")
    case True
    then have "append_entries_to (rc_node c) (r\<lparr>r_recfg := Some (c\<lparr>rc_rounds := rc_rounds c + 1, rc_last_round := w_now w\<rparr>)\<rparr>) = Some r'"
      using assms(3) run by simp
    then show ?thesis using same frame_append_entries_to assms(7) by fastforce
  next
    case False
    show ?thesis
    proof (cases "w_now w - rc_last_round c < r_min_election_timeout r \<and> sub64 (last_entry_index (r_log r)) (n_match_index n) \<le> 5")
      case caught: True
      have "\<not> rc_entry_added c"
      proof
        assume "rc_entry_added c"
        then have "append_entries w r = Some r'"
          using assms(3) run False caught by (simp add: add_caught_up_def)
        then show False using same frame_append_entries assms(7) by blast
      qed
      then show ?thesis using False caught assms(4) by auto
    next
      case late: False
      then have "complete_reconfiguration ''TIMEOUT'' r = Some r'"
        using assms(3) run False by auto
      then show ?thesis using same frame_complete assms(7) by blast
    qed
  qed
qed

section \<open>Removing\<close>

text \<open>The cluster map files every node under its own id.\<close>

definition cluster_ok :: "raft \<Rightarrow> bool" where
  "cluster_ok r \<longleftrightarrow> distinct (map fst (r_cluster r)) \<and> distinct (map snd (r_cluster r)) \<and>
     (\<forall>(k, x) \<in> set (r_cluster r). \<exists>n. node_at r x = Some n \<and> n_id n = k \<and> CHR '','' \<notin> set k)"

definition others :: "string \<Rightarrow> raft \<Rightarrow> (string \<times> addr) list" where
  "others address r = filter (\<lambda>(k, _). k \<noteq> address) (r_cluster r)"

lemma erase_cluster_ok:
  assumes "cluster_ok r" and "r_recfg r = None"
  shows "r_cluster (erase address r) = others address r" and "cluster_ok (erase address r)"
proof -
  show c: "r_cluster (erase address r) = others address r" by (simp add: erase_def Let_def others_def)
  have d: "distinct (map fst (others address r))" "distinct (map snd (others address r))"
    using assms(1) by (auto simp: cluster_ok_def others_def intro: distinct_map_filter)
  have "\<exists>n. node_at (erase address r) x = Some n \<and> n_id n = k \<and> CHR '','' \<notin> set k" if "(k, x) \<in> set (others address r)" for k x
  proof -
    have m: "(k, x) \<in> set (r_cluster r)" "k \<noteq> address" using that by (auto simp: others_def)
    have "inj_on snd (set (r_cluster r))" using assms(1) by (simp add: cluster_ok_def distinct_map)
    then have "(address, x) \<notin> set (r_cluster r)" using m inj_onD by fastforce
    then have "node_at (erase address r) x = node_at r x" using assms(2) by (auto simp: erase_def Let_def)
    then show ?thesis using m(1) assms(1) by (auto simp: cluster_ok_def)
  qed
  then show "cluster_ok (erase address r)" using c d by (auto simp: cluster_ok_def)
qed

lemma cluster_ok_serialize:
  assumes "cluster_ok r"
  shows "serialize_configuration r = Some (join (CHR '','') (map fst (r_cluster r)))"
    and "r_cluster r \<noteq> [] \<Longrightarrow> split (join (CHR '','') (map fst (r_cluster r))) '','' = map fst (r_cluster r)"
    and "nodes_present r (members r)"
proof -
  have ids: "map (\<lambda>a. n_id (the (node_at r a))) (members r) = map fst (r_cluster r)"
    using assms by (auto simp: cluster_ok_def members_def)
  show p: "nodes_present r (members r)" using assms by (auto simp: cluster_ok_def nodes_present_def members_def)
  show "serialize_configuration r = Some (join (CHR '','') (map fst (r_cluster r)))"
    using p ids by (auto simp: serialize_configuration_def nodes_present_def)
  show "split (join (CHR '','') (map fst (r_cluster r))) '','' = map fst (r_cluster r)" if "r_cluster r \<noteq> []"
    unfolding split_pieces by (rule pieces_join) (use assms that in \<open>force simp: cluster_ok_def\<close>)+
qed

lemma emplace_cluster_ok:
  assumes "cluster_ok r" and "node_at r x = Some n" and "\<not> contains r (n_id n)" and "x \<notin> set (members r)" and "CHR '','' \<notin> set (n_id n)"
  shows "mset (r_cluster (emplace (n_id n) x r)) = add_mset (n_id n, x) (mset (r_cluster r))" and "cluster_ok (emplace (n_id n) x r)"
  using assms by (auto simp: emplace_def cluster_ok_def contains_def members_def)

text \<open>A configuration entry put at the end of the log, with the members of the cluster map as its text.\<close>

lemma log_configuration:
  assumes "live_rep os (r_log r) a" and "cluster_ok r" and "r_cluster r \<noteq> []" and "r_curr_term r < u64_bound" and "al_last a + 1 < u64_bound"
    and "total (al_entries a) + length (join (CHR '','') (map fst (r_cluster r))) + 72 < 2 ^ 59"
  obtains l e where "serialize_configuration r = Some (join (CHR '','') (map fst (r_cluster r)))"
    and "append os [make_next_entry (join (CHR '','') (map fst (r_cluster r))) True r] True (r_log r) = Some (RC_GOOD, l)"
    and "live_rep os l (al_append a [e])" and "e_cfg e" and "e_index e = al_last a + 1" and "e_term e = r_curr_term r"
    and "split (str e) '','' = map fst (r_cluster r)"
proof -
  define e where "e = make_next_entry (join (CHR '','') (map fst (r_cluster r))) True r"
  note e = live_append_next [OF assms(1,4,6,5), of True, folded e_def]
  obtain l where l: "append os [e] True (r_log r) = Some (RC_GOOD, l)" "live_rep os l (al_append a [e])"
    using file_log.app_good [OF assms(1) e(1)] by blast
  have "e_cfg e" "e_term e = r_curr_term r" by (simp_all add: e_def make_next_entry_def)
  with that [OF cluster_ok_serialize(1) [OF assms(2)] l(1) [unfolded e_def] l(2)] show ?thesis
    using e(2,3) cluster_ok_serialize(2) [OF assms(2,3)] by simp
qed

lemma caught_up_logs:
  assumes "live_rep (w_os w) (r_log r) a" and "cluster_ok r" and "r_role r = LEADER" and "r_recfg r = Some c" and "\<not> rc_entry_added c"
    and "node_at r (rc_node c) = Some n" and "\<not> contains r (n_id n)" and "rc_node c \<notin> set (members r)" and "CHR '','' \<notin> set (n_id n)"
    and "(r_server_catch_up_rounds r + 2 ^ 32 - 1) mod 2 ^ 32 \<le> rc_rounds c" and "w_now w - rc_last_round c < r_min_election_timeout r"
    and "n_match_index n \<le> al_last a" and "al_last a \<le> n_match_index n + 5" and "r_cluster r \<noteq> []"
    and "r_curr_term r < u64_bound" and "al_last a + 1 < u64_bound"
    and "total (al_entries a) + length (join (CHR '','') (map fst (r_cluster r) @ [n_id n])) + 72 < 2 ^ 59"
  shows "\<exists>r' e new. handle_catch_up w r = Some r' \<and> live_rep (w_os w) (r_log r') (al_append a [e]) \<and>
    e_cfg e \<and> e_index e = al_last a + 1 \<and> e_term e = r_curr_term r \<and>
    mset (split (str e) '','') = add_mset (n_id n) (mset (map fst (r_cluster r))) \<and>
    mset (r_cluster r') = add_mset (n_id n, rc_node c) (mset (r_cluster r)) \<and>
    r_recfg r' = Some (c\<lparr>rc_entry_added := True\<rparr>) \<and> r_out r' = r_out r @ new \<and> sent_to_peers r a e (members r') new"
proof -
  define r1 where "r1 = emplace (n_id n) (rc_node c) r"
  note ok = emplace_cluster_ok [OF assms(2,6-9), folded r1_def]
  have r1: "r_log r1 = r_log r" "r_curr_term r1 = r_curr_term r" "r_out r1 = r_out r" "r_role r1 = LEADER" "r_self_id r1 = r_self_id r" "r_nodes r1 = r_nodes r"
    using assms(3) by (simp_all add: r1_def emplace_def)
  have live: "live_rep (w_os w) (r_log r1) a" using assms(1) r1 by simp
  have names: "mset (map fst (r_cluster r1)) = add_mset (n_id n) (mset (map fst (r_cluster r)))"
    using arg_cong [OF ok(1), of "image_mset fst"] by simp
  have size: "length (r_cluster r1) = Suc (length (r_cluster r))" using arg_cong [OF ok(1), of size] by simp
  then have ne: "r_cluster r1 \<noteq> []" by auto
  have len: "length (join (CHR '','') (map fst (r_cluster r1))) = length (join (CHR '','') (map fst (r_cluster r) @ [n_id n]))"
    by (rule length_join_mset) (use names in simp)
  obtain l e where e: "serialize_configuration r1 = Some (join (CHR '','') (map fst (r_cluster r1)))"
    "append (w_os w) [make_next_entry (join (CHR '','') (map fst (r_cluster r1))) True r1] True (r_log r1) = Some (RC_GOOD, l)"
    "live_rep (w_os w) l (al_append a [e])" "e_cfg e" "e_index e = al_last a + 1" "e_term e = r_curr_term r1"
    "split (str e) '','' = map fst (r_cluster r1)"
    by (rule log_configuration [OF live ok(2) ne]) (use assms(15-17) r1 len in simp_all)
  let ?r2 = "r1\<lparr>r_log := l, r_recfg := Some (c\<lparr>rc_entry_added := True\<rparr>)\<rparr>"
  have r2: "nodes_present ?r2 (members ?r2)" "cluster_size ?r2 \<noteq> 1" "r_role ?r2 = LEADER" "live_rep (w_os w) (r_log ?r2) (al_append a [e])"
    using cluster_ok_serialize(3) [OF ok(2)] size assms(14) e(3) r1(4) by (simp_all add: nodes_present_def members_def cluster_size_def)
  from append_entries_tells [OF r2] obtain i new where
    s: "append_entries w ?r2 = Some (?r2\<lparr>r_last_heartbeat := w_now w, r_append_entries_id := i, r_out := r_out ?r2 @ new\<rparr>)"
      "all_told ?r2 (al_append a [e]) (members ?r2) new" by blast
  let ?r' = "?r2\<lparr>r_last_heartbeat := w_now w, r_append_entries_id := i, r_out := r_out ?r2 @ new\<rparr>"
  have sent: "sent_to_peers r a e (members ?r') new"
    using told_sent [OF s(2)] sent_to_peers_cong [of ?r2 r] r1 by (simp add: members_def)
  have "add_caught_up (w_os w) c n r = Some (True, ?r2)"
    using assms(5) e(1,2) by (simp add: add_caught_up_def r1_def [symmetric] Let_def)
  moreover have "last_entry_index (r_log r) = al_last a" using assms(1) rep_last_entry_index by (simp add: live_rep_def)
  moreover have "al_last a - n_match_index n \<le> 5" using assms(13) by linarith
  ultimately have "handle_catch_up w r = Some ?r'"
    using assms(4,6,10-12) s(1) by (simp add: handle_catch_up_def Let_def)
  then show ?thesis
    by (rule exI [of _ ?r', OF exI [of _ e, OF exI [of _ new, OF conjI]]]) (use e(3-7) r1 ok(1) names sent in simp)
qed




text \<open>C29: in a cluster of at least three, removing another server logs one configuration entry, which lists exactly
  the remaining members, takes the server out of the cluster map, sends every remaining peer (whose next index is
  inside the log, and that is not being sent data) the rest of the log with the entry at its end, and leaves the reply
  waiting for the entry's commitment.\<close>

theorem removal_logged:
  assumes "live_rep (w_os w) (r_log r) a" and "cluster_ok r" and "r_role r = LEADER" and "r_recfg r = None"
    and "contains r (make_id r address)" and "make_id r address \<noteq> r_self_id r" and "3 \<le> cluster_size r"
    and "r_curr_term r < u64_bound" and "al_last a + 1 < u64_bound"
    and "total (al_entries a) + length (join (CHR '','') (map fst (others (make_id r address) r))) + 72 < 2 ^ 59"
  shows "\<exists>r' e c new. del_server w address h r = Some (RC_GOOD, r') \<and> live_rep (w_os w) (r_log r') (al_append a [e]) \<and>
    e_cfg e \<and> e_index e = al_last a + 1 \<and> e_term e = r_curr_term r \<and>
    split (str e) '','' = map fst (others (make_id r address) r) \<and> r_cluster r' = others (make_id r address) r \<and>
    r_recfg r' = Some c \<and> rc_type c = server_removal \<and> rc_address c = make_id r address \<and> rc_rep c = h \<and>
    \<not> h_ready (r_replies r' h) \<and> r_out r' = r_out r @ new \<and>
    sent_to_peers r a e (map snd (others (make_id r address) r)) new"
proof -
  let ?s = "make_id r address"
  obtain x where x: "map_of (r_cluster r) ?s = Some x" using assms(5) by (cases "map_of (r_cluster r) ?s") (auto simp: contains_def map_of_eq_None_iff)
  then obtain n where n: "node_at r x = Some n" using assms(2) map_of_SomeD by (fastforce simp: cluster_ok_def)
  define r1 where "r1 = erase ?s r"
  note ok = erase_cluster_ok [OF assms(2,4), of ?s, folded r1_def]
  have r1: "r_log r1 = r_log r" "r_curr_term r1 = r_curr_term r" "r_role r1 = LEADER" "r_self_id r1 = r_self_id r" "r_out r1 = r_out r"
    using assms(3) by (simp_all add: r1_def erase_def Let_def)
  have "2 \<le> length (others ?s r)"
  proof -
    have "length (filter (\<lambda>(k, _). k = ?s) (r_cluster r)) \<le> 1"
      using distinct_filter_key [of "r_cluster r" ?s] assms(2) by (simp add: cluster_ok_def)
    moreover have "length (r_cluster r) = length (filter (\<lambda>(k, _). k = ?s) (r_cluster r)) + length (others ?s r)"
      using sum_length_filter_compl [of "\<lambda>(k, _). k = ?s" "r_cluster r"] by (simp add: others_def case_prod_unfold)
    ultimately show ?thesis using assms(7) by (simp add: cluster_size_def)
  qed
  then have size: "others ?s r \<noteq> []" "length (others ?s r) \<noteq> 1" by auto
  have live: "live_rep (w_os w) (r_log r1) a" using assms(1) r1 by simp
  obtain l' e where e: "serialize_configuration r1 = Some (join (CHR '','') (map fst (r_cluster r1)))"
    "append (w_os w) [make_next_entry (join (CHR '','') (map fst (r_cluster r1))) True r1] True (r_log r1) = Some (RC_GOOD, l')"
    "live_rep (w_os w) l' (al_append a [e])" "e_cfg e" "e_index e = al_last a + 1" "e_term e = r_curr_term r1"
    "split (str e) '','' = map fst (r_cluster r1)"
    by (rule log_configuration [OF live ok(2)]) (use assms(8-10) r1 ok(1) size(1) in simp_all)
  let ?r3 = "make_config ?s x h server_removal (keep_node x n (r1\<lparr>r_log := l'\<rparr>))"
  have r3: "nodes_present ?r3 (members ?r3)" "cluster_size ?r3 \<noteq> 1" "r_role ?r3 = LEADER" "live_rep (w_os w) (r_log ?r3) (al_append a [e])"
    using cluster_ok_serialize(3) [OF ok(2)] ok(1) size r1(3) e(3)
    by (auto simp: make_config_def set_ready_def keep_node_def nodes_present_def members_def cluster_size_def)
  from append_entries_tells [OF r3] obtain i new where
    q: "append_entries w ?r3 = Some (?r3\<lparr>r_last_heartbeat := w_now w, r_append_entries_id := i, r_out := r_out ?r3 @ new\<rparr>)"
      "all_told ?r3 (al_append a [e]) (members ?r3) new" by blast
  let ?r' = "?r3\<lparr>r_last_heartbeat := w_now w, r_append_entries_id := i, r_out := r_out ?r3 @ new\<rparr>"
  have same: "r_nodes ?r3 = r_nodes r" "members ?r3 = map snd (others ?s r)" "r_self_id ?r3 = r_self_id r" "r_curr_term ?r3 = r_curr_term r"
    using n x assms(2,4) ok(1) r1(2,4)
    by (auto simp: fun_eq_iff make_config_def set_ready_def keep_node_def r1_def erase_def Let_def cluster_ok_def members_def
        dest: eq_key_imp_eq_value)
  have sent: "sent_to_peers r a e (map snd (others ?s r)) new"
    using told_sent [OF q(2)] sent_to_peers_cong [OF same(1,3,4)] same(2) by simp
  have run: "del_server w address h r = Some (RC_GOOD, ?r')"
    using assms(3,4,6,7) x n e(1,2) q(1) r1(1,4)
    by (simp add: del_server_def Let_def r1_def [symmetric] remove_member_def)
  have cfg: "r_recfg ?r' = Some \<lparr>rc_type = server_removal, rc_address = ?s, rc_rep = h, rc_rounds = 0, rc_entry_added = False, rc_node = x, rc_last_round = 0\<rparr>"
    "r_cluster ?r' = others ?s r" "r_log ?r' = l'" "\<not> h_ready (r_replies ?r' h)" "r_out ?r' = r_out r @ new"
    using ok(1) r1(5) by (simp_all add: make_config_def set_ready_def keep_node_def)
  show ?thesis
    by (rule exI [of _ ?r', OF exI [of _ e, OF exI [where x = "the (r_recfg ?r')", OF exI [of _ new]]]])
      (use run sent e(3-7) r1(2) ok(1) cfg in \<open>simp only: option.sel, simp\<close>)
qed

text \<open>When the log refuses the configuration entry, the server is out of the cluster map all the same: the
  change is lost, and the members this leader counts no longer agree with its log.\<close>

theorem failed_removal_sticks:
  assumes "cluster_ok r" and "r_role r = LEADER" and "r_recfg r = None" and "contains r (make_id r address)"
    and "cluster_size r \<noteq> 1" and "append (w_os w) [make_next_entry (join (CHR '','') (map fst (others (make_id r address) r))) True r] True (r_log r) = Some (rc, l)"
    and "rc \<noteq> RC_GOOD"
  shows "\<exists>r'. del_server w address h r = Some (RC_ERROR, r') \<and> r_cluster r' = others (make_id r address) r \<and> r_recfg r' = None"
proof -
  let ?s = "make_id r address"
  obtain x where x: "map_of (r_cluster r) ?s = Some x" using assms(4) by (cases "map_of (r_cluster r) ?s") (auto simp: contains_def map_of_eq_None_iff)
  then obtain n where n: "node_at r x = Some n" using assms(1) map_of_SomeD by (fastforce simp: cluster_ok_def)
  define r1 where "r1 = erase ?s r"
  note ok = erase_cluster_ok [OF assms(1,3), of ?s, folded r1_def]
  have r1: "r_log r1 = r_log r" "r_curr_term r1 = r_curr_term r" "r_recfg r1 = None"
    using assms(3) by (simp_all add: r1_def erase_def Let_def)
  have conf: "serialize_configuration r1 = Some (join (CHR '','') (map fst (others ?s r)))"
    using cluster_ok_serialize(1) [OF ok(2)] ok(1) by simp
  have "make_next_entry s True r1 = make_next_entry s True r" for s using r1 by (simp add: make_next_entry_def)
  then have "del_server w address h r = Some (refuse h ''ERROR'' (r1\<lparr>r_log := l\<rparr>))"
    using assms(2,3,5-7) x n conf r1(1) by (simp add: del_server_def Let_def r1_def [symmetric])
  then show ?thesis using ok(1) r1(3) by (simp add: refuse_def prepare_def)
qed

section \<open>Handing over the leadership\<close>

text \<open>C32: leadership is handed to a member that has the whole log by one \<open>timeout_now\<close> call; any other is first
  sent the rest of the log, from its next index (inside the leader's log, or right behind it) on, and a timer runs;
  when the leader then hears of a newer term it steps down and the waiting reply is written with the name of the
  member.\<close>

theorem leadership_handed_over:
  assumes "r_role r = LEADER" and "r_transfer_leader_to r = None" and "r_recfg r = None"
    and "make_id r address \<noteq> r_self_id r" and "make_id r address \<noteq> []" and "map_of (r_cluster r) (make_id r address) = Some x"
    and "node_at r x = Some n" and "live_rep os (r_log r) a" and "n_match_index n = al_last a \<or> next_inside a n"
  shows "\<exists>r1 r2 t. leadership_transfer address h r = Some (RC_GOOD, r1) \<and> r_cluster r1 = r_cluster r \<and> r_log r1 = r_log r \<and>
    \<not> h_ready (r_replies r1 h) \<and> t_node t = x \<and> t_host t = n_host n \<and> t_port t = n_port n \<and>
    (if n_match_index n = al_last a then \<exists>req. r_out r1 = r_out r @ [Timeout_Now t req] \<and> vq_term req = r_curr_term r
     else \<exists>req. r_out r1 = r_out r @ [Append_Entries t req, Set_Transfer_Timer x] \<and> aq_term req = r_curr_term r \<and>
       aq_prev_log_index req = n_next_index n - 1 \<and> has_prev a req \<and>
       aq_entries req = map to_LogEntry (drop (n_next_index n - 1 - al_index a) (al_entries a))) \<and>
    step_down new_term leader r1 = Some r2 \<and> r_role r2 = FOLLOWER \<and> r_curr_term r2 = new_term \<and> r_transfer_leader_to r2 = None \<and>
    h_ready (r_replies r2 h) \<and> h_body (r_replies r2 h) = ''OK '' @ n_id n \<and> Http_Write h \<in> set (r_out r2)"
proof -
  let ?r = "set_ready h False ((set_node x (\<lambda>n. n\<lparr>n_transfer_leader_to := True\<rparr>) r)\<lparr>r_transfer_leader_to := Some x, r_transfer_reply_to := Some h\<rparr>)"
  have base: "r_recfg ?r = None" "r_transfer_leader_to ?r = Some x" "r_transfer_reply_to ?r = Some h" "\<not> h_ready (r_replies ?r h)"
    "node_at ?r x = Some (n\<lparr>n_transfer_leader_to := True\<rparr>)" "r_cluster ?r = r_cluster r" "r_log ?r = r_log r" "r_out ?r = r_out r"
    "r_curr_term ?r = r_curr_term r"
    using assms(3,7) by (simp_all add: set_node_def set_ready_def)
  have last: "last_entry_index (r_log r) = al_last a" using assms(8) rep_last_entry_index by (simp add: live_rep_def)
  obtain r1 t where r1: "leadership_transfer address h r = Some (RC_GOOD, r1)" "t_node t = x \<and> t_host t = n_host n \<and> t_port t = n_port n"
    "if n_match_index n = al_last a then \<exists>req. r_out r1 = r_out r @ [Timeout_Now t req] \<and> vq_term req = r_curr_term r
     else \<exists>req. r_out r1 = r_out r @ [Append_Entries t req, Set_Transfer_Timer x] \<and> aq_term req = r_curr_term r \<and>
       aq_prev_log_index req = n_next_index n - 1 \<and> has_prev a req \<and>
       aq_entries req = map to_LogEntry (drop (n_next_index n - 1 - al_index a) (al_entries a))"
    "r_recfg r1 = None" "r_transfer_leader_to r1 = Some x" "r_transfer_reply_to r1 = Some h" "\<not> h_ready (r_replies r1 h)"
    "node_at r1 x = Some (n\<lparr>n_transfer_leader_to := True\<rparr>)" "r_cluster r1 = r_cluster r" "r_log r1 = r_log r"
  proof (cases "n_match_index n = al_last a")
    case True
    let ?i = "r_timeout_now_id ?r + 1"
    let ?t = "\<lparr>t_id = ?i, t_node = x, t_host = n_host n, t_port = n_port n\<rparr>"
    let ?r1 = "emit (Timeout_Now ?t (fill_vote (?r\<lparr>r_timeout_now_id := ?i\<rparr>) False)) (?r\<lparr>r_timeout_now_id := ?i\<rparr>)"
    show ?thesis
      by (rule that [of ?r1 ?t])
        (use assms True last in \<open>simp_all add: leadership_transfer_def timeout_now_def make_task_def base emit_def fill_vote_def Let_def\<close>)
  next
    case False
    let ?m = "n\<lparr>n_transfer_leader_to := True\<rparr>"
    have "live_rep os (r_log ?r) a" using assms(8) base(7) by simp
    from append_entries_to_adds [OF base(5) this] obtain t req where q: "append_entries_to x ?r =
        Some (?r\<lparr>r_append_entries_id := r_append_entries_id ?r + 1, r_out := r_out ?r @ [Append_Entries t req]\<rparr>)"
      "next_inside a ?m \<longrightarrow> carries_rest ?r a x ?m t req" by blast
    have "carries_rest ?r a x ?m t req" using q(2) False assms(9) by (simp add: next_inside_def)
    then have c: "t_node t = x \<and> t_host t = n_host n \<and> t_port t = n_port n" "aq_term req = r_curr_term r"
      "aq_prev_log_index req = n_next_index n - 1" "has_prev a req"
      "aq_entries req = map to_LogEntry (drop (n_next_index n - 1 - al_index a) (al_entries a))"
      using base(9) by (simp_all add: carries_rest_def)
    let ?r1 = "emit (Set_Transfer_Timer x) (?r\<lparr>r_append_entries_id := r_append_entries_id ?r + 1, r_out := r_out ?r @ [Append_Entries t req]\<rparr>)"
    have run: "leadership_transfer address h r = Some (RC_GOOD, ?r1)"
      using assms(1,2,4-7) False last q(1) by (simp add: leadership_transfer_def)
    show ?thesis
      by (rule that [of ?r1 t, OF run c(1)])
        (use False c(2-5) base assms(3,7) in \<open>simp_all add: emit_def\<close>)
  qed
  note s = r1(4-10)
  from s obtain r2 where "step_down new_term leader r1 = Some r2" "r_role r2 = FOLLOWER" "r_curr_term r2 = new_term" "r_transfer_leader_to r2 = None"
    "h_ready (r_replies r2 h)" "h_body (r_replies r2 h) = ''OK '' @ n_id n" "Http_Write h \<in> set (r_out r2)"
    by (simp add: step_down_def finish_transfer_def reply_transfer_def do_write_def prepare_def set_node_def emit_def
        remove_heartbeat_timer_def reset_election_timer_def Let_def)
  from r1(1,6,7,9,10) this show ?thesis
    by (intro exI [of _ r1] exI [of _ r2] exI [of _ t]) (use r1(2,3) s(4) in simp)
qed

section \<open>The demo cluster changes its members\<close>

text \<open>A leader with two entries in its log, alone and with a new server that has had nine rounds.\<close>

definition demo_two :: raft where
  "demo_two = (demo_raft ''a:1'' demo_log2)\<lparr>r_role := LEADER, r_curr_term := 1\<rparr>"

definition demo_change :: reconfiguration where
  "demo_change = \<lparr>rc_type = server_addition, rc_address = ''d:1'', rc_rep = 0, rc_rounds = 9, rc_entry_added = False, rc_node = 3, rc_last_round = 900\<rparr>"

definition demo_adding :: raft where
  "demo_adding = demo_two\<lparr>r_recfg := Some demo_change, r_nodes := (r_nodes demo_two)(3 \<mapsto> demo_node ''d'')\<rparr>"

lemma demo_two [simp]:
  "r_role demo_two = LEADER" "r_recfg demo_two = None" "r_log demo_two = demo_log2" "r_curr_term demo_two = 1" "r_self_id demo_two = ''a:1''"
  "r_cluster demo_two = [(''a:1'', 0), (''b:1'', 1), (''c:1'', 2)]" "r_transfer_leader_to demo_two = None"
  "r_log_compaction_enabled demo_two = False" "r_out demo_two = []" "r_fresh demo_two = 3"
  "node_at demo_two 1 = Some (demo_node ''b'')"
  by (simp_all add: demo_two_def demo_raft_def)

lemma demo_adding [simp]:
  "r_role demo_adding = LEADER" "r_recfg demo_adding = Some demo_change" "r_log demo_adding = demo_log2" "r_curr_term demo_adding = 1"
  "r_self_id demo_adding = ''a:1''" "r_cluster demo_adding = r_cluster demo_two" "node_at demo_adding 3 = Some (demo_node ''d'')"
  "r_server_catch_up_rounds demo_adding = 10" "r_min_election_timeout demo_adding = 150"
  by (simp_all add: demo_adding_def, simp_all add: demo_two_def demo_raft_def)

lemma demo_clusters_ok: "cluster_ok demo_two" "cluster_ok demo_adding"
  by (auto simp: cluster_ok_def) (simp_all add: demo_two_def demo_adding_def demo_raft_def demo_node_def)

lemma demo_two_live: "live_rep (w_os demo_world) (r_log demo_two) demo_alog" "live_rep (w_os demo_world) (r_log demo_adding) demo_alog"
  using demo_live2 by (simp_all add: demo_world_def)

lemma demo_ids_made: "make_id demo_two ''b:1'' = ''b:1''" "make_id demo_two ''1.2.3.4:5'' = ''1.2.3.4:5''"
  by (simp_all add: make_id_def split_pieces)

theorem addition_starts_witness:
  "\<exists>r' t req. add_server demo_world ''1.2.3.4:5'' 0 demo_two = Some (RC_GOOD, r') \<and> r_out r' = [Append_Entries t req] \<and> aq_prev_log_index req = 2"
proof -
  have "is_ipv4 ''1.2.3.4:5''" by code_simp
  with addition_starts [OF demo_two_live(1) demo_two(1,2), of "''1.2.3.4:5''" 0] show ?thesis
    unfolding demo_ids_made by (auto simp: contains_def)
qed


theorem deployed_when_caught_up_witness:
  "\<exists>r'. handle_catch_up demo_world demo_adding = Some r' \<and> r_cluster r' \<noteq> r_cluster demo_adding \<and>
    r_server_catch_up_rounds demo_adding \<le> rc_rounds demo_change + 1"
proof -
  have n: "node_at demo_adding (rc_node demo_change) = Some (demo_node ''d'')" by (simp add: demo_change_def)
  from caught_up_logs [OF demo_two_live(2) demo_clusters_ok(2) demo_adding(1,2) _ n] obtain r' where
    r': "handle_catch_up demo_world demo_adding = Some r'" "mset (r_cluster r') = {#(''d:1'', 3), (''a:1'', 0), (''b:1'', 1), (''c:1'', 2)#}"
    by (auto simp: demo_change_def demo_node_def contains_def members_def demo_world_def)
  have ne: "r_cluster r' \<noteq> r_cluster demo_adding" using arg_cong [OF r'(2), of size] by auto
  show ?thesis
    using deployed_when_caught_up [OF demo_adding(2) n r'(1)] r'(1) ne by (simp add: demo_node_def)
qed

theorem removal_logged_witness:
  "\<exists>r' e t req. del_server demo_world ''b:1'' 0 demo_two = Some (RC_GOOD, r') \<and> live_rep demo_os (r_log r') (al_append demo_alog [e]) \<and>
    split (str e) '','' = [''a:1'', ''c:1''] \<and> \<not> h_ready (r_replies r' 0) \<and> Append_Entries t req \<in> set (r_out r') \<and> t_host t = ''c'' \<and>
    aq_entries req = map to_LogEntry [demo_entry, demo_cfg_entry, e]"
proof -
  from removal_logged [OF demo_two_live(1) demo_clusters_ok(1) demo_two(1,2), of "''b:1''" 0] obtain r' e new where
    r': "del_server demo_world ''b:1'' 0 demo_two = Some (RC_GOOD, r')" "live_rep demo_os (r_log r') (al_append demo_alog [e])"
      "split (str e) '','' = [''a:1'', ''c:1'']" "\<not> h_ready (r_replies r' 0)" "r_out r' = new" "sent_to_peers demo_two demo_alog e [0, 2] new"
    unfolding demo_ids_made by (auto simp: contains_def others_def cluster_size_def demo_world_def)
  have "node_at demo_two 2 = Some (demo_node ''c'')" by (simp add: demo_two_def demo_raft_def)
  with r'(6) obtain t req where "Append_Entries t req \<in> set new" "t_host t = ''c''" "aq_entries req = map to_LogEntry [demo_entry, demo_cfg_entry] @ [to_LogEntry e]"
    unfolding sent_to_peers_def by (auto simp: demo_node_def next_inside_def)
  with r' show ?thesis by auto
qed

theorem leadership_handed_over_witness:
  "\<exists>r1 r2 t req. leadership_transfer ''b:1'' 0 demo_two = Some (RC_GOOD, r1) \<and> r_out r1 = [Append_Entries t req, Set_Transfer_Timer 1] \<and>
    aq_entries req = [to_LogEntry demo_entry, to_LogEntry demo_cfg_entry] \<and>
    step_down 2 [] r1 = Some r2 \<and> h_body (r_replies r2 0) = ''OK b:1''"
proof -
  have "map_of (r_cluster demo_two) (make_id demo_two ''b:1'') = Some 1" by (simp add: demo_ids_made)
  from leadership_handed_over [OF demo_two(1,7,2) _ _ this demo_two(11) demo_two_live(1), of 0 2 "[]"]
  obtain r1 r2 t where "leadership_transfer ''b:1'' 0 demo_two = Some (RC_GOOD, r1)" "step_down 2 [] r1 = Some r2"
    "h_body (r_replies r2 0) = ''OK '' @ n_id (demo_node ''b'')"
    "\<exists>req. r_out r1 = [Append_Entries t req, Set_Transfer_Timer 1] \<and> aq_entries req = [to_LogEntry demo_entry, to_LogEntry demo_cfg_entry]"
    by (auto simp: demo_ids_made demo_node_def next_inside_def)
  then show ?thesis by (auto simp: demo_node_def)
qed

end
