(* ===== verification/Command_Parser.thy ===== *)
theory Command_Parser
  imports Prelude "HOL-Library.Char_ord"
begin

text \<open>
  \<^verbatim>\<open>src/server/command_parser.hpp\<close>: the state machine that reads \<^verbatim>\<open>get\<close>, \<^verbatim>\<open>set\<close> and
  \<^verbatim>\<open>del\<close> commands one character at a time.  The lemmas show that feeding the input in pieces is
  feeding it at once, what a completed command looks like, and that a command's text is read
  back as the command.
\<close>

section \<open>Commands\<close>

datatype command_type = Get | Set | Del | Unknown

datatype result_type = Good | Bad | Need_more

record command =
  cmd_key :: string
  cmd_value :: string
  cmd_type :: command_type

definition command_reset :: "command \<Rightarrow> command" where
  "command_reset cmd = \<lparr>cmd_key = [], cmd_value = [], cmd_type = Unknown\<rparr>"

datatype parser_state =
    start
  | type_g
  | type_ge
  | type_s
  | type_se
  | type_set
  | type_d
  | type_de
  | type_done
  | read_key
  | read_set_key
  | read_set_blank
  | read_set_value
  | carriage

definition parser_reset :: parser_state where
  "parser_reset = start"

definition is_blank :: "char \<Rightarrow> bool" where
  "is_blank c \<longleftrightarrow> c = CHR '' '' \<or> c = CHR 0x09"

abbreviation CR :: char where "CR \<equiv> CHR 0x0D"
abbreviation LF :: char where "LF \<equiv> CHR 0x0A"

section \<open>The state machine\<close>

abbreviation push_key :: "char \<Rightarrow> command \<Rightarrow> command" where
  "push_key c cmd \<equiv> cmd\<lparr>cmd_key := cmd_key cmd @ [c]\<rparr>"

abbreviation push_value :: "char \<Rightarrow> command \<Rightarrow> command" where
  "push_value c cmd \<equiv> cmd\<lparr>cmd_value := cmd_value cmd @ [c]\<rparr>"

fun do_parse :: "parser_state \<Rightarrow> command \<Rightarrow> char \<Rightarrow> result_type \<times> parser_state \<times> command" where
  "do_parse start cmd c =
     (if is_blank c then (Need_more, start, cmd)
      else if c = CHR ''g'' then (Need_more, type_g, cmd)
      else if c = CHR ''s'' then (Need_more, type_s, cmd)
      else if c = CHR ''d'' then (Need_more, type_d, cmd)
      else (Bad, start, cmd))"
| "do_parse type_g cmd c = (if c = CHR ''e'' then (Need_more, type_ge, cmd) else (Bad, type_g, cmd))"
| "do_parse type_ge cmd c =
     (if c = CHR ''t'' then (Need_more, type_done, cmd\<lparr>cmd_type := Get\<rparr>) else (Bad, type_ge, cmd))"
| "do_parse type_s cmd c = (if c = CHR ''e'' then (Need_more, type_se, cmd) else (Bad, type_s, cmd))"
| "do_parse type_se cmd c =
     (if c = CHR ''t'' then (Need_more, type_set, cmd\<lparr>cmd_type := Set\<rparr>) else (Bad, type_se, cmd))"
| "do_parse type_set cmd c =
     (if is_blank c then (Need_more, type_set, cmd) else (Need_more, read_set_key, push_key c cmd))"
| "do_parse type_d cmd c = (if c = CHR ''e'' then (Need_more, type_de, cmd) else (Bad, type_d, cmd))"
| "do_parse type_de cmd c =
     (if c = CHR ''l'' then (Need_more, type_done, cmd\<lparr>cmd_type := Del\<rparr>) else (Bad, type_de, cmd))"
| "do_parse type_done cmd c =
     (if c = CR \<or> c = LF then (Bad, type_done, cmd)
      else if is_blank c then (Need_more, type_done, cmd)
      else (Need_more, read_key, push_key c cmd))"
| "do_parse read_set_key cmd c =
     (if c = CR \<or> c = LF then (Bad, read_set_key, cmd)
      else if is_blank c then (Need_more, read_set_blank, cmd)
      else (Need_more, read_set_key, push_key c cmd))"
| "do_parse read_set_blank cmd c =
     (if c = CR \<or> c = LF then (Bad, read_set_blank, cmd)
      else if is_blank c then (Need_more, read_set_blank, cmd)
      else (Need_more, read_set_value, push_value c cmd))"
| "do_parse read_set_value cmd c =
     (if c = CR then (Need_more, carriage, cmd) else (Need_more, read_set_value, push_value c cmd))"
| "do_parse read_key cmd c =
     (if c = CR then (Need_more, carriage, cmd) else (Need_more, read_key, push_key c cmd))"
| "do_parse carriage cmd c = (if c = LF then (Good, carriage, cmd) else (Bad, carriage, cmd))"

text \<open>\<open>parse\<close>: the result, the characters not consumed, and the parser.\<close>

fun parse :: "parser_state \<Rightarrow> command \<Rightarrow> string \<Rightarrow> result_type \<times> string \<times> parser_state \<times> command" where
  "parse s cmd [] = (Need_more, [], s, cmd)"
| "parse s cmd (c # cs) =
     (case do_parse s cmd c of (result, s', cmd') \<Rightarrow>
        if result \<noteq> Need_more then (result, cs, s', cmd') else parse s' cmd' cs)"

section \<open>Feeding in pieces\<close>

lemma parse_append:
  "parse s cmd (xs @ ys) =
     (case parse s cmd xs of (result, rest, s', cmd') \<Rightarrow>
        if result = Need_more then parse s' cmd' ys else (result, rest @ ys, s', cmd'))"
  by (induction s cmd xs rule: parse.induct) (auto split: prod.splits)

lemma parse_need_more_rest: "parse s cmd xs = (Need_more, rest, s', cmd') \<Longrightarrow> rest = []"
  by (induction s cmd xs rule: parse.induct) (auto split: prod.splits if_splits)

lemma parse_result_rest: "parse s cmd xs = (res, rest, s', cmd') \<Longrightarrow> \<exists>used. xs = used @ rest"
  by (induction s cmd xs rule: parse.induct) (auto split: prod.splits if_splits)

section \<open>What a command looks like\<close>

text \<open>
  What each state knows about the command read so far: keys are never empty once the parser reads
  past them, a \<^verbatim>\<open>set\<close> has a value, and neither field holds a carriage return (but for the first
  character of a \<^verbatim>\<open>set\<close> key).
\<close>

definition key_char :: "char \<Rightarrow> bool" where
  "key_char c \<longleftrightarrow> \<not> is_blank c \<and> c \<noteq> CR \<and> c \<noteq> LF"

fun parser_ok :: "parser_state \<Rightarrow> command \<Rightarrow> bool" where
  "parser_ok type_set cmd = (cmd_type cmd = Set \<and> cmd_key cmd = [] \<and> cmd_value cmd = [])"
| "parser_ok type_done cmd = (cmd_type cmd \<in> {Get, Del} \<and> cmd_key cmd = [] \<and> cmd_value cmd = [])"
| "parser_ok read_key cmd = (cmd_type cmd \<in> {Get, Del} \<and> cmd_key cmd \<noteq> [] \<and> CR \<notin> set (cmd_key cmd) \<and> cmd_value cmd = [])"
| "parser_ok read_set_key cmd = (cmd_type cmd = Set \<and> cmd_key cmd \<noteq> [] \<and> list_all key_char (tl (cmd_key cmd)) \<and>
     \<not> is_blank (hd (cmd_key cmd)) \<and> cmd_value cmd = [])"
| "parser_ok read_set_blank cmd = (cmd_type cmd = Set \<and> cmd_key cmd \<noteq> [] \<and> list_all key_char (tl (cmd_key cmd)) \<and>
     \<not> is_blank (hd (cmd_key cmd)) \<and> cmd_value cmd = [])"
| "parser_ok read_set_value cmd = (cmd_type cmd = Set \<and> cmd_key cmd \<noteq> [] \<and> list_all key_char (tl (cmd_key cmd)) \<and>
     \<not> is_blank (hd (cmd_key cmd)) \<and> cmd_value cmd \<noteq> [] \<and> key_char (hd (cmd_value cmd)) \<and> CR \<notin> set (cmd_value cmd))"
| "parser_ok carriage cmd =
     (cmd_key cmd \<noteq> [] \<and>
      (cmd_type cmd \<in> {Get, Del} \<and> CR \<notin> set (cmd_key cmd) \<and> cmd_value cmd = [] \<or>
       cmd_type cmd = Set \<and> list_all key_char (tl (cmd_key cmd)) \<and> \<not> is_blank (hd (cmd_key cmd)) \<and>
       cmd_value cmd \<noteq> [] \<and> key_char (hd (cmd_value cmd)) \<and> CR \<notin> set (cmd_value cmd)))"
| "parser_ok _ cmd = (cmd_key cmd = [] \<and> cmd_value cmd = [])"

lemma parser_ok_step: "parser_ok s cmd \<Longrightarrow> do_parse s cmd c = (r, s', cmd') \<Longrightarrow> parser_ok s' cmd'"
  by (cases s) (auto simp: key_char_def is_blank_def split: if_splits)

lemma parser_ok_parse: "parser_ok s cmd \<Longrightarrow> parse s cmd xs = (r, rest, s', cmd') \<Longrightarrow> parser_ok s' cmd'"
  by (induction s cmd xs rule: parse.induct) (auto split: prod.splits if_splits dest: parser_ok_step)

lemma do_parse_good: "do_parse s cmd c = (Good, s', cmd') \<Longrightarrow> s = carriage \<and> s' = carriage \<and> cmd' = cmd \<and> c = LF"
  by (cases s) (auto split: if_splits)

lemma parse_good_carriage: "parse s cmd xs = (Good, rest, s', cmd') \<Longrightarrow> s' = carriage"
  by (induction s cmd xs rule: parse.induct) (auto split: prod.splits if_splits dest: do_parse_good)

lemma parser_ok_reset [simp]: "parser_ok parser_reset (command_reset cmd)"
  by (simp add: parser_reset_def command_reset_def)

section \<open>Reading a command back\<close>

definition command_text :: "command \<Rightarrow> string" where
  "command_text cmd =
     (case cmd_type cmd of
        Get \<Rightarrow> ''get '' @ cmd_key cmd
      | Set \<Rightarrow> ''set '' @ cmd_key cmd @ '' '' @ cmd_value cmd
      | Del \<Rightarrow> ''del '' @ cmd_key cmd
      | Unknown \<Rightarrow> []) @ [CR, LF]"

definition plain_command :: "command \<Rightarrow> bool" where
  "plain_command cmd \<longleftrightarrow> cmd_type cmd \<noteq> Unknown \<and> cmd_key cmd \<noteq> [] \<and>
     (if cmd_type cmd = Set then list_all key_char (cmd_key cmd) \<and> cmd_value cmd \<noteq> [] \<and>
        key_char (hd (cmd_value cmd)) \<and> CR \<notin> set (cmd_value cmd)
      else key_char (hd (cmd_key cmd)) \<and> CR \<notin> set (cmd_key cmd) \<and> cmd_value cmd = [])"

lemma parse_read_key:
  "CR \<notin> set xs \<Longrightarrow> parse read_key cmd (xs @ [CR, LF]) = (Good, [], carriage, cmd\<lparr>cmd_key := cmd_key cmd @ xs\<rparr>)"
  by (induction xs arbitrary: cmd) auto

lemma parse_read_value:
  "CR \<notin> set xs \<Longrightarrow> parse read_set_value cmd (xs @ [CR, LF]) = (Good, [], carriage, cmd\<lparr>cmd_value := cmd_value cmd @ xs\<rparr>)"
  by (induction xs arbitrary: cmd) auto

lemma parse_read_set_key:
  "list_all key_char xs \<Longrightarrow> parse read_set_key cmd (xs @ '' '' @ ys) = parse read_set_blank (cmd\<lparr>cmd_key := cmd_key cmd @ xs\<rparr>) ys"
  by (induction xs arbitrary: cmd) (auto simp: key_char_def is_blank_def)

lemma parse_command_text:
  assumes "plain_command cmd"
  shows "parse parser_reset (command_reset c0) (command_text cmd) = (Good, [], carriage, cmd)"
proof (cases "cmd_type cmd")
  case Set
  then obtain k ks v vs where kv: "cmd_key cmd = k # ks" "cmd_value cmd = v # vs"
    using assms by (cases "cmd_key cmd"; cases "cmd_value cmd") (auto simp: plain_command_def)
  with assms Set have ok: "key_char k" "list_all key_char ks" "key_char v" "CR \<notin> set vs" "v \<noteq> CR"
    by (auto simp: plain_command_def)
  have "parse parser_reset (command_reset c0) (command_text cmd) =
      parse read_set_key \<lparr>cmd_key = [k], cmd_value = [], cmd_type = Set\<rparr> (ks @ '' '' @ (v # vs) @ [CR, LF])"
    using Set ok(1) by (simp add: command_text_def kv parser_reset_def command_reset_def is_blank_def key_char_def)
  also have "\<dots> = parse read_set_blank \<lparr>cmd_key = k # ks, cmd_value = [], cmd_type = Set\<rparr> ((v # vs) @ [CR, LF])"
    by (subst parse_read_set_key [OF ok(2)]) simp
  also have "\<dots> = parse read_set_value \<lparr>cmd_key = k # ks, cmd_value = [v], cmd_type = Set\<rparr> (vs @ [CR, LF])"
    using ok(3) by (simp add: key_char_def)
  also have "\<dots> = (Good, [], carriage, cmd)"
    using Set kv by (subst parse_read_value [OF ok(4)]) (cases cmd, simp)
  finally show ?thesis .
next
  case Unknown
  then show ?thesis using assms by (simp add: plain_command_def)
next
  case Get
  then obtain k ks where k: "cmd_key cmd = k # ks" using assms by (cases "cmd_key cmd") (auto simp: plain_command_def)
  with assms Get have ok: "key_char k" "CR \<notin> set ks" "cmd_value cmd = []" by (auto simp: plain_command_def)
  have "parse parser_reset (command_reset c0) (command_text cmd) =
      parse read_key \<lparr>cmd_key = [k], cmd_value = [], cmd_type = Get\<rparr> (ks @ [CR, LF])"
    using Get ok(1) by (simp add: command_text_def k parser_reset_def command_reset_def is_blank_def key_char_def)
  then show ?thesis using Get ok(2,3) k by (cases cmd) (simp add: parse_read_key)
next
  case Del
  then obtain k ks where k: "cmd_key cmd = k # ks" using assms by (cases "cmd_key cmd") (auto simp: plain_command_def)
  with assms Del have ok: "key_char k" "CR \<notin> set ks" "cmd_value cmd = []" by (auto simp: plain_command_def)
  have "parse parser_reset (command_reset c0) (command_text cmd) =
      parse read_key \<lparr>cmd_key = [k], cmd_value = [], cmd_type = Del\<rparr> (ks @ [CR, LF])"
    using Del ok(1) by (simp add: command_text_def k parser_reset_def command_reset_def is_blank_def key_char_def)
  then show ?thesis using Del ok(2,3) k by (cases cmd) (simp add: parse_read_key)
qed

end
