(* ===== verification/Config_Parser.thy ===== *)
theory Config_Parser
  imports Mapped_File
begin

text \<open>
  \<^verbatim>\<open>src/raft/config_parser.hpp\<close>.  Reading the file is \<^verbatim>\<open>boost::program_options\<close>, a parameter:
  it maps the text of a file to the list of unrecognized options, keys and values in turn, and
  \<^const>\<open>None\<close> when it throws.  An odd number of elements makes the loop read past the end.
\<close>

type_synonym program_options = "string \<Rightarrow> string list option"

record config_parser =
  cp_inited :: bool
  cp_config :: "(string \<times> string) list"
  cp_filename :: string

definition new_config_parser :: "string \<Rightarrow> config_parser" where
  "new_config_parser file = \<lparr>cp_inited = False, cp_config = [], cp_filename = file\<rparr>"

text \<open>\<^verbatim>\<open>config_.emplace(ops[i], ops[i + 1])\<close> for every even \<open>i\<close>; the first of equal keys stays.\<close>

fun emplace_all :: "string list \<Rightarrow> (string \<times> string) list \<Rightarrow> (string \<times> string) list option" where
  "emplace_all [] cfg = Some cfg"
| "emplace_all [k] cfg = None"
| "emplace_all (k # v # ops) cfg = emplace_all ops (if k \<in> fst ` set cfg then cfg else cfg @ [(k, v)])"

definition config_parse :: "program_options \<Rightarrow> (string \<Rightarrow> string option) \<Rightarrow> config_parser \<Rightarrow> (rc_errno \<times> config_parser) option" where
  "config_parse po read p =
     (if cp_inited p then Some (RC_GOOD, p)
      else case read (cp_filename p) of
        None \<Rightarrow> Some (RC_ERROR, p)
      | Some txt \<Rightarrow>
          do {
            ops \<leftarrow> po txt;
            cfg \<leftarrow> emplace_all ops (cp_config p);
            Some (RC_GOOD, p\<lparr>cp_config := cfg, cp_inited := True\<rparr>)
          })"

definition config_find :: "string \<Rightarrow> config_parser \<Rightarrow> string option" where
  "config_find key p = map_of (cp_config p) key"

definition flatten :: "(string \<times> string) list \<Rightarrow> string list" where
  "flatten kvs = concat (map (\<lambda>(k, v). [k, v]) kvs)"

lemma emplace_all_flatten:
  "distinct (map fst kvs) \<Longrightarrow> fst ` set kvs \<inter> fst ` set cfg = {} \<Longrightarrow> emplace_all (flatten kvs) cfg = Some (cfg @ kvs)"
proof (induction kvs arbitrary: cfg)
  case (Cons x kvs)
  obtain k v where x: "x = (k, v)" by (cases x)
  have "emplace_all (flatten kvs) (cfg @ [(k, v)]) = Some ((cfg @ [(k, v)]) @ kvs)"
    by (rule Cons.IH) (use Cons.prems x in auto)
  moreover have "k \<notin> fst ` set cfg" using Cons.prems x by auto
  ultimately show ?case by (simp add: x flatten_def)
qed (simp add: flatten_def)

lemma emplace_all_first: "emplace_all ops cfg = Some cfg' \<Longrightarrow> map_of cfg k = Some v \<Longrightarrow> map_of cfg' k = Some v"
proof (induction ops cfg rule: emplace_all.induct)
  case (3 k' v' ops cfg)
  show ?case
  proof (rule "3.IH")
    show "emplace_all ops (if k' \<in> fst ` set cfg then cfg else cfg @ [(k', v')]) = Some cfg'" using 3 by simp
    show "map_of (if k' \<in> fst ` set cfg then cfg else cfg @ [(k', v')]) k = Some v" using 3 by (simp add: map_add_def)
  qed
qed auto

lemma emplace_all_distinct:
  "emplace_all ops cfg = Some cfg' \<Longrightarrow> distinct (map fst cfg) \<Longrightarrow> distinct (map fst cfg')"
  by (induction ops cfg rule: emplace_all.induct) (auto split: if_splits)

end
