(* ===== verification/Storage_Server.thy ===== *)
theory Storage_Server
  imports Command_Parser Config_Parser Raft_Replication "HOL-Library.AList"
begin

text \<open>
  \<^verbatim>\<open>src/server/storage_server.hpp\<close>: the key-value store on top of the log.  Sessions are objects that
  the set of sessions, the waiting commands and the callbacks share by pointer: they live in a store
  \<open>st_objects\<close> under a number, and \<open>st_sessions\<close> is the set of the open ones.  A session that was
  removed while its command waits is still there when the entry is committed.  The database is an association list in the iteration order of the map; what is written
  to clients is collected in \<open>st_sent\<close>.  The threads meet at the raft object and the database,
  and each definition below is one callback.  The snapshot files are the same parameters as in the
  data transfer.
\<close>

section \<open>State\<close>

record session =
  ss_cmd :: command
  ss_parser :: parser_state
  ss_input :: string            \<comment> \<open>\<^verbatim>\<open>begin\<close> to \<^verbatim>\<open>end\<close>\<close>

record storage =
  st_raft :: raft
  st_db :: "(string \<times> string) list"
  st_commands :: "(nat \<times> nat) list"        \<comment> \<open>log index, session\<close>
  st_objects :: "nat \<Rightarrow> session option"
  st_sessions :: "nat set"
  st_sent :: "(nat \<times> string \<times> string) list" \<comment> \<open>session, status, data\<close>
  st_path :: string
  st_snapshot_rate :: nat
  st_prev_snapshot_size :: nat

definition session_write :: "nat \<Rightarrow> string \<Rightarrow> string \<Rightarrow> storage \<Rightarrow> storage" where
  "session_write s status data st = st\<lparr>st_sent := st_sent st @ [(s, status, data)]\<rparr>"

definition reply_text :: "string \<Rightarrow> string \<Rightarrow> string" where
  "reply_text status data = status @ '' '' @ data @ [CR, LF]"

definition storage_remove :: "nat \<Rightarrow> storage \<Rightarrow> storage" where
  "storage_remove s st = st\<lparr>st_sessions := st_sessions st - {s}\<rparr>"

definition storage_set_path :: "string \<Rightarrow> storage \<Rightarrow> storage" where
  "storage_set_path p st = st\<lparr>st_path := p\<rparr>"

section \<open>The text of a command in the log\<close>

definition log_text :: "command \<Rightarrow> string" where
  "log_text cmd =
     (if cmd_type cmd = Set then ''set '' @ cmd_key cmd @ '' '' @ cmd_value cmd else ''del '' @ cmd_key cmd)"

text \<open>\<^verbatim>\<open>input >> word\<close>: skip white space, then take what is not.\<close>

definition extract_word :: "string \<Rightarrow> string \<times> string" where
  "extract_word s =
     (let s1 = dropWhile is_space s
      in (takeWhile (\<lambda>c. \<not> is_space c) s1, dropWhile (\<lambda>c. \<not> is_space c) s1))"

section \<open>The database\<close>

definition apply_text :: "string \<Rightarrow> (string \<times> string) list \<Rightarrow> (string \<times> string) list" where
  "apply_text txt db =
     (case extract_word txt of (type, input) \<Rightarrow>
        if type = ''set'' then
          (case extract_word input of (key, input1) \<Rightarrow>
             let value = takeWhile (\<lambda>c. c \<noteq> LF) (tl input1)
             in AList.update key value db)
        else if type = ''del'' then (case extract_word input of (key, _) \<Rightarrow> AList.delete key db)
        else db)"

definition apply_entry :: "log_entry \<Rightarrow> storage \<Rightarrow> storage" where
  "apply_entry entry st = st\<lparr>st_db := apply_text (str entry) (st_db st)\<rparr>"

text \<open>\<open>insert\<close>: the command of the session that waits for the entry.\<close>

definition run_command :: "command \<Rightarrow> (string \<times> string) list \<Rightarrow> (string \<times> string) list" where
  "run_command cmd db =
     (case cmd_type cmd of
        Set \<Rightarrow> AList.update (cmd_key cmd) (cmd_value cmd) db
      | Del \<Rightarrow> AList.delete (cmd_key cmd) db
      | _ \<Rightarrow> db)"

definition insert_command :: "nat \<Rightarrow> storage \<Rightarrow> storage option" where
  "insert_command s st =
     do {
       ses \<leftarrow> st_objects st s;
       let cmd = ss_cmd ses
       in if cmd_type cmd \<noteq> Get \<and> cmd_type cmd \<noteq> Unknown then
            let old = (case map_of (st_db st) (cmd_key cmd) of None \<Rightarrow> [] | Some v \<Rightarrow> v)
            in Some (session_write s ''OK'' (if cmd_type cmd = Set then old else [])
                       (st\<lparr>st_db := run_command cmd (st_db st)\<rparr>))
          else Some st
     }"

section \<open>Commands from clients\<close>

definition handle_command :: "os \<Rightarrow> nat \<Rightarrow> command \<Rightarrow> storage \<Rightarrow> storage option" where
  "handle_command os s cmd st =
     (case cmd_type cmd of
        Get \<Rightarrow> Some (session_write s ''OK'' (case map_of (st_db st) (cmd_key cmd) of Some v \<Rightarrow> v | None \<Rightarrow> ''null'') st)
      | Unknown \<Rightarrow> Some st
      | _ \<Rightarrow>
          if r_role (st_raft st) \<noteq> LEADER then Some (session_write s ''NOT_LEADER'' (r_leader (st_raft st)) st)
          else do {
            (index, r) \<leftarrow> raft_append os (log_text cmd) (st_raft st);
            let st1 = st\<lparr>st_raft := r\<rparr>
            in Some (if index = 0 then session_write s ''INTERNAL_ERROR'' [] st1
                     else if index \<in> fst ` set (st_commands st1) then st1
                     else st1\<lparr>st_commands := st_commands st1 @ [(index, s)]\<rparr>)
          })"

definition parse_command :: "os \<Rightarrow> nat \<Rightarrow> storage \<Rightarrow> storage option" where
  "parse_command os s st =
     do {
       ses \<leftarrow> st_objects st s;
       case parse (ss_parser ses) (ss_cmd ses) (ss_input ses) of (result, rest, p, cmd) \<Rightarrow>
         let st1 = st\<lparr>st_objects := (st_objects st)(s \<mapsto> \<lparr>ss_cmd = cmd, ss_parser = p, ss_input = rest\<rparr>)\<rparr>
         in if result = Good then handle_command os s cmd st1
            else if result = Bad then Some (session_write s ''INVALID_COMMAND'' [] st1)
            else Some st1
     }"

text \<open>A read replaces the buffer: what an earlier read left in it is gone.\<close>

definition on_read :: "os \<Rightarrow> nat \<Rightarrow> string option \<Rightarrow> storage \<Rightarrow> storage option" where
  "on_read os s bytes st =
     (case bytes of
        None \<Rightarrow> Some (storage_remove s st)
      | Some b \<Rightarrow>
          do {
            ses \<leftarrow> st_objects st s;
            parse_command os s (st\<lparr>st_objects := (st_objects st)(s \<mapsto> ses\<lparr>ss_input := b\<rparr>)\<rparr>)
          })"

definition on_write :: "nat \<Rightarrow> bool \<Rightarrow> storage \<Rightarrow> storage option" where
  "on_write s ec st =
     (if \<not> ec then
        do {
          ses \<leftarrow> st_objects st s;
          Some (st\<lparr>st_objects := (st_objects st)
            (s \<mapsto> ses\<lparr>ss_cmd := command_reset (ss_cmd ses), ss_parser := parser_reset\<rparr>)\<rparr>)
        }
      else Some (storage_remove s st))"

definition on_accept :: "nat \<Rightarrow> command \<Rightarrow> parser_state \<Rightarrow> storage \<Rightarrow> storage" where
  "on_accept s cmd p st = st\<lparr>st_objects := (st_objects st)(s \<mapsto> \<lparr>ss_cmd = cmd, ss_parser = p, ss_input = []\<rparr>),
      st_sessions := insert s (st_sessions st)\<rparr>"

section \<open>Committed entries\<close>

definition on_log_entry_committed :: "os \<Rightarrow> log_entry \<Rightarrow> storage \<Rightarrow> storage option" where
  "on_log_entry_committed os entry st =
     (let index = e_index entry in
      do {
        st1 \<leftarrow> (case map_of (st_commands st) index of
                 None \<Rightarrow> Some (apply_entry entry st)
               | Some s \<Rightarrow>
                   map_option (\<lambda>st'. st'\<lparr>st_commands := AList.delete index (st_commands st')\<rparr>) (insert_command s st));
        if r_log_compaction_enabled (st_raft st1) \<and> index = r_commit_index (st_raft st1) then
          do {
            (_, r) \<leftarrow> raft_drop os index True (st_raft st1);
            Some (st1\<lparr>st_raft := r\<rparr>)
          }
        else Some st1
      })"

section \<open>Snapshots\<close>

definition snapshot_text :: "(string \<times> string) list \<Rightarrow> string" where
  "snapshot_text db = concat (map (\<lambda>(k, v). c_string k @ '' = '' @ c_string v @ [LF]) db)"

text \<open>What \<open>take_snapshot\<close> leaves in the snapshot file.\<close>

definition take_snapshot :: "storage \<Rightarrow> (string \<Rightarrow> string option) \<Rightarrow> string \<Rightarrow> string option" where
  "take_snapshot st files = files(st_path st \<mapsto> snapshot_text (st_db st))"

definition load_database :: "program_options \<Rightarrow> (string \<Rightarrow> string option) \<Rightarrow> storage \<Rightarrow> (int \<times> storage) option" where
  "load_database po files st =
     (if (case files (st_path st) of None \<Rightarrow> True | Some c \<Rightarrow> c = []) then Some (0, st)
      else do {
        (rc, p) \<leftarrow> config_parse po files (new_config_parser (st_path st));
        Some (if rc \<noteq> RC_GOOD then (-1, st)
              else (0, st\<lparr>st_db := fold (\<lambda>(k, v). AList.update k v) (cp_config p) (st_db st)\<rparr>))
      })"

definition drop_database :: "(string \<Rightarrow> string option) \<Rightarrow> storage \<Rightarrow> (string \<Rightarrow> string option) \<times> storage" where
  "drop_database files st = (files(st_path st := None), st\<lparr>st_db := []\<rparr>)"

definition on_data_transfer_cb ::
    "program_options \<Rightarrow> world \<Rightarrow> string \<Rightarrow> bool \<Rightarrow> (string \<Rightarrow> string option) \<Rightarrow> storage \<Rightarrow> ((string \<Rightarrow> string option) \<times> storage) option" where
  "on_data_transfer_cb po w path pre_transfer files st =
     (if pre_transfer then
        if path = [] then None
        else if last path = CHR ''/'' then Some (files, storage_set_path (butlast path) st)
        else Some (drop_database files (storage_set_path path st))
      else
        let st1 = storage_set_path path st in
        case w_kind w path of
          Some (Regular _) \<Rightarrow> map_option (\<lambda>(_, st'). (files, st')) (load_database po files st1)
        | _ \<Rightarrow> Some (files, st1))"

definition update_snapshot_size :: "(string \<Rightarrow> string option) \<Rightarrow> bool \<Rightarrow> bool \<Rightarrow> storage \<Rightarrow> int \<times> storage" where
  "update_snapshot_size files open_ok fstat_ok st =
     (if \<not> open_ok then (rc_code RC_ERROR, st)
      else if \<not> fstat_ok then (rc_code RC_ERROR, st)
      else (0, st\<lparr>st_prev_snapshot_size := (case files (st_path st) of None \<Rightarrow> 0 | Some c \<Rightarrow> length c)\<rparr>))"

section \<open>The two ways to apply an entry\<close>

lemma extract_word_lead:
  "w \<noteq> [] \<Longrightarrow> \<forall>c \<in> set w. \<not> is_space c \<Longrightarrow> is_space b \<Longrightarrow> extract_word (w @ b # rest) = (w, b # rest)"
proof -
  assume w: "w \<noteq> []" "\<forall>c \<in> set w. \<not> is_space c" and b: "is_space b"
  then have "dropWhile is_space (w @ b # rest) = w @ b # rest" by (cases w) auto
  then show ?thesis using w b by (simp add: extract_word_def takeWhile_append2 dropWhile_append2)
qed

lemma extract_word_all: "\<forall>c \<in> set w. \<not> is_space c \<Longrightarrow> extract_word (b # w) = (w, [])" if "is_space b"
proof -
  assume w: "\<forall>c \<in> set w. \<not> is_space c"
  have "dropWhile is_space w = w" using w by (cases w) auto
  then show ?thesis using w that by (simp add: extract_word_def takeWhile_eq_all_conv dropWhile_eq_Nil_conv)
qed

lemma extract_word_space: "is_space b \<Longrightarrow> extract_word (b # s) = extract_word s"
  by (simp add: extract_word_def)

text \<open>
  Re-reading the log text gives the command back when the key holds no white space and the value
  no line feed.
\<close>

definition log_safe :: "command \<Rightarrow> bool" where
  "log_safe cmd \<longleftrightarrow> cmd_type cmd \<in> {Set, Del} \<and> (\<forall>c \<in> set (cmd_key cmd). \<not> is_space c) \<and>
     (cmd_type cmd = Set \<longrightarrow> cmd_key cmd \<noteq> [] \<and> LF \<notin> set (cmd_value cmd))"

lemma apply_log_text:
  assumes "log_safe cmd"
  shows "apply_text (log_text cmd) db = run_command cmd db"
proof -
  have sp: "is_space (CHR '' '')" by (simp add: is_space_def)
  have word: "\<forall>c \<in> set ''set''. \<not> is_space c" "\<forall>c \<in> set ''del''. \<not> is_space c" by (simp_all add: is_space_def)
  show ?thesis
  proof (cases "cmd_type cmd = Set")
    case True
    have 1: "extract_word (''set'' @ CHR '' '' # cmd_key cmd @ CHR '' '' # cmd_value cmd) =
        (''set'', CHR '' '' # cmd_key cmd @ CHR '' '' # cmd_value cmd)"
      by (rule extract_word_lead [OF _ word(1) sp]) simp
    have 2: "extract_word (CHR '' '' # cmd_key cmd @ CHR '' '' # cmd_value cmd) = (cmd_key cmd, CHR '' '' # cmd_value cmd)"
      unfolding extract_word_space [OF sp] by (rule extract_word_lead) (use assms True sp in \<open>auto simp: log_safe_def\<close>)
    have 3: "takeWhile (\<lambda>c. c \<noteq> LF) (cmd_value cmd) = cmd_value cmd"
      using assms True by (auto simp: log_safe_def takeWhile_eq_all_conv)
    show ?thesis using 1 2 True by (simp add: apply_text_def log_text_def run_command_def 3)
  next
    case False
    then have t: "cmd_type cmd = Del" using assms by (auto simp: log_safe_def)
    have 1: "extract_word (''del'' @ CHR '' '' # cmd_key cmd) = (''del'', CHR '' '' # cmd_key cmd)"
      by (rule extract_word_lead [OF _ word(2) sp]) simp
    have 2: "extract_word (CHR '' '' # cmd_key cmd) = (cmd_key cmd, [])"
      by (rule extract_word_all [OF sp]) (use assms in \<open>auto simp: log_safe_def\<close>)
    show ?thesis using 1 2 t by (simp add: apply_text_def log_text_def run_command_def)
  qed
qed

end
