(* ===== verification/Server_Properties.thy ===== *)
theory Server_Properties
  imports Storage_Server Demo_Cluster Replication_Handlers
begin

text \<open>
  The properties of the key-value server: the client protocol, what a command becomes in the log,
  what replicas do with it, and snapshots.
\<close>

section \<open>The protocol\<close>

text \<open>however the bytes of a request are cut into reads, the parser ends with the same result, the same
  command and the same bytes left over.\<close>

theorem parse_in_pieces:
  "parse s cmd (xs @ ys) =
     (case parse s cmd xs of (result, rest, s', cmd') \<Rightarrow>
        if result = Need_more then parse s' cmd' ys else (result, rest @ ys, s', cmd'))"
  by (rule parse_append)

text \<open>C25: the text of a command is read back as that command, with nothing left over.\<close>

theorem command_read_back:
  assumes "plain_command cmd"
  shows "parse parser_reset (command_reset c0) (command_text cmd) = (Good, [], carriage, cmd)"
  by (rule parse_command_text [OF assms])

definition demo_set :: command where
  "demo_set = \<lparr>cmd_key = ''k'', cmd_value = ''v 1'', cmd_type = Set\<rparr>"

lemma demo_set_plain: "plain_command demo_set" "log_safe demo_set" "cmd_type demo_set = Set" "cmd_key demo_set = ''k''" "cmd_value demo_set = ''v 1''"
  by (simp_all add: demo_set_def plain_command_def key_char_def is_blank_def log_safe_def is_space_def)

theorem command_read_back_witness:
  "parse parser_reset (command_reset demo_set) (''set k v 1'' @ [CR, LF]) = (Good, [], carriage, demo_set)"
  using command_read_back [OF demo_set_plain(1)] by (simp add: command_text_def demo_set_plain(3-5))

text \<open>whatever bytes arrive after a reset, a command is only completed with a type, a nonempty key,
  and, for \<^verbatim>\<open>set\<close>, a nonempty value that begins with no blank; no field holds a carriage return
  except as the first character of a \<^verbatim>\<open>set\<close> key.\<close>

theorem completed_commands:
  assumes "parse parser_reset (command_reset c0) bytes = (Good, rest, p, cmd)"
  shows "cmd_type cmd \<noteq> Unknown \<and> cmd_key cmd \<noteq> [] \<and>
    (if cmd_type cmd = Set then list_all key_char (tl (cmd_key cmd)) \<and> cmd_value cmd \<noteq> [] \<and> key_char (hd (cmd_value cmd)) \<and>
       CR \<notin> set (cmd_value cmd)
     else CR \<notin> set (cmd_key cmd) \<and> cmd_value cmd = [])"
proof -
  have "p = carriage" using assms by (rule parse_good_carriage)
  with parser_ok_parse [OF parser_ok_reset assms] show ?thesis by auto
qed

theorem completed_commands_witness: "cmd_value demo_set \<noteq> []"
proof -
  have "parse parser_reset (command_reset demo_set) (''set k v 1'' @ [CR, LF]) = (Good, [], carriage, demo_set)"
    using parse_command_text [OF demo_set_plain(1), of demo_set] by (simp add: command_text_def demo_set_plain(3-5))
  from completed_commands [OF this] show ?thesis by (simp add: demo_set_plain(3))
qed

section \<open>Commands through the log\<close>

definition demo_storage :: "raft \<Rightarrow> storage" where
  "demo_storage r = \<lparr>st_raft = r, st_db = [(''k'', ''old'')], st_commands = [],
     st_objects = [7 \<mapsto> \<lparr>ss_cmd = demo_set, ss_parser = carriage, ss_input = []\<rparr>], st_sessions = {},
     st_sent = [], st_path = ''db'', st_snapshot_rate = 120, st_prev_snapshot_size = 0\<rparr>"

text \<open>C23: a \<^verbatim>\<open>set\<close> or \<^verbatim>\<open>del\<close> at the leader puts the command's text at the end of the log, waits for it
  under its index, answers nothing yet and leaves the database alone.\<close>

theorem leader_logs_command:
  assumes "live_rep os (r_log (st_raft st)) a" and "r_role (st_raft st) = LEADER" and "cmd_type cmd \<in> {Set, Del}"
    and "r_curr_term (st_raft st) < u64_bound" and "total (al_entries a) + length (log_text cmd) + 72 < 2 ^ 59"
    and "al_last a + 1 < u64_bound" and "al_last a + 1 \<notin> fst ` set (st_commands st)"
  shows "\<exists>st' e. handle_command os s cmd st = Some st' \<and> live_rep os (r_log (st_raft st')) (al_append a [e]) \<and>
    str e = log_text cmd \<and> \<not> e_cfg e \<and> e_term e = r_curr_term (st_raft st) \<and>
    map_of (st_commands st') (al_last a + 1) = Some s \<and> st_db st' = st_db st \<and> st_sent st' = st_sent st"
proof -
  note n = live_append_next [OF assms(1,4-6)]
  obtain l' where l': "raft_append os (log_text cmd) (st_raft st) = Some (al_last a + 1, st_raft st\<lparr>r_log := l'\<rparr>)"
    "live_rep os l' (al_append a [make_next_entry (log_text cmd) False (st_raft st)])"
    using raft_append_leader [OF assms(1,2,4-6)] by blast
  have new: "map_of (st_commands st) (al_last a + 1) = None" using assms(7) by (simp add: map_of_eq_None_iff)
  show ?thesis
    by (rule exI [of _ "st\<lparr>st_raft := st_raft st\<lparr>r_log := l'\<rparr>, st_commands := st_commands st @ [(al_last a + 1, s)]\<rparr>"],
        rule exI [of _ "make_next_entry (log_text cmd) False (st_raft st)"])
      (use assms(2,3,7) l' n(3) [of False] new in \<open>auto simp: handle_command_def Let_def map_add_def make_next_entry_def\<close>)
qed

theorem leader_logs_command_witness:
  "\<exists>st'. handle_command demo_os 7 demo_set (demo_storage ((demo_raft ''a:1'' demo_log2)\<lparr>r_role := LEADER\<rparr>)) = Some st' \<and>
    map_of (st_commands st') 3 = Some 7 \<and> st_sent st' = []"
proof -
  let ?r = "(demo_raft ''a:1'' demo_log2)\<lparr>r_role := LEADER\<rparr>"
  have r: "live_rep demo_os (r_log (st_raft (demo_storage ?r))) demo_alog" "r_role (st_raft (demo_storage ?r)) = LEADER"
    "r_curr_term (st_raft (demo_storage ?r)) < u64_bound" "al_last demo_alog + 1 \<notin> fst ` set (st_commands (demo_storage ?r))"
    using demo_live2 by (simp_all add: demo_storage_def demo_raft_def)
  have "total (al_entries demo_alog) + length (log_text demo_set) + 72 < 2 ^ 59"
    by (simp add: total_def log_text_def demo_set_plain)
  from leader_logs_command [OF r(1,2) _ r(3) this _ r(4), of 7] obtain st' where
    "handle_command demo_os 7 demo_set (demo_storage ?r) = Some st'" "map_of (st_commands st') (al_last demo_alog + 1) = Some 7"
    "st_sent st' = st_sent (demo_storage ?r)"
    by (auto simp: demo_set_plain(3))
  then show ?thesis by (simp add: demo_storage_def numeral_3_eq_3)
qed

text \<open>away from the leader a command changes nothing, and the answer names the leader.\<close>

theorem follower_redirects:
  assumes "r_role (st_raft st) \<noteq> LEADER" and "cmd_type cmd \<in> {Set, Del}"
  shows "handle_command os s cmd st = Some (st\<lparr>st_sent := st_sent st @ [(s, ''NOT_LEADER'', r_leader (st_raft st))]\<rparr>)"
  using assms by (auto simp: handle_command_def session_write_def)

theorem follower_redirects_witness:
  "handle_command demo_os 7 demo_set (demo_storage (demo_raft ''b:1'' demo_log)) =
    Some ((demo_storage (demo_raft ''b:1'' demo_log))\<lparr>st_sent := [(7, ''NOT_LEADER'', [])]\<rparr>)"
  using follower_redirects [of "demo_storage (demo_raft ''b:1'' demo_log)" demo_set demo_os 7]
  by (simp add: demo_storage_def demo_raft_def demo_set_plain(3))

section \<open>Committed commands\<close>

lemma drop_returns: "live_rep os (r_log r) a \<Longrightarrow> \<exists>rc r'. raft_drop os i sync r = Some (rc, r')"
  using file_log.compact_good [of os "r_log r" a i sync] file_log.compact_oor [of os "r_log r" a i sync]
  by (cases "al_index a < i \<and> i \<le> al_last a") (auto simp: raft_drop_def)

text \<open>The part after the command has run, compaction or not.\<close>

lemma committed_tail:
  assumes "r_log_compaction_enabled (st_raft st) \<longrightarrow> live_rep os (r_log (st_raft st)) a"
  shows "\<exists>r. (if r_log_compaction_enabled (st_raft st) \<and> i = r_commit_index (st_raft st)
      then do { (_, r) \<leftarrow> raft_drop os i True (st_raft st); Some (st\<lparr>st_raft := r\<rparr>) } else Some st) = Some (st\<lparr>st_raft := r\<rparr>)"
proof (cases "r_log_compaction_enabled (st_raft st) \<and> i = r_commit_index (st_raft st)")
  case True
  then obtain rc r where "raft_drop os i True (st_raft st) = Some (rc, r)" using drop_returns assms by blast
  then show ?thesis using True by auto
next
  case False
  moreover have "st = st\<lparr>st_raft := st_raft st\<rparr>" by simp
  ultimately show ?thesis by metis
qed

text \<open>C22: when an entry is committed, the leader, which runs the command of the waiting session - also when that
  session is closed by then -, and a replica, which reads the command back from the entry, come to the same database,
  provided that the key holds no white space and the value no line feed; the session gets its answer.  Both may
  then compact their logs.\<close>

theorem replicas_agree:
  assumes "map_of (st_commands st) (e_index e) = Some s" and "st_objects st s = Some ses" and "log_safe (ss_cmd ses)"
    and "str e = log_text (ss_cmd ses)" and "r_log_compaction_enabled (st_raft st) \<longrightarrow> live_rep os (r_log (st_raft st)) a"
    and "map_of (st_commands rep) (e_index e) = None" and "st_db rep = st_db st"
    and "r_log_compaction_enabled (st_raft rep) \<longrightarrow> live_rep os (r_log (st_raft rep)) b"
  shows "\<exists>st' rep'. on_log_entry_committed os e st = Some st' \<and> on_log_entry_committed os e rep = Some rep' \<and>
    st_db st' = st_db rep' \<and> st_db st' = run_command (ss_cmd ses) (st_db st) \<and>
    map_of (st_commands st') (e_index e) = None \<and> st_sent rep' = st_sent rep \<and>
    st_sent st' = st_sent st @ [(s, ''OK'', if cmd_type (ss_cmd ses) = Set
      then (case map_of (st_db st) (cmd_key (ss_cmd ses)) of None \<Rightarrow> [] | Some v \<Rightarrow> v) else [])]"
proof -
  let ?ans = "if cmd_type (ss_cmd ses) = Set then (case map_of (st_db st) (cmd_key (ss_cmd ses)) of None \<Rightarrow> [] | Some v \<Rightarrow> v) else []"
  let ?st = "(session_write s ''OK'' ?ans (st\<lparr>st_db := run_command (ss_cmd ses) (st_db st)\<rparr>))\<lparr>st_commands := AList.delete (e_index e) (st_commands st)\<rparr>"
  let ?rep = "rep\<lparr>st_db := run_command (ss_cmd ses) (st_db st)\<rparr>"
  have t: "cmd_type (ss_cmd ses) \<noteq> Get \<and> cmd_type (ss_cmd ses) \<noteq> Unknown" using assms(3) by (auto simp: log_safe_def)
  have d: "apply_text (str e) (st_db st) = run_command (ss_cmd ses) (st_db st)"
    using apply_log_text [OF assms(3)] assms(4) by simp
  have ran: "map_option (\<lambda>st'. st'\<lparr>st_commands := AList.delete (e_index e) (st_commands st')\<rparr>) (insert_command s st) = Some ?st"
    using assms(2) t by (simp add: insert_command_def Let_def session_write_def)
  have "r_log_compaction_enabled (st_raft ?st) \<longrightarrow> live_rep os (r_log (st_raft ?st)) a"
    using assms(5) by (simp add: session_write_def)
  from committed_tail [OF this] obtain r where tail:
    "(if r_log_compaction_enabled (st_raft ?st) \<and> e_index e = r_commit_index (st_raft ?st)
      then do { (_, r) \<leftarrow> raft_drop os (e_index e) True (st_raft ?st); Some (?st\<lparr>st_raft := r\<rparr>) } else Some ?st) = Some (?st\<lparr>st_raft := r\<rparr>)" ..
  have st': "on_log_entry_committed os e st = Some (?st\<lparr>st_raft := r\<rparr>)"
    by (simp only: on_log_entry_committed_def Let_def assms(1) option.case ran bind.bind_lunit tail)
  have applied: "apply_entry e rep = ?rep" using d assms(7) by (simp add: apply_entry_def)
  have "r_log_compaction_enabled (st_raft ?rep) \<longrightarrow> live_rep os (r_log (st_raft ?rep)) b" using assms(8) by simp
  from committed_tail [OF this] obtain q where rtail:
    "(if r_log_compaction_enabled (st_raft ?rep) \<and> e_index e = r_commit_index (st_raft ?rep)
      then do { (_, r) \<leftarrow> raft_drop os (e_index e) True (st_raft ?rep); Some (?rep\<lparr>st_raft := r\<rparr>) } else Some ?rep) = Some (?rep\<lparr>st_raft := q\<rparr>)" ..
  have rep': "on_log_entry_committed os e rep = Some (?rep\<lparr>st_raft := q\<rparr>)"
    by (simp only: on_log_entry_committed_def Let_def assms(6) option.case applied bind.bind_lunit rtail)
  have "map_of (AList.delete (e_index e) (st_commands st)) (e_index e) = None" by (simp add: delete_conv)
  then show ?thesis
    by (intro exI [of _ "?st\<lparr>st_raft := r\<rparr>"] exI [of _ "?rep\<lparr>st_raft := q\<rparr>"]) (simp add: st' rep' session_write_def)
qed

definition demo_compacting :: "string \<Rightarrow> storage" where
  "demo_compacting i = demo_storage ((demo_raft i demo_log)\<lparr>r_log_compaction_enabled := True, r_commit_index := 1\<rparr>)"

theorem replicas_agree_witness:
  "\<exists>st' rep'. on_log_entry_committed demo_os (make_entry 0 ''set k v 1'' 1 1 False) ((demo_compacting ''a:1'')\<lparr>st_commands := [(1, 7)]\<rparr>) = Some st' \<and>
    on_log_entry_committed demo_os (make_entry 0 ''set k v 1'' 1 1 False) (demo_compacting ''b:1'') = Some rep' \<and>
    st_db st' = st_db rep' \<and> st_sent st' = [(7, ''OK'', ''old'')]"
  using replicas_agree [of "(demo_compacting ''a:1'')\<lparr>st_commands := [(1, 7)]\<rparr>" "make_entry 0 ''set k v 1'' 1 1 False" 7
      "\<lparr>ss_cmd = demo_set, ss_parser = carriage, ss_input = []\<rparr>" demo_os empty_alog "demo_compacting ''b:1''" empty_alog] demo_live
  by (auto simp: demo_compacting_def demo_storage_def demo_raft_def demo_set_plain str_make_entry log_text_def)

text \<open>a value with a line feed, which the protocol accepts, is cut at it by the replicas but not by
  the leader: the databases differ.\<close>

theorem line_feed_diverges:
  "parse parser_reset (command_reset c0) (''set k a'' @ [LF] @ ''b'' @ [CR, LF]) =
     (Good, [], carriage, \<lparr>cmd_key = ''k'', cmd_value = ''a'' @ [LF] @ ''b'', cmd_type = Set\<rparr>) \<and>
   run_command \<lparr>cmd_key = ''k'', cmd_value = ''a'' @ [LF] @ ''b'', cmd_type = Set\<rparr> [] = [(''k'', ''a'' @ [LF] @ ''b'')] \<and>
   apply_text (log_text \<lparr>cmd_key = ''k'', cmd_value = ''a'' @ [LF] @ ''b'', cmd_type = Set\<rparr>) [] = [(''k'', ''a'')]"
  by (simp add: parser_reset_def command_reset_def is_blank_def run_command_def apply_text_def log_text_def extract_word_def is_space_def)

section \<open>Snapshots\<close>

text \<open>
  What \<^verbatim>\<open>boost::program_options\<close> documents of a configuration file: lines \<^verbatim>\<open>name = value\<close>, a comment
  from \<^verbatim>\<open>#\<close> on, sections in brackets, and white space around names and values removed.  On lines
  of plain names and values the unrecognized options are the names and values in turn.
\<close>

definition plain_char :: "char \<Rightarrow> bool" where
  "plain_char c \<longleftrightarrow> \<not> is_space c \<and> c \<notin> set ''=#['' \<and> c \<noteq> CHR 0x00"

definition plain_option :: "string \<times> string \<Rightarrow> bool" where
  "plain_option = (\<lambda>(k, v). k \<noteq> [] \<and> v \<noteq> [] \<and> list_all plain_char k \<and> list_all plain_char v)"

definition option_lines :: "(string \<times> string) list \<Rightarrow> string" where
  "option_lines kvs = concat (map (\<lambda>(k, v). k @ '' = '' @ v @ [LF]) kvs)"

definition reads_options :: "program_options \<Rightarrow> bool" where
  "reads_options po \<longleftrightarrow> (\<forall>kvs. list_all plain_option kvs \<longrightarrow> po (option_lines kvs) = Some (flatten kvs))"

lemma plain_charD: "plain_char c \<Longrightarrow> c \<noteq> CHR 0x00" "plain_char c \<Longrightarrow> c \<noteq> LF" "plain_char c \<Longrightarrow> c \<noteq> CHR '' ''"
  by (auto simp: plain_char_def is_space_def)

lemma plain_optionD:
  assumes "plain_option (k, v)"
  shows "CHR 0x00 \<notin> set k" "CHR 0x00 \<notin> set v" "LF \<notin> set k" "LF \<notin> set v" "CHR '' '' \<notin> set k"
  using assms plain_charD by (force simp: plain_option_def list_all_iff)+

lemma snapshot_lines: "list_all plain_option kvs \<Longrightarrow> snapshot_text kvs = option_lines kvs"
proof (induction kvs)
  case (Cons x kvs)
  obtain k v where x: "x = (k, v)" by (cases x)
  have "c_string k = k" "c_string v = v"
    using Cons.prems x plain_optionD(1,2) [of k v] by (simp_all add: c_string_id)
  with Cons x show ?case by (simp add: snapshot_text_def option_lines_def)
qed (simp add: snapshot_text_def option_lines_def)

lemma fold_update_new:
  "distinct (map fst kvs) \<Longrightarrow> fst ` set kvs \<inter> fst ` set db = {} \<Longrightarrow> fold (\<lambda>(k, v). AList.update k v) kvs db = db @ kvs"
proof (induction kvs arbitrary: db)
  case (Cons x kvs)
  obtain k v where x: "x = (k, v)" by (cases x)
  have "k \<notin> fst ` set db" using Cons.prems(2) x by auto
  then have "AList.update k v db = db @ [(k, v)]" by (induction db) auto
  moreover have "fold (\<lambda>(k, v). AList.update k v) kvs (db @ [(k, v)]) = (db @ [(k, v)]) @ kvs"
    by (rule Cons.IH) (use Cons.prems x in auto)
  ultimately show ?case using x by simp
qed simp

text \<open>C24: loading the snapshot of a database into an empty one gives the database back, when its names and values
  are nonempty and hold no white space, equals sign, hash sign, opening bracket or zero byte.\<close>

theorem snapshot_round_trip:
  assumes "reads_options po" and "list_all plain_option (st_db st)" and "distinct (map fst (st_db st))"
    and "st_path st' = st_path st" and "st_db st' = []"
  shows "load_database po (take_snapshot st files) st' = Some (0, st'\<lparr>st_db := st_db st\<rparr>)"
proof (cases "st_db st = []")
  case True
  then show ?thesis using assms(4,5) by (simp add: load_database_def take_snapshot_def snapshot_text_def)
next
  case False
  then have ne: "snapshot_text (st_db st) \<noteq> []" by (cases "st_db st") (auto simp: snapshot_text_def)
  have po: "po (snapshot_text (st_db st)) = Some (flatten (st_db st))"
    using assms(1,2) snapshot_lines [OF assms(2)] by (simp add: reads_options_def)
  have em: "emplace_all (flatten (st_db st)) [] = Some (st_db st)" using emplace_all_flatten [OF assms(3), of "[]"] by simp
  have up: "fold (\<lambda>(k, v). AList.update k v) (st_db st) [] = st_db st" using fold_update_new [OF assms(3), of "[]"] by simp
  show ?thesis
    using ne assms(4,5) po em up
    by (simp add: load_database_def take_snapshot_def config_parse_def new_config_parser_def)
qed

text \<open>A reader of such lines, to which the property is applied.\<close>

definition demo_line :: "string \<Rightarrow> string list" where
  "demo_line l = [takeWhile (\<lambda>c. c \<noteq> CHR '' '') l, drop 3 (dropWhile (\<lambda>c. c \<noteq> CHR '' '') l)]"

definition demo_reader :: program_options where
  "demo_reader txt = Some (concat (map demo_line (filter (\<lambda>l. l \<noteq> []) (pieces [LF] txt))))"

lemma demo_line: "plain_option (k, v) \<Longrightarrow> demo_line (k @ '' = '' @ v) = [k, v]"
proof -
  assume "plain_option (k, v)"
  then have k: "\<forall>c \<in> set k. c \<noteq> CHR '' ''" using plain_optionD(5) by blast
  then have "takeWhile (\<lambda>c. c \<noteq> CHR '' '') (k @ '' = '' @ v) = k" "dropWhile (\<lambda>c. c \<noteq> CHR '' '') (k @ '' = '' @ v) = '' = '' @ v"
    by (simp_all add: takeWhile_append2 dropWhile_append2)
  then show ?thesis by (simp add: demo_line_def)
qed

lemma demo_reader_reads: "reads_options demo_reader"
  unfolding reads_options_def
proof (intro allI impI)
  fix kvs assume "list_all plain_option kvs"
  then show "demo_reader (option_lines kvs) = Some (flatten kvs)"
  proof (induction kvs)
    case (Cons x kvs)
    obtain k v where x: "x = (k, v)" by (cases x)
    have "set (k @ '' = '' @ v) \<inter> set [LF] = {}"
      using Cons.prems x plain_optionD(3,4) [of k v] by auto
    from pieces_append_sep [OF this, of LF "option_lines kvs"]
    have "pieces [LF] (option_lines (x # kvs)) = (k @ '' = '' @ v) # pieces [LF] (option_lines kvs)"
      by (simp add: option_lines_def x)
    with Cons x demo_line [of k v] show ?case by (simp add: demo_reader_def flatten_def)
  qed (simp add: demo_reader_def option_lines_def flatten_def)
qed

theorem snapshot_round_trip_witness:
  "load_database demo_reader (take_snapshot (demo_storage (demo_raft ''a:1'' demo_log)) Map.empty) ((demo_storage (demo_raft ''a:1'' demo_log))\<lparr>st_db := []\<rparr>) =
    Some (0, demo_storage (demo_raft ''a:1'' demo_log))"
  using snapshot_round_trip [OF demo_reader_reads, of "demo_storage (demo_raft ''a:1'' demo_log)" "(demo_storage (demo_raft ''a:1'' demo_log))\<lparr>st_db := []\<rparr>" Map.empty]
  by (simp add: demo_storage_def plain_option_def plain_char_def is_space_def)

end
