(* ===== verification/Http_Handlers.thy ===== *)
theory Http_Handlers
  imports Raft_Membership
begin

text \<open>
  The administrator's interface: the request handlers of \<^verbatim>\<open>src/raft/raft_impl.hpp\<close>, the
  dispatching and the connections of \<^verbatim>\<open>src/raft/config_server.hpp\<close>.  Reading and writing HTTP
  is \<^verbatim>\<open>boost::beast\<close>: a request is its method, target and keep-alive flag, a reply the fields
  the code sets (the server name and the payload length are not kept).  A reply is named by the
  number of its connection.
\<close>

section \<open>Requests and replies\<close>

datatype verb = GET | HEAD | OTHER_VERB

record http_req =
  q_method :: verb
  q_target :: string
  q_keep_alive :: bool

definition set_reply :: "nat \<Rightarrow> (http_rep \<Rightarrow> http_rep) \<Rightarrow> raft \<Rightarrow> raft" where
  "set_reply h f r = r\<lparr>r_replies := (r_replies r)(h := f (r_replies r h))\<rparr>"

text \<open>\<open>fail\<close> puts a new response in place of the old one; the flag \<open>ready\<close> is not part of it.\<close>

definition fail :: "http_req \<Rightarrow> nat \<Rightarrow> string \<Rightarrow> nat \<Rightarrow> raft \<Rightarrow> raft" where
  "fail req h target status r =
     set_reply h (\<lambda>p. \<lparr>h_ready = h_ready p, h_body = target, h_status = status, h_type = ''text/html'',
       h_keep_alive = q_keep_alive req\<rparr>) r"

definition confirm :: "http_req \<Rightarrow> nat \<Rightarrow> raft \<Rightarrow> rc_errno \<times> raft" where
  "confirm req h r =
     (let target = q_target req in
      if q_method req \<noteq> GET \<and> q_method req \<noteq> HEAD then (RC_ERROR, fail req h ''Unknown HTTP method'' 400 r)
      else if target = [] \<or> target ! 0 \<noteq> CHR ''/'' \<or> str_find target ''..'' 0 \<noteq> None then
        (RC_ERROR, fail req h ''illegal request target'' 400 r)
      else (RC_GOOD, r))"

definition prepare_reply :: "http_req \<Rightarrow> nat \<Rightarrow> string \<Rightarrow> raft \<Rightarrow> raft" where
  "prepare_reply req h body r =
     set_reply h (\<lambda>p. p\<lparr>h_status := 200, h_type := ''application/text'', h_keep_alive := q_keep_alive req\<rparr>) (prepare h body r)"

section \<open>Parameters\<close>

text \<open>\<^verbatim>\<open>find_last_of\<close> with one character.\<close>

definition find_last_of :: "string \<Rightarrow> char \<Rightarrow> nat option" where
  "find_last_of s c = find (\<lambda>i. s ! i = c) (rev [0..<length s])"

fun find_pair :: "string \<Rightarrow> string list \<Rightarrow> string" where
  "find_pair key [] = []"
| "find_pair key (p # ps) =
     (let v = split p ''='' in if length v = 2 \<and> v ! 0 = key then v ! 1 else find_pair key ps)"

definition find_request_params :: "string \<Rightarrow> string \<Rightarrow> string" where
  "find_request_params params key = find_pair key (split params ''&'')"

section \<open>Showing the state\<close>

definition role_string :: "raft \<Rightarrow> string" where
  "role_string r = (if r_role r = FOLLOWER then ''Follower'' else if r_role r = CANDIDATE then ''Candidate'' else ''Leader'')"

definition leader_host :: "raft \<Rightarrow> string" where
  "leader_host r = (case str_find (r_leader r) '':'' 0 of None \<Rightarrow> r_leader r | Some p \<Rightarrow> take p (r_leader r))"

definition leader_port :: "raft \<Rightarrow> string" where
  "leader_port r = (case str_find (r_leader r) '':'' 0 of None \<Rightarrow> r_leader r | Some p \<Rightarrow> drop (p + 1) (r_leader r))"

definition handle_show_servers :: "http_req \<Rightarrow> nat \<Rightarrow> raft \<Rightarrow> raft option" where
  "handle_show_servers req h r =
     (case confirm req h r of (rc, r1) \<Rightarrow>
        if rc \<noteq> RC_GOOD then Some r1
        else do {
          config \<leftarrow> serialize_configuration r1;
          Some (if config = [] then r1 else prepare_reply req h config r1)
        })"

definition uptime_text :: "nat \<Rightarrow> string" where
  "uptime_text secs =
     to_string (secs div 86400) @ ''d '' @ to_string (secs div 3600 mod 24) @ ''h '' @
     to_string (secs div 60 mod 60) @ ''m '' @ to_string (secs mod 60) @ ''s''"

text \<open>The row of one entry; the line feed is left out where the iterator would end next.\<close>

definition entry_row :: "log_entry \<Rightarrow> string" where
  "entry_row e = to_string (e_index e) @ [CHR 0x09] @ to_string (e_term e) @ [CHR 0x09] @ str e"

definition log_rows :: "logger \<Rightarrow> string option" where
  "log_rows l =
     do {
       ps \<leftarrow> walk (ldbs l) (lg_ldbs_size l) (log_begin (ldbs l));
       Some (concat (map (\<lambda>p. entry_row (read_entry (ldbs l) p) @
         (if iter_neq (iter_next (ldbs l) (iter_at (ldbs l) p)) log_end then [CHR 0x0A] else [])) ps))
     }"

definition transfer_links :: "raft \<Rightarrow> string" where
  "transfer_links r =
     concat (map (\<lambda>a. case node_at r a of None \<Rightarrow> [] | Some n \<Rightarrow>
         if n_id n \<noteq> r_self_id r then
           ''http://'' @ leader_host r @ '':'' @ r_http_port r @ ''/leadership_transfer?server='' @ n_id n @ [CHR 0x0A]
         else []) (members r))"

definition line :: "string \<Rightarrow> string \<Rightarrow> string" where
  "line name value = name @ '': '' @ value @ [CHR 0x0A]"

text \<open>The host and the port are the first two fields of the own id; without a port the second is missing.\<close>

definition handle_show_states :: "world \<Rightarrow> http_req \<Rightarrow> nat \<Rightarrow> raft \<Rightarrow> raft option" where
  "handle_show_states w req h r =
     (case confirm req h r of (rc, r1) \<Rightarrow>
        if rc \<noteq> RC_GOOD then Some r1
        else
          let secs = (w_now w - r_started_at r1) div 1000; v = split (r_self_id r1) '':''
          in if length v < 2 then None
          else do {
            config \<leftarrow> serialize_configuration r1;
            rows \<leftarrow> log_rows (r_log r1);
            Some (prepare_reply req h
              (line ''host'' (v ! 0) @ line ''port'' (v ! 1) @ line ''uptime'' (uptime_text secs) @
               line ''role'' (role_string r1) @ line ''index'' (to_string (r_commit_index r1)) @
               line ''term'' (to_string (r_curr_term r1)) @ line ''leader'' (r_leader r1) @ line ''servers'' config @
               (if r_role r1 = LEADER then transfer_links r1 else []) @
               ''index'' @ [CHR 0x09] @ ''term'' @ [CHR 0x09] @ ''data'' @ [CHR 0x0A] @ rows) r1)
          })"

section \<open>Changing the cluster and the log\<close>

definition empty_text :: "string \<Rightarrow> raft \<Rightarrow> string" where
  "empty_text expr r = str_toupper (''empty_'' @ expr @ r_leader r)"

text \<open>An entry appended by hand: the body, and the new state.\<close>

definition append_by_hand :: "os \<Rightarrow> string \<Rightarrow> raft \<Rightarrow> (string \<times> raft) option" where
  "append_by_hand os target r =
     do {
       (text, _) \<leftarrow> replace_all target ''%20'' '' '';
       (rc, l) \<leftarrow> append os [make_next_entry text False r] True (r_log r);
       Some ((if rc \<noteq> RC_GOOD then ''ERROR '' else ''OK '') @ leader_host r @ '':'' @ r_http_port r, r\<lparr>r_log := l\<rparr>)
     }"

definition run_operation :: "world \<Rightarrow> string \<Rightarrow> string \<Rightarrow> nat \<Rightarrow> raft \<Rightarrow> (string \<times> raft) option" where
  "run_operation w op target h r =
     (if op = ''add'' then map_option (\<lambda>(_, r'). ([], r')) (add_server w target h r)
      else if op = ''del'' then map_option (\<lambda>(_, r'). ([], r')) (del_server w target h r)
      else if op = ''handle_leadership_transfer'' then map_option (\<lambda>(_, r'). ([], r')) (leadership_transfer target h r)
      else if op = ''handle_append'' then append_by_hand (w_os w) target r
      else Some ([], r))"

definition handle_request :: "world \<Rightarrow> http_req \<Rightarrow> nat \<Rightarrow> string \<Rightarrow> string \<Rightarrow> raft \<Rightarrow> raft option" where
  "handle_request w req h op expr r =
     (case confirm req h r of (rc, r1) \<Rightarrow>
        if rc \<noteq> RC_GOOD then Some r1
        else do {
          (body, r2) \<leftarrow>
            (if r_role r1 \<noteq> LEADER then Some (''NOT_LEADER '' @ r_leader r1, r1)
             else case find_last_of (q_target req) (CHR ''?'') of
               None \<Rightarrow> Some (empty_text expr r1, r1)
             | Some p \<Rightarrow>
                 let target = find_request_params (drop (p + 1) (q_target req)) expr
                 in if target = [] then Some (empty_text expr r1, r1) else run_operation w op target h r1);
          Some (prepare_reply req h body r2)
        })"

section \<open>Dispatching\<close>

datatype route = Show_States | Show_Servers | Append_Entry | Add_Server | Del_Server | Leadership_Transfer

definition serve :: "world \<Rightarrow> route \<Rightarrow> http_req \<Rightarrow> nat \<Rightarrow> raft \<Rightarrow> raft option" where
  "serve w route req h r =
     (case route of
        Show_States \<Rightarrow> handle_show_states w req h r
      | Show_Servers \<Rightarrow> handle_show_servers req h r
      | Append_Entry \<Rightarrow> handle_request w req h ''handle_append'' ''content'' r
      | Add_Server \<Rightarrow> handle_request w req h ''add'' ''server'' r
      | Del_Server \<Rightarrow> handle_request w req h ''del'' ''server'' r
      | Leadership_Transfer \<Rightarrow> handle_request w req h ''handle_leadership_transfer'' ''server'' r)"

definition register_handler :: "string \<Rightarrow> route \<Rightarrow> (string \<times> route) list \<Rightarrow> (string \<times> route) list" where
  "register_handler uri handler handlers = (if uri \<in> fst ` set handlers then handlers else handlers @ [(uri, handler)])"

definition register_http_service :: "(string \<times> route) list \<Rightarrow> (string \<times> route) list" where
  "register_http_service handlers =
     fold (\<lambda>(uri, handler). register_handler uri handler)
       [(''/'', Show_States), (''/show_states'', Show_States), (''/show_servers'', Show_Servers), (''/append'', Append_Entry),
        (''/add_server'', Add_Server), (''/del_server'', Del_Server), (''/leadership_transfer'', Leadership_Transfer)] handlers"

definition dispatch :: "world \<Rightarrow> (string \<times> route) list \<Rightarrow> http_req \<Rightarrow> nat \<Rightarrow> raft \<Rightarrow> raft option" where
  "dispatch w handlers req h r =
     (let uri = (case find_last_of (q_target req) (CHR ''?'') of None \<Rightarrow> q_target req | Some p \<Rightarrow> take p (q_target req))
      in case map_of handlers uri of
           None \<Rightarrow> Some (fail req h (uri @ CHR 0x27 # '' was not found.'') 404 r)
         | Some handler \<Rightarrow> serve w handler req h r)"

section \<open>Connections\<close>

text \<open>
  A connection waits for a request, or for the change behind its last one, and has sent replies.
  Moving the response into the writer leaves its body and its fields empty, so that it keeps the
  connection alive as HTTP/1.1 does; its status stays.
\<close>

record connection =
  cn_waiting :: bool
  cn_sent :: "http_rep list"

record http_server =
  hs_raft :: raft
  hs_handlers :: "(string \<times> route) list"
  hs_connections :: "nat \<Rightarrow> connection option"

definition http_accept :: "bool \<Rightarrow> nat \<Rightarrow> http_server \<Rightarrow> http_server" where
  "http_accept ec h s =
     (if \<not> ec then s\<lparr>hs_connections := (hs_connections s)(h \<mapsto> \<lparr>cn_waiting = False, cn_sent = []\<rparr>)\<rparr> else s)"

definition http_close :: "nat \<Rightarrow> http_server \<Rightarrow> http_server" where
  "http_close h s = s\<lparr>hs_connections := (hs_connections s)(h := None)\<rparr>"

definition http_do_write :: "nat \<Rightarrow> http_server \<Rightarrow> http_server option" where
  "http_do_write h s =
     map_option (\<lambda>c. s\<lparr>hs_connections := (hs_connections s)(h \<mapsto> \<lparr>cn_waiting = False, cn_sent = cn_sent c @ [r_replies (hs_raft s) h]\<rparr>),
         hs_raft := set_reply h (\<lambda>p. p\<lparr>h_body := [], h_type := [], h_keep_alive := True\<rparr>) (hs_raft s)\<rparr>)
       (hs_connections s h)"

definition http_on_read :: "world \<Rightarrow> bool \<Rightarrow> http_req \<Rightarrow> nat \<Rightarrow> http_server \<Rightarrow> http_server option" where
  "http_on_read w ec req h s =
     (if ec then Some (http_close h s)
      else do {
        r \<leftarrow> dispatch w (hs_handlers s) req h (hs_raft s);
        c \<leftarrow> hs_connections s h;
        let s1 = s\<lparr>hs_raft := r\<rparr>
        in if h_ready (r_replies r h) then http_do_write h s1
           else Some (s1\<lparr>hs_connections := (hs_connections s1)(h \<mapsto> c\<lparr>cn_waiting := True\<rparr>)\<rparr>)
      })"

text \<open>What the change writes to the pipe when it is complete wakes the connection up.\<close>

definition http_on_read_some :: "bool \<Rightarrow> nat \<Rightarrow> http_server \<Rightarrow> http_server option" where
  "http_on_read_some ec h s = (if \<not> ec then http_do_write h s else Some s)"

definition http_on_write :: "bool \<Rightarrow> bool \<Rightarrow> nat \<Rightarrow> http_server \<Rightarrow> http_server" where
  "http_on_write keep_alive ec h s = (if ec \<or> \<not> keep_alive then http_close h s else s)"

definition http_stop :: "http_server \<Rightarrow> http_server" where
  "http_stop s = s\<lparr>hs_connections := Map.empty\<rparr>"

end
