(* ===== verification/Client_Tools.thy ===== *)
theory Client_Tools
  imports Storage_Server Http_Handlers
begin

text \<open>
  The programs around the server: the targets the configuration client asks for
  (\<^verbatim>\<open>src/raft/config_client.cpp\<close>), the interactive client with its redirects
  (\<^verbatim>\<open>src/client/raft_client.hpp\<close>) and the log reader (\<^verbatim>\<open>src/raft/entry_reader.cpp\<close>).
  Sockets and terminals appear as actions and lines of output.
\<close>

section \<open>The configuration client\<close>

record client_options =
  co_show_states :: bool
  co_show_servers :: bool
  co_append :: "string option"
  co_target_server :: "string option"
  co_add_servers :: "string option"
  co_del_servers :: "string option"

definition change_targets :: "string \<Rightarrow> string \<Rightarrow> string list" where
  "change_targets change servers = map (\<lambda>s. ''/'' @ butlast change @ ''?server='' @ s) (split servers '','')"

text \<open>The targets requested, in order; \<^const>\<open>None\<close> when no option names a change and the map has no such value.\<close>

definition client_targets :: "client_options \<Rightarrow> string list option" where
  "client_targets co =
     (if co_show_states co then Some [''/show_states'']
      else if co_show_servers co then Some [''/show_servers'']
      else case co_append co of
        Some content \<Rightarrow>
          map_option (\<lambda>(text, _). [''/append?content='' @ text]) (replace_all content '' '' ''%20'')
      | None \<Rightarrow>
          (case co_target_server co of
             Some target_server \<Rightarrow> Some [''/leadership_transfer?server='' @ target_server]
           | None \<Rightarrow>
               (case co_add_servers co of
                  Some servers \<Rightarrow> Some (change_targets ''add_servers'' servers)
                | None \<Rightarrow> map_option (change_targets ''del_servers'') (co_del_servers co))))"

text \<open>Host and port of \<^verbatim>\<open>leader_address\<close>; without a colon both are the whole text.\<close>

definition client_address :: "string \<Rightarrow> string \<times> string" where
  "client_address leader_address =
     (case str_find leader_address '':'' 0 of
        None \<Rightarrow> (leader_address, leader_address)
      | Some p \<Rightarrow> (take p leader_address, drop (p + 1) leader_address))"

definition client_request :: "string \<Rightarrow> http_req" where
  "client_request target = \<lparr>q_method = GET, q_target = target, q_keep_alive = True\<rparr>"

section \<open>The interactive client\<close>

datatype client_action =
    Resolve string string
  | Connect
  | Read_Message
  | Send string
  | Print string
  | Close
  | Exit nat

record raft_client =
  rl_host :: string
  rl_port :: string
  rl_prev_command :: string
  rl_commands :: "string list"
  rl_out :: "client_action list"

definition act :: "client_action \<Rightarrow> raft_client \<Rightarrow> raft_client" where
  "act a c = c\<lparr>rl_out := rl_out c @ [a]\<rparr>"

definition new_client :: "string \<Rightarrow> string \<Rightarrow> raft_client" where
  "new_client host port =
     act (Resolve host port) \<lparr>rl_host = host, rl_port = port, rl_prev_command = [], rl_commands = [], rl_out = []\<rparr>"

definition client_on_resolve :: "bool \<Rightarrow> raft_client \<Rightarrow> raft_client" where
  "client_on_resolve ec c = act (if \<not> ec then Connect else Close) c"

text \<open>\<open>write\<close>, when its turn has come in the event loop, and \<open>do_write\<close>.\<close>

definition client_write :: "string \<Rightarrow> raft_client \<Rightarrow> raft_client" where
  "client_write command c =
     (let write_in_progress = (rl_commands c \<noteq> []); c1 = c\<lparr>rl_commands := rl_commands c @ [command]\<rparr>
      in if \<not> write_in_progress then act (Send (hd (rl_commands c1))) c1 else c1)"

definition client_on_connect :: "bool \<Rightarrow> raft_client \<Rightarrow> raft_client" where
  "client_on_connect ec c =
     (if \<not> ec then
        let c1 = act Read_Message c
        in if rl_prev_command c \<noteq> [] then client_write (rl_prev_command c) c1 else c1
      else act Close c)"

text \<open>\<open>on_write\<close>: the front of an empty queue does not exist.\<close>

definition client_on_write :: "bool \<Rightarrow> raft_client \<Rightarrow> raft_client option" where
  "client_on_write ec c =
     (if ec then Some (act Close c)
      else case rl_commands c of
        [] \<Rightarrow> None
      | command # rest \<Rightarrow>
          let c1 = c\<lparr>rl_prev_command := command, rl_commands := rest\<rparr>
          in Some (if rest \<noteq> [] then act (Send (hd rest)) c1 else c1))"

definition server_port :: "string \<Rightarrow> string" where
  "server_port port = map (\<lambda>c. if c = CHR ''8'' then CHR ''9'' else c) port"

definition client_on_read :: "string option \<Rightarrow> raft_client \<Rightarrow> raft_client" where
  "client_on_read bytes c =
     (case bytes of
        None \<Rightarrow> act Close c
      | Some b \<Rightarrow>
          let reply = (if length b > 2 then take (length b - 2) b else []);
              c1 = act (Print (''(server '' @ rl_host c @ '':'' @ rl_port c @ '') '' @ reply @ '' '')) c;
              go_on = act Read_Message
          in case str_find reply '' '' 0 of
               None \<Rightarrow> go_on c1
             | Some i \<Rightarrow>
                 if take i reply = ''NOT_LEADER'' then
                   let leader = drop (i + 1) reply
                   in case str_find leader '':'' 0 of
                        None \<Rightarrow> go_on (act (Print ''can't find leader address'') c1)
                      | Some j \<Rightarrow>
                          let host = take j leader; port = server_port (drop (j + 1) leader);
                              c2 = c1\<lparr>rl_host := host, rl_port := port\<rparr>
                          in if rl_host c @ '':'' @ rl_port c = host @ '':'' @ port
                             then act (Exit 1) (act (Print (rl_host c @ '':'' @ rl_port c @ '' has been removed from the cluster'')) c2)
                             else act (Resolve host port) (act Close
                               (act (Print (''redirect to '' @ host @ '':'' @ port)) c2))
                 else go_on c1)"

section \<open>The log reader\<close>

text \<open>\<^verbatim>\<open>std::cin >> index\<close> for 64 bits: success, the value and the rest of the input.  At the end
  of the input nothing is stored, and the variable, which is not initialised, keeps the \<open>junk\<close> it had.\<close>

definition extract_u64 :: "nat \<Rightarrow> string \<Rightarrow> bool \<times> nat \<times> string" where
  "extract_u64 junk s =
     (let s1 = dropWhile is_space s;
          neg = (s1 \<noteq> [] \<and> hd s1 = CHR ''-'');
          s2 = (if s1 \<noteq> [] \<and> (hd s1 = CHR ''-'' \<or> hd s1 = CHR ''+'') then tl s1 else s1);
          ds = takeWhile is_digit s2; rest = dropWhile is_digit s2; v = digits_value ds
      in if s1 = [] then (False, junk, [])
         else if ds = [] then (False, 0, rest)
         else if u64_bound \<le> v then (False, u64_bound - 1, rest)
         else (True, if neg then (u64_bound - v) mod u64_bound else v, rest))"

definition show_log :: "logger \<Rightarrow> string list option" where
  "show_log l =
     do {
       ps \<leftarrow> walk (ldbs l) (lg_ldbs_size l) (log_begin (ldbs l));
       Some (map (\<lambda>p. let e = read_entry (ldbs l) p in
         to_string (e_len e) @ [CHR 0x09] @ to_string (e_index e) @ [CHR 0x09] @ to_string (e_term e) @ [CHR 0x09] @
         (if e_cfg e then ''1'' else ''0'') @ [CHR 0x09, CHR 0x27] @ str e @ [CHR 0x27]) ps)
     }"

definition reader_help :: string where
  "reader_help = ''commands: exit | show | last | help | append <log> | chop <index> | drop <index>''"

text \<open>Whether the text is a configuration: the answer for its last address.\<close>

definition reader_cfg :: "string \<Rightarrow> bool" where
  "reader_cfg data = is_ipv4 (last (split data '',''))"

text \<open>
  One command: whether to read on, the rest of the input, the log and the output.  A failed read of
  the index leaves a failed stream, on which the loop ends.
\<close>

definition reader_command :: "nat \<Rightarrow> os \<Rightarrow> string \<Rightarrow> string \<Rightarrow> logger \<Rightarrow> (bool \<times> string \<times> logger \<times> string list) option" where
  "reader_command junk os command input l =
     (if command = ''exit'' then Some (False, input, l, [])
      else if command = ''show'' then
        map_option (\<lambda>rows. (True, input, l, (''Len'' @ [CHR 0x09] @ ''Index'' @ [CHR 0x09] @ ''Term'' @ [CHR 0x09] @
          ''Config'' @ [CHR 0x09] @ ''Data'') # rows)) (show_log l)
      else if command = ''chop'' \<or> command = ''drop'' then
        (case extract_u64 junk input of (ok, index, rest) \<Rightarrow>
           map_option (\<lambda>(rc, l'). (ok, rest, l',
               if rc \<noteq> RC_GOOD then [''failed to '' @ command @ '' entry at index '' @ to_string index] else []))
             (if command = ''chop'' then chop os index True l else drop_entries os index True l))
      else if command = ''append'' then
        (case extract_word input of (data, rest) \<Rightarrow>
           let entry = make_entry (lg_cfg l) data (last_entry_index l + 1) (last_entry_term l) (reader_cfg data)
           in map_option (\<lambda>(rc, l'). (data \<noteq> [], rest, l',
                if rc \<noteq> RC_GOOD then [''failed to append entry: '' @ entry_to_string entry] else []))
              (append os [entry] True l))
      else if command = ''last'' then
        Some (True, input, l, [''last_index  '' @ to_string (last_index l), ''last_term   '' @ to_string (last_term l),
          ''last_config '' @ last_config l])
      else if command = ''help'' then Some (True, input, l, [reader_help])
      else Some (True, input, l, []))"

lemma extract_word_length: "extract_word s = (w, rest) \<Longrightarrow> length rest + length w \<le> length s"
proof -
  assume e: "extract_word s = (w, rest)"
  let ?s = "dropWhile is_space s"
  have "length (takeWhile (\<lambda>c. \<not> is_space c) ?s) + length (dropWhile (\<lambda>c. \<not> is_space c) ?s) = length ?s"
    by (metis length_append takeWhile_dropWhile_id)
  then show ?thesis using e length_dropWhile_le [of is_space s] by (auto simp: extract_word_def Let_def)
qed

lemma extract_u64_length: "extract_u64 junk s = (ok, v, rest) \<Longrightarrow> length rest \<le> length s"
proof -
  assume e: "extract_u64 junk s = (ok, v, rest)"
  obtain s2 where s2: "rest = dropWhile is_digit s2" "length s2 \<le> length (dropWhile is_space s)"
    using e by (cases "dropWhile is_space s = []") (auto simp: extract_u64_def Let_def split: if_splits)
  then show ?thesis using length_dropWhile_le [of is_digit s2] length_dropWhile_le [of is_space s] by simp
qed

lemma reader_command_length:
  "reader_command junk os command input l = Some (go_on, rest, l', out) \<Longrightarrow> length rest \<le> length input"
  using extract_word_length [of input] extract_u64_length [of junk input]
  by (fastforce simp: reader_command_def Let_def split: if_splits prod.splits)

function reader_loop :: "nat \<Rightarrow> os \<Rightarrow> string \<Rightarrow> logger \<Rightarrow> (logger \<times> string list) option" where
  "reader_loop junk os input l =
     (case extract_word input of (command, input1) \<Rightarrow>
        if command = [] then Some (l, [])
        else
          (case reader_command junk os command input1 l of
             None \<Rightarrow> None
           | Some (go_on, input2, l1, out) \<Rightarrow>
               if \<not> go_on then Some (l1, out)
               else map_option (\<lambda>(l2, more). (l2, out @ more)) (reader_loop junk os input2 l1)))"
  by pat_completeness auto
termination
proof (relation "measure (\<lambda>(junk, os, input, l). length input)")
  fix junk :: nat and os :: os and input input1 input2 command :: string and l l1 :: logger and x y z u go_on out
  assume "(command, input1) = extract_word input" and "command \<noteq> []"
    and "reader_command junk os command input1 l = Some x" and "(go_on, y) = x" and "(input2, z) = y" and "(l1, out) = z"
  then show "((junk, os, input2, l1), junk, os, input, l) \<in> measure (\<lambda>(junk, os, input, l). length input)"
    using extract_word_length [of input command input1] reader_command_length [of junk os command input1 l go_on input2 l1 out]
    by (cases command) auto
qed simp

declare reader_loop.simps [simp del]

end
