(* ===== verification/Http_Properties.thy ===== *)
theory Http_Properties
  imports Client_Tools Membership_Properties
begin

text \<open>
  The properties of the administrator's interface and of the client programs: what a request may
  change, the table of the log, an entry's way from the command line into the log, and the
  redirects of the interactive client.
\<close>

section \<open>Searching strings\<close>

lemma find_append: "find P (xs @ ys) = (case find P xs of None \<Rightarrow> find P ys | Some x \<Rightarrow> Some x)"
  by (induction xs) auto

lemma find_last_of_last:
  assumes "c \<notin> set ys"
  shows "find_last_of (xs @ c # ys) c = Some (length xs)"
proof -
  have "(xs @ c # ys) ! i \<noteq> c" if "length xs + 1 \<le> i" "i < length xs + 1 + length ys" for i
  proof -
    have "(xs @ c # ys) ! i = ys ! (i - length xs - 1)" "i - length xs - 1 < length ys" using that by (auto simp: nth_append nth_Cons')
    then show ?thesis using assms nth_mem by force
  qed
  then have "\<forall>i \<in> set (rev [length xs + 1..<length xs + 1 + length ys]). (xs @ c # ys) ! i \<noteq> c"
    unfolding set_rev set_upt by fastforce
  then have "find (\<lambda>i. (xs @ c # ys) ! i = c) (rev [length xs + 1..<length xs + 1 + length ys]) = None"
    unfolding find_None_iff by blast
  moreover have "[0..<length (xs @ c # ys)] = [0..<length xs] @ length xs # [length xs + 1..<length xs + 1 + length ys]"
    using upt_add_eq_append [of 0 "length xs" "Suc (length ys)"] upt_conv_Cons [of "length xs" "length xs + Suc (length ys)"] by simp
  ultimately show ?thesis by (simp add: find_last_of_def find_append)
qed


lemma str_find_none: "\<forall>p. take (length what) (drop p s) \<noteq> what \<Longrightarrow> str_find s what nxt = None"
  using str_find_Some [of s what nxt] by (cases "str_find s what nxt") auto

section \<open>The table of the log\<close>

lemma rows_image:
  assumes "load_bytes m p (total es) = image es" and "load64 m (p + total es) = 0" and "list_all wf_entry es"
  shows "concat (map (\<lambda>q. entry_row (read_entry m q) @ (if iter_neq (iter_next m (iter_at m q)) log_end then [CHR 0x0A] else []))
      (map i_amount (amounts p es))) = join (CHR 0x0A) (map entry_row es)"
  using assms
proof (induction es arbitrary: p)
  case (Cons e es)
  have wf: "wf_entry e" "list_all wf_entry es" using Cons.prems(3) by auto
  have parts: "load_bytes m p (e_size e) = entry_bytes e \<and> load_bytes m (p + e_size e) (total es) = image es"
    using Cons.prems(1) wf(1) by (rule image_Cons)
  then have e: "read_entry m p = e" "load64 m p = e_size e" using wf(1) by (simp_all add: read_entry_image load_size_image)
  have nxt: "iter_neq (iter_next m (iter_at m p)) log_end \<longleftrightarrow> es \<noteq> []"
  proof (cases es)
    case Nil
    then show ?thesis using Cons.prems(2) e by (simp add: iter_neq_def iter_next_def iter_at_def log_end_def)
  next
    case (Cons e' es')
    then have "load_bytes m (p + e_size e) (e_size e') = entry_bytes e'" "wf_entry e'"
      using parts wf(2) image_Cons [of m "p + e_size e" e' es'] by auto
    then have "load64 m (p + e_size e) = e_size e'" "40 \<le> e_size e'" using load_size_image wf_entryD(7) by blast+
    then show ?thesis using Cons e by (simp add: iter_neq_def iter_next_def iter_at_def log_end_def)
  qed
  have "load64 m ((p + e_size e) + total es) = 0" using Cons.prems(2) by (simp add: add.assoc)
  with Cons.IH [of "p + e_size e"] parts wf(2) e(1) nxt show ?case by (auto simp: join_Cons)
qed simp

lemma log_rows_rep:
  assumes "log_rep l a"
  shows "log_rows l = Some (join (CHR 0x0A) (map entry_row (log_entry_sentry # al_entries a)))"
proof -
  let ?es = "log_entry_sentry # al_entries a"
  have wf: "list_all wf_entry ?es" using log_repD(5) [OF assms] by simp
  have ld: "ldbs_rep l (al_entries a)" by (rule log_repD(2) [OF assms])
  then have im: "load_bytes (ldbs l) 0 (total ?es) = image ?es" "load64 (ldbs l) (0 + total ?es) = 0" "0 + total ?es + 8 \<le> lg_ldbs_size l"
    unfolding ldbs_rep_def by (metis, metis add_0 log_end_marker_def, metis add_0 log_end_marker_size_def)
  show ?thesis
    unfolding log_rows_def log_begin_def walk_image [OF im wf] using rows_image [OF im(1,2) wf] by simp
qed

text \<open>the page with the states of a server ends with one row for every entry of its log, in order, the
  sentry first, and shows the members, the term and the commit index; it changes only the reply.\<close>

theorem states_show_the_log:
  assumes "log_rep (r_log r) a" and "fst (confirm req h r) = RC_GOOD" and "CHR '':'' \<notin> set host" and "r_self_id r = host @ '':'' @ port"
    and "serialize_configuration r = Some conf"
  shows "\<exists>r' head. handle_show_states w req h r = Some r' \<and> r' = r\<lparr>r_replies := r_replies r'\<rparr> \<and> h_status (r_replies r' h) = 200 \<and>
    h_body (r_replies r' h) = line ''host'' host @ head @ line ''index'' (to_string (r_commit_index r)) @
      line ''term'' (to_string (r_curr_term r)) @ line ''leader'' (r_leader r) @ line ''servers'' conf @
      (if r_role r = LEADER then transfer_links r else []) @ ''index'' @ [CHR 0x09] @ ''term'' @ [CHR 0x09] @ ''data'' @ [CHR 0x0A] @
      join (CHR 0x0A) (map entry_row (log_entry_sentry # al_entries a))"
proof -
  have c: "confirm req h r = (RC_GOOD, r)" using assms(2) by (auto simp: confirm_def Let_def split: if_splits)
  have v: "split (r_self_id r) '':'' = host # split port '':''"
    using assms(3,4) pieces_append_sep [of host "'':''" "CHR '':''" port] by (simp add: split_pieces)
  then have v0: "\<not> length (split (r_self_id r) '':'') < 2" "split (r_self_id r) '':'' ! 0 = host"
    by (simp_all add: split_pieces Suc_le_eq)
  let ?body = "line ''host'' host @ (line ''port'' (split (r_self_id r) '':'' ! 1) @
      line ''uptime'' (uptime_text ((w_now w - r_started_at r) div 1000)) @ line ''role'' (role_string r)) @
      line ''index'' (to_string (r_commit_index r)) @
      line ''term'' (to_string (r_curr_term r)) @ line ''leader'' (r_leader r) @ line ''servers'' conf @
      (if r_role r = LEADER then transfer_links r else []) @ ''index'' @ [CHR 0x09] @ ''term'' @ [CHR 0x09] @ ''data'' @ [CHR 0x0A] @
      join (CHR 0x0A) (map entry_row (log_entry_sentry # al_entries a))"
  have "handle_show_states w req h r = Some (prepare_reply req h ?body r)"
    using c v0 assms(5) log_rows_rep [OF assms(1)] by (simp add: handle_show_states_def Let_def)
  moreover have "?body \<noteq> []" by (simp add: line_def)
  ultimately show ?thesis
    by (intro exI [of _ "prepare_reply req h ?body r"] exI conjI) (assumption | simp add: prepare_reply_def set_reply_def prepare_def)+
qed

section \<open>From the command line into the log\<close>

abbreviation encoded :: "string \<Rightarrow> string" where
  "encoded s \<equiv> subst_all s '' '' ''%20''"

definition no_dots :: "string \<Rightarrow> bool" where
  "no_dots = successively (\<lambda>a b. a \<noteq> CHR ''.'' \<or> b \<noteq> CHR ''.'')"

lemma no_dots_find: "no_dots s \<longleftrightarrow> str_find s ''..'' 0 = None"
proof
  assume n: "no_dots s"
  have "take 2 (drop p s) \<noteq> ''..''" for p
  proof
    assume t: "take 2 (drop p s) = ''..''"
    then have "length (take 2 (drop p s)) = 2" by simp
    then have p: "Suc p < length s" by simp
    have "s ! p = take 2 (drop p s) ! 0" "s ! Suc p = take 2 (drop p s) ! 1" using p by simp_all
    then show False using n p unfolding t by (auto simp: no_dots_def successively_conv_nth)
  qed
  then show "str_find s ''..'' 0 = None" by (intro str_find_none) (simp add: numeral_2_eq_2)
next
  assume f: "str_find s ''..'' 0 = None"
  show "no_dots s"
    unfolding no_dots_def successively_conv_nth
  proof (intro allI impI)
    fix i assume i: "Suc i < length s"
    have "take (length ''..'') (drop i s) \<noteq> ''..''" by (rule str_find_NoneD [OF f]) simp_all
    moreover have "take 2 (drop i s) = [s ! i, s ! Suc i]" using i by (simp add: numeral_2_eq_2 take_Suc_conv_app_nth)
    ultimately show "s ! i \<noteq> CHR ''.'' \<or> s ! Suc i \<noteq> CHR ''.''" by (auto simp: numeral_2_eq_2)
  qed
qed

lemma encoded_Cons: "encoded (c # s) = (if c = CHR '' '' then ''%20'' else [c]) @ encoded s"
  by simp

lemma encoded_set: "set (encoded s) \<subseteq> set s \<union> set ''%20''"
  by (induction s) (auto simp: encoded_Cons simp del: subst_all.simps(2))

lemma encoded_hd: "encoded s \<noteq> [] \<Longrightarrow> hd (encoded s) = (if hd s = CHR '' '' then CHR ''%'' else hd s)"
  by (cases s) (simp_all add: encoded_Cons del: subst_all.simps(2))

lemma encoded_no_dots: "no_dots s \<Longrightarrow> no_dots (encoded s)"
  unfolding no_dots_def
proof (induction s)
  case (Cons c s)
  then have IH: "successively (\<lambda>a b. a \<noteq> CHR ''.'' \<or> b \<noteq> CHR ''.'') (encoded s)" by (auto simp: successively_Cons)
  show ?case
  proof (cases "encoded s = []")
    case True
    then show ?thesis by (simp add: encoded_Cons del: subst_all.simps(2))
  next
    case False
    then have "s \<noteq> []" by auto
    with Cons.prems IH encoded_hd [OF False] False show ?thesis
      by (auto simp: encoded_Cons successively_Cons simp del: subst_all.simps(2))
  qed
qed simp

lemma find_content:
  assumes "CHR ''&'' \<notin> set t" and "CHR ''='' \<notin> set t"
  shows "find_request_params (''content='' @ t) ''content'' = t"
proof -
  have 1: "pieces ''&'' (''content='' @ t) = [''content='' @ t]" by (rule pieces_no_occ) (use assms in simp)
  have "pieces ''='' (''content'' @ CHR ''='' # t) = ''content'' # pieces ''='' t" by (rule pieces_append_sep) simp_all
  moreover have "pieces ''='' t = [t]" by (rule pieces_no_occ) (use assms in simp)
  ultimately have 2: "pieces ''='' (''content='' @ t) = [''content'', t]" by simp
  show ?thesis unfolding find_request_params_def split_pieces 1 by (simp add: split_pieces 2 [simplified])
qed

lemma append_target:
  assumes "CHR ''?'' \<notin> set t"
  shows "find_last_of (''/append?content='' @ t) (CHR ''?'') = Some 7"
  using find_last_of_last [of "CHR ''?''" "''content='' @ t" "''/append''"] assms by simp

lemma append_dispatch:
  assumes "CHR ''?'' \<notin> set t" and "no_dots t" and "r_role r = LEADER"
  shows "dispatch w (register_http_service []) (client_request (''/append?content='' @ t)) h r =
    map_option (\<lambda>(body, r'). prepare_reply (client_request (''/append?content='' @ t)) h body r')
      (let target = find_request_params (''content='' @ t) ''content''
       in if target = [] then Some (empty_text ''content'' r, r) else append_by_hand (w_os w) target r)"
proof -
  have "no_dots (''/append?content='' @ t)" using assms(2) by (cases t) (simp_all add: no_dots_def)
  then have c: "confirm (client_request (''/append?content='' @ t)) h r = (RC_GOOD, r)"
    by (simp add: confirm_def client_request_def no_dots_find)
  have "dispatch w (register_http_service []) (client_request (''/append?content='' @ t)) h r =
      handle_request w (client_request (''/append?content='' @ t)) h ''handle_append'' ''content'' r"
    using append_target [OF assms(1)] by (simp add: dispatch_def client_request_def register_http_service_def register_handler_def serve_def)
  also have "\<dots> = map_option (\<lambda>(body, r'). prepare_reply (client_request (''/append?content='' @ t)) h body r')
      (let target = find_request_params (''content='' @ t) ''content''
       in if target = [] then Some (empty_text ''content'' r, r) else append_by_hand (w_os w) target r)"
    using append_target [OF assms(1)] assms(3) c
    by (simp add: handle_request_def client_request_def run_operation_def Let_def map_option_case split: option.split)
  finally show ?thesis .
qed

text \<open>C28: a text given to the configuration client on the command line arrives at the leader as an entry with
  exactly this text, blanks included, when it has no question mark, ampersand, equals sign, two dots in a row or
  \<open>%20\<close>.\<close>

theorem command_line_to_log:
  assumes "live_rep (w_os w) (r_log r) a" and "r_role r = LEADER" and "\<not> co_show_states co" and "\<not> co_show_servers co"
    and "co_append co = Some content" and "content \<noteq> []" and "str_find content ''..'' 0 = None" and "str_find content ''%20'' 0 = None"
    and "CHR ''?'' \<notin> set content" and "CHR ''&'' \<notin> set content" and "CHR ''='' \<notin> set content"
    and "r_curr_term r < u64_bound" and "total (al_entries a) + length content + 72 < 2 ^ 59" and "al_last a + 1 < u64_bound"
  shows "\<exists>t r' e. client_targets co = Some [t] \<and> dispatch w (register_http_service []) (client_request t) h r = Some r' \<and>
    live_rep (w_os w) (r_log r') (al_append a [e]) \<and> str e = content \<and> e_index e = al_last a + 1 \<and> e_term e = r_curr_term r \<and>
    \<not> e_cfg e \<and> h_status (r_replies r' h) = 200 \<and> h_body (r_replies r' h) = ''OK '' @ leader_host r @ '':'' @ r_http_port r"
proof -
  let ?t = "encoded content"
  obtain n where t: "replace_all content '' '' ''%20'' = Some (?t, n)" using replace_all_returns [of "'' ''" content "''%20''"] by auto
  have "\<forall>p. take 3 (drop p content) \<noteq> ''%20''" using str_find_NoneD [OF assms(8)] by (simp add: numeral_3_eq_3)
  then obtain m where dec: "replace_all ?t ''%20'' '' '' = Some (content, m)"
    using replace_all_returns [of "''%20''" ?t "'' ''"] decode_encoded by auto
  have chars: "CHR ''?'' \<notin> set ?t" "CHR ''&'' \<notin> set ?t" "CHR ''='' \<notin> set ?t" using encoded_set [of content] assms(9-11) by auto
  have "no_dots content" using assms(7) by (simp add: no_dots_find)
  then have dots: "no_dots ?t" by (rule encoded_no_dots)
  have ne: "?t \<noteq> []" using assms(6) by (cases content) (simp_all add: encoded_Cons del: subst_all.simps(2))
  note e = live_append_next [OF assms(1,12-14), of False]
  obtain l where l: "append (w_os w) [make_next_entry content False r] True (r_log r) = Some (RC_GOOD, l)"
    "live_rep (w_os w) l (al_append a [make_next_entry content False r])"
    using file_log.app_good [OF assms(1) e(1)] by blast
  have hand: "append_by_hand (w_os w) ?t r = Some (''OK '' @ leader_host r @ '':'' @ r_http_port r, r\<lparr>r_log := l\<rparr>)"
    using dec l(1) by (simp add: append_by_hand_def)
  let ?r' = "prepare_reply (client_request (''/append?content='' @ ?t)) h (''OK '' @ leader_host r @ '':'' @ r_http_port r) (r\<lparr>r_log := l\<rparr>)"
  have "client_targets co = Some [''/append?content='' @ ?t]" using assms(3-5) t by (simp add: client_targets_def)
  moreover have "dispatch w (register_http_service []) (client_request (''/append?content='' @ ?t)) h r = Some ?r'"
    unfolding append_dispatch [OF chars(1) dots assms(2)] find_content [OF chars(2,3)] using ne hand by (simp add: Let_def)
  moreover have "live_rep (w_os w) (r_log ?r') (al_append a [make_next_entry content False r])"
    "h_status (r_replies ?r' h) = 200" "h_body (r_replies ?r' h) = ''OK '' @ leader_host r @ '':'' @ r_http_port r"
    using l(2) by (simp_all add: prepare_reply_def set_reply_def prepare_def)
  moreover have "\<not> e_cfg (make_next_entry content False r)" "e_term (make_next_entry content False r) = r_curr_term r"
    by (simp_all add: make_next_entry_def)
  ultimately show ?thesis using e(2,3) by blast
qed

section \<open>Requests that are refused\<close>




text \<open>A text with a question mark is cut at the last one, so the page is not found; one with an equals sign is
  not found among the parameters.  Neither reaches the log.\<close>

theorem question_mark_not_found:
  assumes "CHR ''?'' \<notin> set y"
  shows "dispatch w (register_http_service []) (client_request (''/append?content='' @ x @ ''?'' @ y)) h r =
    Some (fail (client_request (''/append?content='' @ x @ ''?'' @ y)) h (''/append?content='' @ x @ CHR 0x27 # '' was not found.'') 404 r)"
proof -
  have "find_last_of ((''/append?content='' @ x) @ CHR ''?'' # y) (CHR ''?'') = Some (length (''/append?content='' @ x))"
    by (rule find_last_of_last [OF assms])
  then have f: "find_last_of (''/append?content='' @ x @ ''?'' @ y) (CHR ''?'') = Some (length (''/append?content='' @ x))" by simp
  have t: "take (length (''/append?content='' @ x)) (''/append?content='' @ x @ ''?'' @ y) = ''/append?content='' @ x"
    using append_eq_conv_conj [of "''/append?content='' @ x" "''?'' @ y" "''/append?content='' @ x @ ''?'' @ y"] by simp
  have n: "map_of (register_http_service []) (''/append?content='' @ x) = None"
    by (simp add: register_http_service_def register_handler_def)
  show ?thesis unfolding dispatch_def client_request_def http_req.select_convs f option.case t Let_def n by simp
qed

theorem equals_sign_lost:
  assumes "CHR ''?'' \<notin> set (x @ y)" and "CHR ''&'' \<notin> set (x @ y)" and "no_dots (x @ ''='' @ y)" and "r_role r = LEADER"
  shows "dispatch w (register_http_service []) (client_request (''/append?content='' @ x @ ''='' @ y)) h r =
    Some (prepare_reply (client_request (''/append?content='' @ x @ ''='' @ y)) h (empty_text ''content'' r) r)"
proof -
  let ?t = "x @ ''='' @ y"
  have 1: "pieces ''&'' (''content='' @ ?t) = [''content='' @ ?t]" by (rule pieces_no_occ) (use assms in simp)
  have "pieces ''='' (''content'' @ CHR ''='' # ?t) = ''content'' # pieces ''='' ?t" by (rule pieces_append_sep) simp_all
  moreover have "2 \<le> length (pieces ''='' ?t)"
  proof -
    have add: "length (pieces ''='' (u @ CHR ''='' # v)) = length (pieces ''='' u) + length (pieces ''='' v)" for u v
    proof (induction u)
      case (Cons c u)
      then show ?case by (cases "pieces ''='' u") (auto split: list.splits)
    qed simp
    have pos: "0 < length (pieces ''='' u)" for u by simp
    have "length (pieces ''='' ?t) = length (pieces ''='' x) + length (pieces ''='' y)" using add [of x y] by simp
    then show ?thesis using pos [of x] pos [of y] by linarith
  qed
  ultimately have "find_request_params (''content='' @ ?t) ''content'' = []"
    unfolding find_request_params_def split_pieces 1 by (auto simp: split_pieces)
  moreover have "CHR ''?'' \<notin> set ?t" using assms(1) by simp
  ultimately show ?thesis using append_dispatch [of ?t r w h] assms(3,4) by simp
qed

section \<open>The demo leader\<close>

definition demo_options :: client_options where
  "demo_options = \<lparr>co_show_states = False, co_show_servers = False, co_append = Some ''set k 1.2'', co_target_server = None,
     co_add_servers = None, co_del_servers = None\<rparr>"

theorem command_line_to_log_witness:
  "\<exists>t r' e. client_targets demo_options = Some [t] \<and> dispatch demo_world (register_http_service []) (client_request t) 0 demo_two = Some r' \<and>
    live_rep demo_os (r_log r') (al_append demo_alog [e]) \<and> str e = ''set k 1.2''"
proof -
  have f: "str_find ''set k 1.2'' ''..'' 0 = None" "str_find ''set k 1.2'' ''%20'' 0 = None" by code_simp+
  have o: "\<not> co_show_states demo_options" "\<not> co_show_servers demo_options" "co_append demo_options = Some ''set k 1.2''"
    by (simp_all add: demo_options_def)
  from command_line_to_log [OF demo_two_live(1) demo_two(1) o _ f, of 0] show ?thesis by (auto simp: demo_world_def)
qed

theorem states_show_the_log_witness:
  "\<exists>r' head. handle_show_states demo_world (client_request ''/'') 0 demo_two = Some r' \<and>
    h_body (r_replies r' 0) = line ''host'' ''a'' @ head @ join (CHR 0x0A) [entry_row log_entry_sentry, entry_row demo_entry, entry_row demo_cfg_entry]"
proof -
  have c: "fst (confirm (client_request ''/'') 0 demo_two) = RC_GOOD"
    using no_dots_find [of "''/''"] by (simp add: confirm_def client_request_def no_dots_def)
  have s: "serialize_configuration demo_two = Some (join (CHR '','') (map fst (r_cluster demo_two)))"
    by (rule cluster_ok_serialize(1) [OF demo_clusters_ok(1)])
  have l: "log_rep (r_log demo_two) demo_alog" using demo_log2(2) by simp
  obtain r' head where r': "handle_show_states demo_world (client_request ''/'') 0 demo_two = Some r'"
    "h_body (r_replies r' 0) = line ''host'' ''a'' @ head @ line ''index'' (to_string (r_commit_index demo_two)) @
      line ''term'' (to_string (r_curr_term demo_two)) @ line ''leader'' (r_leader demo_two) @
      line ''servers'' (join (CHR '','') (map fst (r_cluster demo_two))) @
      (if r_role demo_two = LEADER then transfer_links demo_two else []) @ ''index'' @ [CHR 0x09] @ ''term'' @ [CHR 0x09] @ ''data'' @ [CHR 0x0A] @
      join (CHR 0x0A) (map entry_row (log_entry_sentry # al_entries demo_alog))"
    using states_show_the_log [OF l c _ _ s, of "''a''" "''1''" demo_world] by (auto simp: demo_two(5))
  show ?thesis
    by (rule exI [of _ r'], rule exI [of _ "head @ line ''index'' (to_string (r_commit_index demo_two)) @
      line ''term'' (to_string (r_curr_term demo_two)) @ line ''leader'' (r_leader demo_two) @
      line ''servers'' (join (CHR '','') (map fst (r_cluster demo_two))) @
      (if r_role demo_two = LEADER then transfer_links demo_two else []) @ ''index'' @ [CHR 0x09] @ ''term'' @ [CHR 0x09] @ ''data'' @ [CHR 0x0A]"])
      (use r' in \<open>simp del: demo_two\<close>)
qed

end
