(* ===== verification/Tool_Properties.thy ===== *)
theory Tool_Properties
  imports Http_Properties Server_Properties
begin

text \<open>
  The properties of the client programs: the order in which the interactive client sends, where a
  redirect takes it, and the log reader.
\<close>

section \<open>The interactive client\<close>

definition sent_commands :: "raft_client \<Rightarrow> string list" where
  "sent_commands c = concat (map (\<lambda>a. case a of Send s \<Rightarrow> [s] | _ \<Rightarrow> []) (rl_out c))"

text \<open>What was sent, and then what still waits behind the command in flight.\<close>

definition accounted :: "raft_client \<Rightarrow> string list" where
  "accounted c = sent_commands c @ drop 1 (rl_commands c)"

lemma accounted_write: "accounted (client_write s c) = accounted c @ [s]"
  by (cases "rl_commands c") (simp_all add: accounted_def sent_commands_def client_write_def act_def Let_def)

lemma accounted_written: "client_on_write False c = Some c' \<Longrightarrow> accounted c' = accounted c"
  by (cases "rl_commands c"; cases "drop 1 (rl_commands c)")
    (auto simp: accounted_def sent_commands_def client_on_write_def act_def Let_def)

text \<open>A run of the client: a line was typed, or the command in flight was written.\<close>

fun client_run :: "string option list \<Rightarrow> raft_client \<Rightarrow> raft_client option" where
  "client_run [] c = Some c"
| "client_run (Some s # es) c = client_run es (client_write s c)"
| "client_run (None # es) c = Option.bind (client_on_write False c) (client_run es)"

definition typed :: "string option list \<Rightarrow> string list" where
  "typed es = concat (map (\<lambda>e. case e of Some s \<Rightarrow> [s] | None \<Rightarrow> []) es)"

lemma client_run_accounts: "client_run es c = Some c' \<Longrightarrow> accounted c' = accounted c @ typed es"
proof (induction es c rule: client_run.induct)
  case (2 s es c)
  then show ?case by (simp add: accounted_write typed_def)
next
  case (3 es c)
  then show ?case by (auto simp: accounted_written typed_def split: bind_splits)
qed (simp add: typed_def)

text \<open>the client sends the lines in the order they were typed, each once: at every moment what it has
  sent, followed by what still waits, is what was typed.\<close>

theorem lines_sent_in_order:
  assumes "client_run es (new_client host port) = Some c"
  shows "\<exists>waiting. typed es = sent_commands c @ waiting \<and> length waiting = length (rl_commands c) - 1"
proof -
  have "accounted (new_client host port) = []" by (simp add: accounted_def sent_commands_def new_client_def act_def)
  then show ?thesis using client_run_accounts [OF assms] by (intro exI [of _ "drop 1 (rl_commands c)"]) (simp add: accounted_def)
qed

theorem lines_sent_in_order_witness:
  "\<exists>c. client_run [Some ''set k v'', Some ''get k'', None] (new_client ''h'' ''1'') = Some c \<and> sent_commands c = [''set k v'', ''get k'']"
proof -
  obtain c where c: "client_run [Some ''set k v'', Some ''get k'', None] (new_client ''h'' ''1'') = Some c" "length (rl_commands c) = 1"
    by (simp add: client_write_def client_on_write_def new_client_def act_def Let_def)
  from lines_sent_in_order [OF c(1)] c show ?thesis by (auto simp: typed_def)
qed

lemma find_colon:
  assumes "CHR '':'' \<notin> set host"
  shows "nxt \<le> length host \<Longrightarrow> str_find (host @ CHR '':'' # port) '':'' nxt = Some (length host)"
proof (induction "length host - nxt" arbitrary: nxt)
  case 0
  then show ?case by (subst str_find.simps) simp
next
  case (Suc d)
  then have n: "nxt < length host" by simp
  have "d = length host - Suc nxt" "Suc nxt \<le> length host" using Suc.hyps(2) n by auto
  then have IH: "str_find (host @ CHR '':'' # port) '':'' (Suc nxt) = Some (length host)" by (rule Suc.hyps(1))
  have "take 1 (drop nxt (host @ CHR '':'' # port)) = [host ! nxt]"
    using n by (simp add: Cons_nth_drop_Suc [symmetric])
  moreover have "host ! nxt \<noteq> CHR '':''" using assms n nth_mem by fastforce
  ultimately show ?case using n IH by (subst str_find.simps) simp
qed

text \<open>C34: a client whose command a follower refused connects to the leader the follower named, with every 8
  of the port replaced by 9, and sends the command again.\<close>

theorem redirected_to_leader:
  assumes "r_role (st_raft st) \<noteq> LEADER" and "cmd_type cmd \<in> {Set, Del}" and "r_leader (st_raft st) = host @ '':'' @ port"
    and "CHR '':'' \<notin> set host" and "rl_host c @ '':'' @ rl_port c \<noteq> host @ '':'' @ server_port port"
    and "rl_prev_command c = command" and "command \<noteq> []" and "rl_commands c = []"
  shows "\<exists>st' status data c'. handle_command os s cmd st = Some st' \<and> st_sent st' = st_sent st @ [(s, status, data)] \<and>
    client_on_connect False (client_on_resolve False (client_on_read (Some (reply_text status data)) c)) = c' \<and>
    rl_host c' = host \<and> rl_port c' = server_port port \<and> rl_commands c' = [command] \<and>
    (\<exists>msgs. rl_out c' = rl_out c @ map Print msgs @ [Close, Resolve host (server_port port), Connect, Read_Message, Send command])"
proof -
  let ?st = "st\<lparr>st_sent := st_sent st @ [(s, ''NOT_LEADER'', host @ '':'' @ port)]\<rparr>"
  let ?msgs = "[''(server '' @ rl_host c @ '':'' @ rl_port c @ '') '' @ (''NOT_LEADER '' @ host @ '':'' @ port) @ '' '',
      ''redirect to '' @ host @ '':'' @ server_port port]"
  have st: "handle_command os s cmd st = Some ?st"
    using assms(1-3) by (auto simp: handle_command_def session_write_def)
  have l: "length (reply_text ''NOT_LEADER'' (host @ '':'' @ port)) > 2"
    "take (length (reply_text ''NOT_LEADER'' (host @ '':'' @ port)) - 2) (reply_text ''NOT_LEADER'' (host @ '':'' @ port)) =
      ''NOT_LEADER '' @ host @ '':'' @ port"
    by (simp_all add: reply_text_def)
  have b: "str_find (''NOT_LEADER '' @ host @ '':'' @ port) '' '' 0 = Some 10" by (simp add: str_find.simps numeral_eq_Suc)
  have h: "str_find (host @ CHR '':'' # port) '':'' 0 = Some (length host)" using find_colon [OF assms(4), of 0] by simp
  have "client_on_read (Some (reply_text ''NOT_LEADER'' (host @ '':'' @ port))) c =
      act (Resolve host (server_port port)) (act Close (act (Print (''redirect to '' @ host @ '':'' @ server_port port))
        ((act (Print (''(server '' @ rl_host c @ '':'' @ rl_port c @ '') '' @ (''NOT_LEADER '' @ host @ '':'' @ port) @ '' '')) c)
          \<lparr>rl_host := host, rl_port := server_port port\<rparr>)))"
    unfolding client_on_read_def option.case Let_def l(2) using l(1) b h assms(5) by (simp add: numeral_eq_Suc)
  then have run: "client_on_connect False (client_on_resolve False (client_on_read (Some (reply_text ''NOT_LEADER'' (host @ '':'' @ port))) c)) =
      c\<lparr>rl_host := host, rl_port := server_port port, rl_commands := [command], rl_out := rl_out c @ map Print ?msgs @
        [Close, Resolve host (server_port port), Connect, Read_Message, Send command]\<rparr>" (is "?run = ?c")
    using assms(6-8) by (simp add: client_on_connect_def client_on_resolve_def client_write_def act_def)
  have "\<exists>msgs. rl_out ?c = rl_out c @ map Print msgs @ [Close, Resolve host (server_port port), Connect, Read_Message, Send command]"
    by (rule exI [of _ ?msgs]) simp
  moreover have "st_sent ?st = st_sent st @ [(s, ''NOT_LEADER'', host @ '':'' @ port)]" "rl_host ?c = host" "rl_port ?c = server_port port"
    "rl_commands ?c = [command]" by simp_all
  ultimately show ?thesis using st run by blast
qed

theorem redirected_to_leader_witness:
  "\<exists>st' c'. handle_command demo_os 7 demo_set (demo_storage ((demo_raft ''b:1'' demo_log)\<lparr>r_leader := ''a:8081''\<rparr>)) = Some st' \<and>
    client_on_connect False (client_on_resolve False (client_on_read (Some (reply_text ''NOT_LEADER'' ''a:8081''))
      ((new_client ''b'' ''9092'')\<lparr>rl_prev_command := ''set k v''\<rparr>))) = c' \<and> rl_host c' = ''a'' \<and> rl_port c' = ''9091''"
proof -
  have p: "server_port ''8081'' = ''9091''" by (simp add: server_port_def)
  from redirected_to_leader [of "demo_storage ((demo_raft ''b:1'' demo_log)\<lparr>r_leader := ''a:8081''\<rparr>)" demo_set "''a''" "''8081''"
      "(new_client ''b'' ''9092'')\<lparr>rl_prev_command := ''set k v''\<rparr>" "''set k v''" demo_os 7]
  obtain st' status data c' where "handle_command demo_os 7 demo_set (demo_storage ((demo_raft ''b:1'' demo_log)\<lparr>r_leader := ''a:8081''\<rparr>)) = Some st'"
    "st_sent st' = [(7, status, data)]" "rl_host c' = ''a''" "rl_port c' = ''9091''"
    "client_on_connect False (client_on_resolve False (client_on_read (Some (reply_text status data))
      ((new_client ''b'' ''9092'')\<lparr>rl_prev_command := ''set k v''\<rparr>))) = c'"
    unfolding p by (auto simp: demo_storage_def demo_raft_def demo_set_plain(3) new_client_def act_def)
  moreover have "handle_command demo_os 7 demo_set (demo_storage ((demo_raft ''b:1'' demo_log)\<lparr>r_leader := ''a:8081''\<rparr>)) =
    Some ((demo_storage ((demo_raft ''b:1'' demo_log)\<lparr>r_leader := ''a:8081''\<rparr>))\<lparr>st_sent := [(7, ''NOT_LEADER'', ''a:8081'')]\<rparr>)"
    by (simp add: handle_command_def session_write_def demo_storage_def demo_raft_def demo_set_plain(3))
  ultimately show ?thesis by auto
qed

section \<open>The log reader\<close>

text \<open>Room for what the rest of the input can append.\<close>

definition room :: "alog \<Rightarrow> nat \<Rightarrow> bool" where
  "room a n \<longleftrightarrow> total (al_entries a) + 80 * n < 2 ^ 59 \<and> al_last a + n < u64_bound"

lemma room_less: "room a n \<Longrightarrow> m \<le> n \<Longrightarrow> room a m"
  by (auto simp: room_def)

lemma room_cut: "room a n \<Longrightarrow> al_index a < i \<Longrightarrow> i \<le> al_last a \<Longrightarrow> room (al_chop a i) n \<and> room (al_drop a i d) n"
  using total_simps(3) [of "take (i - al_index a - 1) (al_entries a)" "drop (i - al_index a - 1) (al_entries a)"]
    total_simps(3) [of "take (i - al_index a) (al_entries a)" "drop (i - al_index a) (al_entries a)"]
  by (auto simp: room_def)

lemma reader_cuts:
  assumes "live_rep os l a" and "room a n"
  shows "\<exists>rc l' a'. chop os i True l = Some (rc, l') \<and> live_rep os l' a' \<and> room a' n"
    and "\<exists>rc l' a'. drop_entries os i True l = Some (rc, l') \<and> live_rep os l' a' \<and> room a' n"
  using assms file_log.cut_good [OF assms(1), of i True] file_log.cut_oor [OF assms(1), of i True]
    file_log.compact_good [OF assms(1), of i True] file_log.compact_oor [OF assms(1), of i True] room_cut [OF assms(2), of i]
  by blast+

lemma al_last_term_bound: "live_rep os l a \<Longrightarrow> al_last_term a < u64_bound"
proof -
  assume "live_rep os l a"
  then have wf: "list_all wf_entry (al_entries a)" "al_term a < u64_bound" by (auto simp: live_rep_def log_rep_def wf_alog_def)
  show ?thesis
  proof (cases "al_entries a = []")
    case False
    then have "wf_entry (last (al_entries a))" using wf(1) by (simp add: list_all_iff)
    then show ?thesis using False wf_entryD(4) by (auto simp: al_last_term_def)
  qed (use wf in \<open>simp add: al_last_term_def\<close>)
qed

lemma reader_append:
  assumes "live_rep os l a" and "room a (n + 1 + length s)"
  shows "\<exists>rc l' a'. append os [make_entry (lg_cfg l) s (last_entry_index l + 1) (last_entry_term l) cfg] True l = Some (rc, l') \<and>
    live_rep os l' a' \<and> room a' n"
proof -
  have rep: "log_rep l a" using assms(1) by (simp add: live_rep_def)
  have t: "last_entry_term l < u64_bound" using al_last_term_bound [OF assms(1)] rep_last_entry_index [OF rep] by simp
  note r = assms(2) [unfolded room_def]
  have b: "total (al_entries a) + length s + 72 < 2 ^ 59" "al_last a + 1 < u64_bound" using r by auto
  note e = live_append_entry [OF assms(1) t b, of cfg]
  obtain l' where l': "append os [make_entry (lg_cfg l) s (last_entry_index l + 1) (last_entry_term l) cfg] True l = Some (RC_GOOD, l')"
    "live_rep os l' (al_append a [make_entry (lg_cfg l) s (last_entry_index l + 1) (last_entry_term l) cfg])"
    using file_log.app_good [OF assms(1) e(1)] by blast
  have "room (al_append a [make_entry (lg_cfg l) s (last_entry_index l + 1) (last_entry_term l) cfg]) n"
    using e(2) r by (auto simp: room_def)
  with l' show ?thesis by blast
qed

lemma show_log_returns: "live_rep os l a \<Longrightarrow> \<exists>rows. show_log l = Some rows"
proof -
  assume "live_rep os l a"
  then have "log_rep l a" by (simp add: live_rep_def)
  from log_rows_rep [OF this] show ?thesis by (auto simp: log_rows_def show_log_def split: bind_splits)
qed

lemma reader_command_keeps:
  assumes "live_rep os l a" and "room a (length input + 1)"
  shows "\<exists>g rest l' out a'. reader_command junk os command input l = Some (g, rest, l', out) \<and> length rest \<le> length input \<and>
    live_rep os l' a' \<and> room a' (length rest)"
proof -
  obtain g rest l' out a' where r: "reader_command junk os command input l = Some (g, rest, l', out)" "live_rep os l' a'" "room a' (length rest)"
  proof (cases "command = ''append''")
    case True
    obtain s rest where w: "extract_word input = (s, rest)" by (cases "extract_word input")
    then have len: "length rest + length s \<le> length input" by (rule extract_word_length)
    have "room a (length rest + 1 + length s)" by (rule room_less [OF assms(2)]) (use len in simp)
    from reader_append [OF assms(1) this] w True that show ?thesis
      by (fastforce simp: reader_command_def Let_def)
  next
    case False
    obtain ok i rest where w: "extract_u64 junk input = (ok, i, rest)" by (cases "extract_u64 junk input")
    have len: "length rest \<le> length input" by (rule extract_u64_length [OF w])
    have r1: "room a (length rest)" "room a (length input)" by (rule room_less [OF assms(2)], use len in simp)+
    show ?thesis
    proof (cases "command = ''chop'' \<or> command = ''drop''")
      case True
      with reader_cuts [OF assms(1) r1(1), of i] w that show ?thesis by (fastforce simp: reader_command_def)
    next
      case False
      have flags: "\<exists>g :: bool. g" "\<exists>g :: bool. \<not> g" by (rule exI [of _ True], simp, rule exI [of _ False], simp)
      obtain rows where "show_log l = Some rows" using show_log_returns [OF assms(1)] by blast
      then have "\<exists>g out. reader_command junk os command input l = Some (g, input, l, out)"
        using False \<open>command \<noteq> ''append''\<close> by (simp add: reader_command_def flags)
      then show ?thesis using assms(1) r1(2) that by blast
    qed
  qed
  with reader_command_length [OF r(1)] show ?thesis by blast
qed

text \<open>C35: whatever is typed into the log reader, it reads to the end or to \<^verbatim>\<open>exit\<close> and leaves a log that is
  well formed and can be read again.\<close>

theorem reader_keeps_log:
  assumes "live_rep os l a" and "room a (length input)"
  shows "\<exists>l' out a'. reader_loop junk os input l = Some (l', out) \<and> live_rep os l' a'"
  using assms
proof (induction "length input" arbitrary: input l a rule: less_induct)
  case less
  obtain command input1 where w: "extract_word input = (command, input1)" by (cases "extract_word input")
  show ?case
  proof (cases "command = []")
    case True
    then show ?thesis using less.prems w by (subst reader_loop.simps) auto
  next
    case False
    then have len: "length input1 + 1 \<le> length input" using extract_word_length [OF w] by (cases command) auto
    have "room a (length input1 + 1)" by (rule room_less [OF less.prems(2) len])
    from reader_command_keeps [OF less.prems(1) this] obtain g rest l' out a' where
      r: "reader_command junk os command input1 l = Some (g, rest, l', out)" "length rest \<le> length input1"
      "live_rep os l' a'" "room a' (length rest)" by blast
    have "\<exists>l2 more a2. reader_loop junk os rest l' = Some (l2, more) \<and> live_rep os l2 a2"
      by (rule less.hyps [OF _ r(3,4)]) (use r(2) len in simp)
    then show ?thesis using False w r(1,3) by (subst reader_loop.simps) auto
  qed
qed

theorem reader_keeps_log_witness:
  "\<exists>l' out a'. reader_loop 1 demo_os ''append a:1 show drop 1 last chop'' demo_log2 = Some (l', out) \<and> live_rep demo_os l' a'"
  using reader_keeps_log [OF demo_live2, of "''append a:1 show drop 1 last chop''" 1] by (simp add: room_def)

end
