(* ===== verification/Raft_Startup.thy ===== *)
theory Raft_Startup
  imports Http_Handlers Config_Parser
begin

text \<open>
  Starting a server: \<open>init\<close>, \<open>load_config\<close>, \<open>bootstrap_cluster_config\<close>, \<open>start\<close> and
  \<open>stop\<close> of \<^verbatim>\<open>src/raft/raft_impl.hpp\<close>.  The text of the configuration file, what
  \<^verbatim>\<open>boost::program_options\<close> makes of it, and the address the kernel reports for a network
  interface (\<open>get_ipv4\<close>) are parameters; opening the listening sockets is left out.  The result
  is \<^const>\<open>None\<close> when an exception leaves \<open>init\<close> (\<^verbatim>\<open>std::stoi\<close> on text without a number) or a null
  pointer is followed.  \<^verbatim>\<open>time_point_t::min()\<close> is 0.
\<close>

section \<open>The vote file\<close>

text \<open>
  The current term and the vote live in a mapped file: eight bytes, then 32 bytes that hold a C
  string.  What \<^verbatim>\<open>memcpy\<close> copies behind the terminator is a parameter.
\<close>

definition vote_state_size :: nat where
  "vote_state_size = 40"

definition read_vote :: "mem \<Rightarrow> nat \<times> string" where
  "read_vote m = (load64 m 0, c_string (load_bytes m 8 32))"

definition store_term :: "nat \<Rightarrow> mem \<Rightarrow> mem" where
  "store_term t m = store_bytes m 0 (enc64 t)"

definition clear_voted :: "mem \<Rightarrow> mem" where
  "clear_voted m = store_bytes m 8 [CHR 0x00]"

definition copy_voted :: "(nat \<Rightarrow> char) \<Rightarrow> string \<Rightarrow> mem \<Rightarrow> mem" where
  "copy_voted behind s m =
     store_bytes m 8 (map (\<lambda>i. if i < length s then s ! i else if i = length s then CHR 0x00 else behind i) [0..<32])"

section \<open>Numbers\<close>

definition stoi :: "string \<Rightarrow> int option" where
  "stoi s = (case stol s of None \<Rightarrow> None | Some v \<Rightarrow> if v < - (2 ^ 31) \<or> 2 ^ 31 - 1 < v then None else Some v)"

text \<open>An \<^verbatim>\<open>int\<close> assigned to a \<^verbatim>\<open>uint32_t\<close>; the second argument is the default.\<close>

definition number_option :: "string \<Rightarrow> nat \<Rightarrow> config_parser \<Rightarrow> nat option" where
  "number_option name d p =
     (case config_find name p of None \<Rightarrow> Some d | Some s \<Rightarrow> map_option (\<lambda>v. nat (v mod 2 ^ 32)) (stoi s))"

text \<open>A port: the default, or a number from 1024 to 65535, else \<^const>\<open>RC_CONF_ERROR\<close>.\<close>

definition port_option :: "string \<Rightarrow> string \<Rightarrow> config_parser \<Rightarrow> (rc_errno + string) option" where
  "port_option name d p =
     (case config_find name p of
        None \<Rightarrow> Some (Inr d)
      | Some s \<Rightarrow> map_option (\<lambda>v. if v < 1024 \<or> 65535 < v then Inl RC_CONF_ERROR else Inr s) (stoi s))"

definition default_http_port :: string where
  "default_http_port = ''2026''"

section \<open>The configuration of the cluster\<close>

definition bootstrap_cluster_config :: "os \<Rightarrow> config_parser \<Rightarrow> raft \<Rightarrow> (rc_errno \<times> raft) option" where
  "bootstrap_cluster_config os p r =
     (let servers = (case config_find ''servers'' p of None \<Rightarrow> [] | Some s \<Rightarrow> split s '','') in
      if servers = [] then Some (RC_GOOD, r)
      else if \<not> is_ipv4 (servers ! 0) then Some (RC_CONF_ERROR, r)
      else
        let address = make_id r (servers ! 0) in
        if r_self_id r \<noteq> address then Some (RC_CONF_ERROR, r)
        else case make_node address (r_rpc_port r) r of (a, r1) \<Rightarrow>
          let r2 = emplace address a r1
          in do {
            conf \<leftarrow> serialize_configuration r2;
            let entry = make_entry (lg_cfg (r_log r2)) conf (last_entry_index (r_log r2) + 1) 1 True
            in do {
              (rc, l) \<leftarrow> append os [entry] True (r_log r2);
              let r3 = r2\<lparr>r_log := l\<rparr>
              in Some (if rc \<noteq> RC_GOOD then (rc, r3)
                       else (RC_GOOD, (set_node a (\<lambda>n. n\<lparr>n_next_index := last_entry_index l + 1, n_match_index := last_entry_index l\<rparr>) r3)
                              \<lparr>r_commit_index := e_index entry\<rparr>))
            }
          })"

definition load_server :: "string \<Rightarrow> raft \<Rightarrow> raft" where
  "load_server address r =
     (if contains r address then r
      else case make_node address (if address = r_self_id r then r_rpc_port r else default_rpc_port) r of
        (a, r') \<Rightarrow> emplace address a r')"

definition load_config :: "os \<Rightarrow> config_parser \<Rightarrow> raft \<Rightarrow> (rc_errno \<times> raft) option" where
  "load_config os p r =
     (if lg_cfg (r_log r) = 0 \<and> last_config (r_log r) = [] then bootstrap_cluster_config os p r
      else
        let conf = (if lg_cfg (r_log r) \<noteq> 0 then config (r_log r) else last_config (r_log r));
            r1 = r\<lparr>r_commit_index := last_index (r_log r), r_last_applied := last_index (r_log r)\<rparr>
        in Some (RC_GOOD, fold load_server (split conf '','') r1))"

section \<open>init\<close>

record boot =
  bt_parser :: config_parser
  bt_raft :: raft
  bt_vote :: mapped_file
  bt_fs :: fs

type_synonym stage = "boot \<Rightarrow> (rc_errno \<times> boot) option"

definition and_then :: "(rc_errno \<times> boot) option \<Rightarrow> stage \<Rightarrow> (rc_errno \<times> boot) option" where
  "and_then x f = do { (rc, b) \<leftarrow> x; if rc = RC_GOOD then f b else Some (rc, b) }"

definition on_raft :: "(raft \<Rightarrow> raft) \<Rightarrow> boot \<Rightarrow> boot" where
  "on_raft f b = b\<lparr>bt_raft := f (bt_raft b)\<rparr>"

definition init_parser :: "program_options \<Rightarrow> (string \<Rightarrow> string option) \<Rightarrow> stage" where
  "init_parser po read b = map_option (\<lambda>(rc, p). (rc, b\<lparr>bt_parser := p\<rparr>)) (config_parse po read (bt_parser b))"

definition init_vote :: "world \<Rightarrow> stage" where
  "init_vote w b =
     (case config_find ''path'' (bt_parser b) of
        None \<Rightarrow> Some (RC_CONF_ERROR, b)
      | Some path \<Rightarrow>
          let b1 = on_raft (\<lambda>r. init_transfer w (set_path w path r)) b
          in case config_find ''vote_file'' (bt_parser b) of
               None \<Rightarrow> Some (RC_CONF_ERROR, b1)
             | Some f \<Rightarrow>
                 (case map_file (w_os w) (new_mapped_file f vote_state_size 10) (bt_fs b) of (rc, mf, fs) \<Rightarrow>
                    if rc \<noteq> RC_GOOD \<and> rc \<noteq> RC_MMAP_NEW_FILE then Some (rc, b1\<lparr>bt_vote := mf, bt_fs := fs\<rparr>)
                    else
                      let mf1 = snd (sync_all (w_os w) mf);
                          (t, v) = read_vote (mf_mem mf1)
                      in Some (RC_GOOD, on_raft (\<lambda>r. r\<lparr>r_curr_term := t, r_voted_for := v\<rparr>) (b1\<lparr>bt_vote := mf1, bt_fs := fs\<rparr>))))"

definition init_log :: "os \<Rightarrow> stage" where
  "init_log os b =
     (case config_find ''stat_file'' (bt_parser b) of
        None \<Rightarrow> Some (RC_CONF_ERROR, b)
      | Some sf \<Rightarrow>
          (case config_find ''ldbs_file'' (bt_parser b) of
             None \<Rightarrow> Some (RC_CONF_ERROR, b)
           | Some lf \<Rightarrow>
               map_option (\<lambda>(rc, l, fs). (rc, on_raft (\<lambda>r. r\<lparr>r_log := l\<rparr>) (b\<lparr>bt_fs := fs\<rparr>)))
                 (init os (bt_fs b) (new_logger sf lf (5 / 4)))))"

text \<open>
  An interface with a bad address is an error; without the option the message about it reads through
  the null pointer (\<^verbatim>\<open><<\<close> binds tighter than \<^verbatim>\<open>?:\<close>), which is \<^const>\<open>None\<close>.
\<close>

definition init_address :: "(string \<Rightarrow> string) \<Rightarrow> stage" where
  "init_address ipv4_of b =
     (let address = ipv4_of (case config_find ''interface'' (bt_parser b) of None \<Rightarrow> ''lo'' | Some i \<Rightarrow> i);
          b1 = on_raft (\<lambda>r. r\<lparr>r_self_id := address, r_interface_address := address\<rparr>) b
      in if address = [] \<or> \<not> is_ipv4 address then
           (if config_find ''interface'' (bt_parser b) = None then None else Some (RC_CONF_ERROR, b1))
         else Some (RC_GOOD, b1))"

definition init_numbers :: stage where
  "init_numbers b =
     do {
       min \<leftarrow> number_option ''min_election_timeout'' 150 (bt_parser b);
       max \<leftarrow> number_option ''max_election_timeout'' 300 (bt_parser b);
       rounds \<leftarrow> number_option ''server_catch_up_rounds'' 10 (bt_parser b);
       election \<leftarrow> number_option ''election_rpc_timeout'' 70 (bt_parser b);
       rate \<leftarrow> number_option ''heartbeat_rate'' 80 (bt_parser b);
       heartbeat \<leftarrow> number_option ''heartbeat_rpc_timeout'' 70 (bt_parser b);
       transfer \<leftarrow> number_option ''transfer_rpc_timeout'' 0 (bt_parser b);
       snapshot \<leftarrow> number_option ''snapshot_rate'' 120 (bt_parser b);
       Some (RC_GOOD, on_raft (\<lambda>r. r\<lparr>r_min_election_timeout := min, r_max_election_timeout := max,
         r_server_catch_up_rounds := rounds, r_election_rpc_timeout := election, r_heartbeat_rate := rate,
         r_heartbeat_rpc_timeout := heartbeat, r_transfer_rpc_timeout := transfer, r_snapshot_rate := snapshot\<rparr>) b)
     }"

text \<open>Any other text leaves the flag as it was, and the constructor does not set it.\<close>

definition init_compaction :: stage where
  "init_compaction b =
     Some (RC_GOOD, on_raft (\<lambda>r. case config_find ''log_compaction_enabled'' (bt_parser b) of
         None \<Rightarrow> r\<lparr>r_log_compaction_enabled := True\<rparr>
       | Some s \<Rightarrow>
           if s = ''true'' \<or> s = ''1'' then r\<lparr>r_log_compaction_enabled := True\<rparr>
           else if s = ''false'' \<or> s = ''0'' then r\<lparr>r_log_compaction_enabled := False\<rparr> else r) b)"

definition init_rpc :: stage where
  "init_rpc b =
     (let b1 = on_raft (\<lambda>r. case config_find ''rpc_host'' (bt_parser b) of None \<Rightarrow> r | Some h \<Rightarrow> r\<lparr>r_rpc_host := h\<rparr>) b
      in map_option (\<lambda>x. case x of
             Inl rc \<Rightarrow> (rc, b1)
           | Inr port \<Rightarrow> (RC_GOOD, on_raft (\<lambda>r. let r1 = r\<lparr>r_rpc_port := port\<rparr> in r1\<lparr>r_self_id := make_id r1 (r_self_id r1)\<rparr>) b1))
           (port_option ''rpc_port'' default_rpc_port (bt_parser b)))"

definition init_cluster :: "os \<Rightarrow> stage" where
  "init_cluster os b = map_option (\<lambda>(rc, r). (rc, b\<lparr>bt_raft := r\<rparr>)) (load_config os (bt_parser b) (bt_raft b))"

definition init_http :: stage where
  "init_http b =
     (let b1 = on_raft (\<lambda>r. case config_find ''http_host'' (bt_parser b) of None \<Rightarrow> r | Some h \<Rightarrow> r\<lparr>r_http_host := h\<rparr>) b
      in map_option (\<lambda>x. case x of
             Inl rc \<Rightarrow> (rc, b1)
           | Inr port \<Rightarrow> (RC_GOOD, on_raft (\<lambda>r. r\<lparr>r_http_port := port, r_inited := True\<rparr>) b1))
           (port_option ''http_port'' default_http_port (bt_parser b)))"

definition raft_init :: "program_options \<Rightarrow> (string \<Rightarrow> string option) \<Rightarrow> (string \<Rightarrow> string) \<Rightarrow> world \<Rightarrow> stage" where
  "raft_init po read ipv4_of w b =
     (if r_inited (bt_raft b) then Some (RC_GOOD, b)
      else and_then (and_then (and_then (and_then (and_then (and_then (and_then (and_then
        (init_parser po read b) (init_vote w)) (init_log (w_os w))) (init_address ipv4_of)) init_numbers) init_compaction)
        init_rpc) (init_cluster (w_os w))) init_http)"

section \<open>start and stop\<close>

text \<open>The event loop and the two threads run what the other theories model.\<close>

definition raft_start :: "world \<Rightarrow> raft \<Rightarrow> rc_errno \<times> raft" where
  "raft_start w r =
     (if \<not> r_inited r then (RC_ERROR, r)
      else if r_started r then (RC_GOOD, r)
      else
        let r1 = r\<lparr>r_started_at := w_now w, r_last_heartbeat := 0\<rparr>;
            r2 = (if cluster_size r1 \<noteq> 0 then reset_election_timer r1 else r1)
        in (RC_GOOD, r2\<lparr>r_started := True\<rparr>))"

definition raft_stop :: "raft \<Rightarrow> rc_errno \<times> raft" where
  "raft_stop r =
     (RC_GOOD,
      if r_started r then
        r\<lparr>r_started := False, r_log_committed_queue := push True (r_log_committed_queue r),
          r_data_transfer_queue := push True (r_data_transfer_queue r)\<rparr>
      else r)"

end
