(* ===== verification/Startup_Properties.thy ===== *)
theory Startup_Properties
  imports Raft_Startup Membership_Properties
begin

text \<open>
  The properties of starting: the term and the vote are in the vote file byte for byte, a server that
  starts again has the term, vote, log and members it had, and a first start makes a cluster of one.
\<close>

section \<open>The vote file\<close>

lemma c_string_append: "CHR 0x00 \<in> set s \<Longrightarrow> c_string (s @ t) = c_string s"
  unfolding c_string_def by (rule takeWhile_append1) auto

lemma load64_store_behind: "8 \<le> p \<Longrightarrow> load64 (store_bytes m p bs) 0 = load64 m 0"
  by (simp add: load_store_disjoint)

lemma read_stored_term: "t < u64_bound \<Longrightarrow> read_vote (store_term t m) = (t, snd (read_vote m))"
  by (simp add: read_vote_def store_term_def mem_simps enc_simps)

text \<open>C38: what the code writes into the vote file is what it reads back: setting the term keeps the vote,
  clearing or copying a vote keeps the term, and a copied name of less than 32 bytes is read back as the
  C string it is, whatever was behind it in memory.\<close>

theorem vote_file_written:
  assumes "t < u64_bound" and "length s < 32"
  shows "read_vote (store_term t m) = (t, snd (read_vote m)) \<and>
    read_vote (clear_voted m) = (fst (read_vote m), []) \<and>
    read_vote (copy_voted behind s m) = (fst (read_vote m), c_string s)"
proof (intro conjI)
  show "read_vote (store_term t m) = (t, snd (read_vote m))"
    using assms(1) by (rule read_stored_term)
  have "load_bytes (store_bytes m 8 [CHR 0x00]) 8 1 = [CHR 0x00]" by (rule load_store_same) simp
  then have "load_bytes (store_bytes m 8 [CHR 0x00]) 8 32 = CHR 0x00 # load_bytes (store_bytes m 8 [CHR 0x00]) 9 31"
    using load_bytes_add [of "store_bytes m 8 [CHR 0x00]" 8 1 31] by simp
  then show "read_vote (clear_voted m) = (fst (read_vote m), [])"
    by (simp add: read_vote_def clear_voted_def load64_store_behind c_string_def)
  let ?bs = "map (\<lambda>i. if i < length s then s ! i else if i = length s then CHR 0x00 else behind i) [0..<32]"
  have bs: "?bs = s @ CHR 0x00 # map behind [length s + 1..<32]"
    by (rule nth_equalityI) (use assms(2) in \<open>auto simp: nth_append nth_Cons'\<close>)
  have "c_string (s @ CHR 0x00 # x) = c_string s" for x
    by (induction s) (simp_all add: c_string_def)
  then have "c_string ?bs = c_string s" unfolding bs by simp
  then show "read_vote (copy_voted behind s m) = (fst (read_vote m), c_string s)"
    by (simp add: read_vote_def copy_voted_def load64_store_behind load_store_same)
qed

theorem vote_file_written_witness:
  "read_vote (store_term 7 (copy_voted (\<lambda>_. CHR ''x'') ''a:1'' zero_mem)) = (7, ''a:1'')"
  using vote_file_written [of 7 "''a:1''" zero_mem "\<lambda>_. CHR ''x''"]
    vote_file_written [of 7 "''a:1''" "copy_voted (\<lambda>_. CHR ''x'') ''a:1'' zero_mem"] by (simp add: c_string_def)

lemma map_vote_existing:
  assumes "os_good os" and "fs f = Some (n, m)" and "40 \<le> n" and "f \<noteq> []"
  obtains mf where "map_file os (new_mapped_file f vote_state_size 10) fs = (RC_GOOD, mf, fs)" "read_vote (mf_mem mf) = read_vote m"
proof -
  let ?mf = "(new_mapped_file f vote_state_size 10)\<lparr>mf_fd := os_fd os f, mf_mapped := True, mf_mem := file_bytes fs f, mf_live := 1\<rparr>"
  have "map_file os (new_mapped_file f vote_state_size 10) fs = (RC_GOOD, ?mf, fs)"
    using assms by (simp add: map_file_def map_open_def map_size_def new_mapped_file_def vote_state_size_def Let_def)
  moreover have "load_bytes (file_bytes fs f) p k = load_bytes m p k" if "p + k \<le> 40" for p k
    by (rule load_bytes_cong) (use that assms(2,3) in \<open>simp add: file_bytes_def\<close>)
  then have "read_vote (mf_mem ?mf) = read_vote m" by (simp add: read_vote_def)
  ultimately show ?thesis by (rule that)
qed

section \<open>Starting again\<close>

definition number_names :: "string set" where
  "number_names = {''min_election_timeout'', ''max_election_timeout'', ''server_catch_up_rounds'', ''election_rpc_timeout'',
     ''heartbeat_rate'', ''heartbeat_rpc_timeout'', ''transfer_rpc_timeout'', ''snapshot_rate''}"

definition conf_ok :: "config_parser \<Rightarrow> bool" where
  "conf_ok p \<longleftrightarrow> (\<forall>k \<in> number_names. \<forall>s. config_find k p = Some s \<longrightarrow> stoi s \<noteq> None) \<and>
     (\<exists>port. port_option ''rpc_port'' default_rpc_port p = Some (Inr port)) \<and>
     (\<exists>port. port_option ''http_port'' default_http_port p = Some (Inr port))"

definition same_data :: "raft \<Rightarrow> raft \<Rightarrow> bool" where
  "same_data r r' \<longleftrightarrow> r_curr_term r' = r_curr_term r \<and> r_voted_for r' = r_voted_for r \<and> r_log r' = r_log r \<and>
     r_cluster r' = r_cluster r \<and> r_commit_index r' = r_commit_index r \<and> r_last_applied r' = r_last_applied r \<and> r_role r' = r_role r"

lemma same_data_trans: "same_data r1 r2 \<Longrightarrow> same_data r2 r3 \<Longrightarrow> same_data r1 r3"
  by (simp add: same_data_def)

lemma number_some: "k \<in> number_names \<Longrightarrow> conf_ok p \<Longrightarrow> \<exists>n. number_option k d p = Some n"
  by (auto simp: conf_ok_def number_option_def split: option.splits)

lemma init_numbers_ok: "conf_ok (bt_parser b) \<Longrightarrow>
    \<exists>b'. init_numbers b = Some (RC_GOOD, b') \<and> bt_parser b' = bt_parser b \<and> same_data (bt_raft b) (bt_raft b') \<and>
      r_interface_address (bt_raft b') = r_interface_address (bt_raft b) \<and> r_self_id (bt_raft b') = r_self_id (bt_raft b)"
proof -
  assume ok: "conf_ok (bt_parser b)"
  have "\<exists>n. number_option k d (bt_parser b) = Some n" if "k \<in> number_names" for k d using number_some [OF that ok] .
  then have "\<exists>n. number_option ''min_election_timeout'' 150 (bt_parser b) = Some n" "\<exists>n. number_option ''max_election_timeout'' 300 (bt_parser b) = Some n"
    "\<exists>n. number_option ''server_catch_up_rounds'' 10 (bt_parser b) = Some n" "\<exists>n. number_option ''election_rpc_timeout'' 70 (bt_parser b) = Some n"
    "\<exists>n. number_option ''heartbeat_rate'' 80 (bt_parser b) = Some n" "\<exists>n. number_option ''heartbeat_rpc_timeout'' 70 (bt_parser b) = Some n"
    "\<exists>n. number_option ''transfer_rpc_timeout'' 0 (bt_parser b) = Some n" "\<exists>n. number_option ''snapshot_rate'' 120 (bt_parser b) = Some n"
    by (simp_all add: number_names_def)
  then show ?thesis by (auto simp: init_numbers_def on_raft_def same_data_def)
qed

lemma init_rest_ok:
  assumes "conf_ok (bt_parser b)"
  shows "\<exists>b'. and_then (init_compaction b) init_rpc = Some (RC_GOOD, b') \<and> bt_parser b' = bt_parser b \<and> same_data (bt_raft b) (bt_raft b')"
    and "\<exists>b'. init_http b = Some (RC_GOOD, b') \<and> same_data (bt_raft b) (bt_raft b') \<and> r_inited (bt_raft b')"
  using assms
  by (auto simp: conf_ok_def and_then_def init_compaction_def init_rpc_def init_http_def on_raft_def same_data_def Let_def split: option.split)

lemma load_servers_members:
  "fst ` set (r_cluster (fold load_server xs r)) = fst ` set (r_cluster r) \<union> set xs \<and>
   r_curr_term (fold load_server xs r) = r_curr_term r \<and> r_voted_for (fold load_server xs r) = r_voted_for r \<and>
   r_log (fold load_server xs r) = r_log r \<and> r_commit_index (fold load_server xs r) = r_commit_index r \<and>
   r_last_applied (fold load_server xs r) = r_last_applied r \<and> r_role (fold load_server xs r) = r_role r"
proof (induction xs arbitrary: r)
  case (Cons x xs)
  have "fst ` set (r_cluster (load_server x r)) = insert x (fst ` set (r_cluster r)) \<and>
    r_curr_term (load_server x r) = r_curr_term r \<and> r_voted_for (load_server x r) = r_voted_for r \<and> r_log (load_server x r) = r_log r \<and>
    r_commit_index (load_server x r) = r_commit_index r \<and> r_last_applied (load_server x r) = r_last_applied r \<and> r_role (load_server x r) = r_role r"
    by (auto simp: load_server_def make_node_def emplace_def contains_def Let_def split: prod.splits)
  with Cons.IH [of "load_server x r"] show ?case by simp
qed simp

lemma number_names_cases:
  assumes "k \<in> number_names"
  obtains "k = ''min_election_timeout''" | "k = ''max_election_timeout''" | "k = ''server_catch_up_rounds''"
    | "k = ''election_rpc_timeout''" | "k = ''heartbeat_rate''" | "k = ''heartbeat_rpc_timeout''" | "k = ''transfer_rpc_timeout''"
    | "k = ''snapshot_rate''"
  using assms unfolding number_names_def by (elim insertE emptyE)

section \<open>The inputs of the examples\<close>

lemma append_in_place:
  assumes "append os es sync l = Some (rc, l')" and "lg_payload l + 8 + sum_list (map e_size es) < lg_ldbs_size l"
  shows "mf_file (lg_ldbs_map l') = mf_file (lg_ldbs_map l) \<and> lg_stat_map l' = lg_stat_map l \<and>
    lg_ldbs_size l' = lg_ldbs_size l \<and> lg_stat_size l' = lg_stat_size l"
proof -
  have "grow_ldbs_loop os (sum_list (map e_size es)) l = Some (RC_GOOD, l)"
    using assms(2) by (subst grow_ldbs_loop.simps) (auto dest: le_less_trans)
  then show ?thesis using assms(1)
    by (auto simp: append_def Let_def dest: sync_range_cases(4) split: if_splits prod.splits)
qed

lemma demo_log2_files: "mf_file (lg_ldbs_map demo_log2) = ''ldbs''" "mf_file (lg_stat_map demo_log2) = ''stat''"
  "lg_ldbs_size demo_log2 = 4096" "lg_stat_size demo_log2 = 4096"
  using append_in_place [OF demo_log2(1)] demo_log by simp_all

definition demo_options :: "(string \<times> string) list" where
  "demo_options = [(''path'', ''snap''), (''vote_file'', ''vote''), (''stat_file'', ''stat''), (''ldbs_file'', ''ldbs'')]"

definition demo_parser :: "config_parser \<Rightarrow> config_parser" where
  "demo_parser p = p\<lparr>cp_config := demo_options, cp_inited := True\<rparr>"

definition demo_stopped :: raft where
  "demo_stopped = (demo_raft [] demo_log)\<lparr>r_inited := False, r_cluster := []\<rparr>"

lemma demo_find:
  "config_find ''path'' (demo_parser p) = Some ''snap''" "config_find ''vote_file'' (demo_parser p) = Some ''vote''"
  "config_find ''stat_file'' (demo_parser p) = Some ''stat''" "config_find ''ldbs_file'' (demo_parser p) = Some ''ldbs''"
  "config_find ''rpc_port'' (demo_parser p) = None" "config_find ''http_port'' (demo_parser p) = None"
  "config_find ''interface'' (demo_parser p) = None"
  by (simp_all add: config_find_def demo_parser_def demo_options_def)

lemma demo_conf_ok: "conf_ok (demo_parser p)"
proof -
  have "config_find k (demo_parser p) = None" if "k \<in> number_names" for k
    using that by (elim number_names_cases) (simp_all add: config_find_def demo_parser_def demo_options_def)
  then show ?thesis by (simp add: conf_ok_def port_option_def demo_find)
qed

lemma demo_parse:
  "config_parse (\<lambda>_. Some (flatten demo_options)) (\<lambda>_. Some []) (new_config_parser ''conf'') = Some (RC_GOOD, demo_parser (new_config_parser ''conf''))"
  by (simp add: config_parse_def new_config_parser_def flatten_def demo_options_def demo_parser_def)

lemma split_ab: "set (split ''a:1,b:2'' '','') = {''a:1'', ''b:2''}"
  by (simp add: split_pieces pieces.simps)

text \<open>The loopback address is an address.\<close>

lemma loopback: "is_ipv4 ''127.0.0.1''"
  by (simp add: is_ipv4_def ipv4_loop_fields Address.fields_def octet_ok_def stol_def Let_def is_space_def is_digit_def digits_value_def char_digit_def)

text \<open>C27: a server that starts on the files it left behind has the term and the vote of the vote file, the
  entries and the compaction point of its log, exactly the members of the configuration in force, and
  nothing committed or applied beyond the compaction point.\<close>

theorem server_restarts:
  assumes "config_parse po read p0 = Some (RC_GOOD, p)" and "conf_ok p"
    and "config_find ''path'' p = Some path" and "config_find ''vote_file'' p = Some vf"
    and "config_find ''stat_file'' p = Some sf" and "config_find ''ldbs_file'' p = Some lf"
    and "os_good (w_os w)" and "fs vf = Some (n, m)" and "40 \<le> n" and "vf \<noteq> []" and "vf \<noteq> lf" and "vf \<noteq> sf"
    and "log_rep l a" and "mf_file (lg_ldbs_map l) = lf" and "mf_file (lg_stat_map l) = sf"
    and "lf \<noteq> sf" and "lf \<noteq> []" and "sf \<noteq> []" and "lg_ldbs_size l < size_cap" and "lg_stat_size l < size_cap"
    and "lg_cfg l = cfg_after 0 (al_entries a)" and "lg_cfg l \<noteq> 0 \<or> last_config l \<noteq> []"
    and "is_ipv4 (ipv4_of (case config_find ''interface'' p of None \<Rightarrow> ''lo'' | Some i \<Rightarrow> i))"
    and "\<not> r_inited r" and "r_cluster r = []"
  shows "\<exists>b. raft_init po read ipv4_of w \<lparr>bt_parser = p0, bt_raft = r, bt_vote = v0, bt_fs = left_behind l fs\<rparr> = Some (RC_GOOD, b) \<and>
    (r_curr_term (bt_raft b), r_voted_for (bt_raft b)) = read_vote m \<and> r_role (bt_raft b) = r_role r \<and> r_inited (bt_raft b) \<and>
    log_rep (r_log (bt_raft b)) a \<and> r_commit_index (bt_raft b) = al_index a \<and> r_last_applied (bt_raft b) = al_index a \<and>
    fst ` set (r_cluster (bt_raft b)) = set (split (if lg_cfg l \<noteq> 0 then config l else last_config l) '','')"
proof -
  let ?fs = "left_behind l fs"
  define b1 where "b1 = \<lparr>bt_parser = p, bt_raft = r, bt_vote = v0, bt_fs = ?fs\<rparr>"
  have vfs: "?fs vf = Some (n, m)" using assms(8,11,12,14,15) by (simp add: left_behind_def fs_view_def)
  obtain mf where mf: "map_file (w_os w) (new_mapped_file vf vote_state_size 10) ?fs = (RC_GOOD, mf, ?fs)" "read_vote (mf_mem mf) = read_vote m"
    by (rule map_vote_existing [where fs = ?fs and f = vf, OF assms(7) vfs assms(9,10)])
  define b2 where "b2 = on_raft (\<lambda>r. r\<lparr>r_curr_term := fst (read_vote m), r_voted_for := snd (read_vote m)\<rparr>)
      ((on_raft (\<lambda>r. init_transfer w (set_path w path r)) b1)\<lparr>bt_vote := snd (sync_all (w_os w) mf), bt_fs := ?fs\<rparr>)"
  have s2: "init_vote w b1 = Some (RC_GOOD, b2)"
    using assms(3,4) mf by (simp add: init_vote_def b1_def b2_def on_raft_def sync_all_mem Let_def split: prod.split)
  obtain l' where l': "init (w_os w) ?fs (new_logger sf lf (5 / 4)) = Some (RC_GOOD, l', ?fs)" "log_rep l' a" "lg_cfg l' = lg_cfg l"
    using init_reopen [OF assms(13,7,14-20)] assms(21) by metis
  define b3 where "b3 = on_raft (\<lambda>r. r\<lparr>r_log := l'\<rparr>) b2"
  have s3: "init_log (w_os w) b2 = Some (RC_GOOD, b3)"
    using assms(5,6) l'(1) by (simp add: init_log_def b2_def b1_def b3_def on_raft_def)
  define addr where "addr = ipv4_of (case config_find ''interface'' p of None \<Rightarrow> ''lo'' | Some i \<Rightarrow> i)"
  define b4 where "b4 = on_raft (\<lambda>r. r\<lparr>r_self_id := addr, r_interface_address := addr\<rparr>) b3"
  have ip: "addr \<noteq> []" "is_ipv4 addr" using assms(23) by (auto simp: addr_def is_ipv4_def ipv4_loop.simps [of "[]"])
  have s4: "init_address ipv4_of b3 = Some (RC_GOOD, b4)"
    using ip by (simp add: init_address_def b4_def b3_def b2_def b1_def on_raft_def addr_def Let_def)
  have b4: "bt_parser b4 = p" "r_curr_term (bt_raft b4) = fst (read_vote m)" "r_voted_for (bt_raft b4) = snd (read_vote m)"
    "r_log (bt_raft b4) = l'" "r_cluster (bt_raft b4) = []" "r_role (bt_raft b4) = r_role r"
    using assms(25) by (simp_all add: b4_def b3_def b2_def b1_def on_raft_def set_path_def init_transfer_def)
  have ok4: "conf_ok (bt_parser b4)" using assms(2) b4(1) by simp
  obtain b5 where s5: "init_numbers b4 = Some (RC_GOOD, b5)" "bt_parser b5 = p" "same_data (bt_raft b4) (bt_raft b5)"
    using init_numbers_ok [OF ok4] b4(1) by auto
  have ok5: "conf_ok (bt_parser b5)" using assms(2) s5(2) by simp
  obtain b6 where s6: "and_then (init_compaction b5) init_rpc = Some (RC_GOOD, b6)" "bt_parser b6 = p" "same_data (bt_raft b5) (bt_raft b6)"
    using init_rest_ok(1) [OF ok5] s5(2) by auto
  note d6 = same_data_trans [OF s5(3) s6(3), unfolded same_data_def]
  have reads: "config l' = config l" "last_config l' = last_config l" "last_index l' = al_index a"
    using rep_get [OF l'(2)] rep_get [OF assms(13)] rep_last_index [OF l'(2)] rep_last_index [OF assms(13)] l'(3)
    by (simp_all add: config_def config_entry_def)
  let ?conf = "if lg_cfg l \<noteq> 0 then config l else last_config l"
  define r7 where "r7 = fold load_server (split ?conf '','') ((bt_raft b6)\<lparr>r_commit_index := al_index a, r_last_applied := al_index a\<rparr>)"
  have "load_config (w_os w) p (bt_raft b6) = Some (RC_GOOD, r7)"
    using assms(22) d6 b4(4) l'(3) reads by (auto simp: load_config_def r7_def)
  then have s7: "init_cluster (w_os w) b6 = Some (RC_GOOD, b6\<lparr>bt_raft := r7\<rparr>)" by (simp add: init_cluster_def s6(2))
  note m7 = load_servers_members [of "split ?conf '',''" "(bt_raft b6)\<lparr>r_commit_index := al_index a, r_last_applied := al_index a\<rparr>", folded r7_def]
  have ok7: "conf_ok (bt_parser (b6\<lparr>bt_raft := r7\<rparr>))" using assms(2) s6(2) by simp
  obtain b8 where s8: "init_http (b6\<lparr>bt_raft := r7\<rparr>) = Some (RC_GOOD, b8)" "same_data r7 (bt_raft b8)" "r_inited (bt_raft b8)"
    using init_rest_ok(2) [OF ok7] by auto
  have "init_parser po read \<lparr>bt_parser = p0, bt_raft = r, bt_vote = v0, bt_fs = ?fs\<rparr> = Some (RC_GOOD, b1)"
    using assms(1) by (simp add: init_parser_def b1_def)
  then have "raft_init po read ipv4_of w \<lparr>bt_parser = p0, bt_raft = r, bt_vote = v0, bt_fs = ?fs\<rparr> = Some (RC_GOOD, b8)"
    using assms(24) s2 s3 s4 s5(1) s6(1) s7 s8(1) by (simp add: raft_init_def and_then_def split: bind_splits)
  with s8(2,3) m7 d6 b4 l'(2) show ?thesis by (auto simp: same_data_def)
qed

theorem server_restarts_witness:
  "\<exists>b. raft_init (\<lambda>_. Some (flatten demo_options)) (\<lambda>_. Some []) (\<lambda>_. ''127.0.0.1'') demo_world
      \<lparr>bt_parser = new_config_parser ''conf'', bt_raft = demo_stopped, bt_vote = new_mapped_file ''vote'' vote_state_size 10,
       bt_fs = left_behind demo_log2 [''vote'' \<mapsto> (4096, store_term 7 zero_mem)]\<rparr> = Some (RC_GOOD, b) \<and>
    r_curr_term (bt_raft b) = 7 \<and> log_rep (r_log (bt_raft b)) demo_alog \<and> r_commit_index (bt_raft b) = 0 \<and>
    fst ` set (r_cluster (bt_raft b)) = {''a:1'', ''b:2''}"
proof -
  let ?p = "demo_parser (new_config_parser ''conf'')"
  have get: "config demo_log2 = ''a:1,b:2''"
    using rep_get [OF demo_log2(2), of 2] by (simp add: config_def config_entry_def demo_log2(4) al_get_def)
  have os: "os_good (w_os demo_world)" by (simp add: demo_world_def)
  have vf: "[''vote'' \<mapsto> (4096 :: nat, store_term 7 zero_mem)] ''vote'' = Some (4096, store_term 7 zero_mem)" by simp
  have n: "(40::nat) \<le> 4096" "''vote'' \<noteq> []" "''vote'' \<noteq> ''ldbs''" "''vote'' \<noteq> ''stat''" "''ldbs'' \<noteq> ''stat''" "''ldbs'' \<noteq> []" "''stat'' \<noteq> []"
    "lg_ldbs_size demo_log2 < size_cap" "lg_stat_size demo_log2 < size_cap" "lg_cfg demo_log2 = cfg_after 0 (al_entries demo_alog)"
    "lg_cfg demo_log2 \<noteq> 0 \<or> last_config demo_log2 \<noteq> []" "\<not> r_inited demo_stopped" "r_cluster demo_stopped = []"
    "is_ipv4 ((\<lambda>_. ''127.0.0.1'') (case config_find ''interface'' ?p of None \<Rightarrow> ''lo'' | Some i \<Rightarrow> i))"
    using loopback by (simp_all add: demo_log2_files demo_log2(4) demo_stopped_def)
  have t: "read_vote (store_term 7 zero_mem) = (7, snd (read_vote zero_mem))" using read_stored_term [of 7] by simp
  show ?thesis
    using server_restarts [where ipv4_of = "\<lambda>_. ''127.0.0.1''" and fs = "[''vote'' \<mapsto> (4096, store_term 7 zero_mem)]", OF demo_parse demo_conf_ok demo_find(1-4) os vf n(1-4) demo_log2(2) demo_log2_files(1,2) n(5-11) n(14,12,13),
        of "new_mapped_file ''vote'' vote_state_size 10"]
    by (elim ex_forward) (simp add: t get demo_log2(4) split_ab)
qed

section \<open>Starting for the first time\<close>

lemma split_id:
  assumes "CHR '':'' \<notin> set host" and "CHR '':'' \<notin> set port"
  shows "split (host @ '':'' @ port) '':'' = [host, port]"
  using pieces_append_sep [of host "'':''" "CHR '':''" port] pieces_no_occ [of port "'':''"] assms by (simp add: split_pieces)

text \<open>C36: on the empty log of a first boot, with a configuration file whose \<open>servers\<close> line begins with the server's
  own address, the server makes itself the only member: one committed configuration entry of term 1 with its own
  id.\<close>

theorem bootstrap_alone:
  assumes "live_rep os (r_log r) empty_alog" and "lg_cfg (r_log r) = 0" and "r_cluster r = []" and "r_recfg r = None"
    and "config_find ''servers'' p = Some s" and "is_ipv4 (split s '','' ! 0)" and "make_id r (split s '','' ! 0) = r_self_id r"
    and "r_self_id r = host @ '':'' @ port" and "CHR '':'' \<notin> set host" and "CHR '':'' \<notin> set port" and "CHR 0x00 \<notin> set (r_self_id r)"
    and "length (r_self_id r) < 2 ^ 58"
  shows "\<exists>r' e x n. load_config os p r = Some (RC_GOOD, r') \<and> live_rep os (r_log r') (al_append empty_alog [e]) \<and>
    e_cfg e \<and> e_index e = 1 \<and> e_term e = 1 \<and> str e = r_self_id r \<and> r_cluster r' = [(r_self_id r, x)] \<and>
    node_at r' x = Some n \<and> n_id n = r_self_id r \<and> n_match_index n = 1 \<and> r_commit_index r' = 1 \<and> r_self_id r' = r_self_id r \<and>
    r_recfg r' = None \<and> r_curr_term r' = r_curr_term r"
proof -
  let ?id = "r_self_id r"
  have rep: "log_rep (r_log r) empty_alog" using assms(1) by (simp add: live_rep_def)
  have reads: "last_entry_index (r_log r) = 0" "last_config (r_log r) = []"
    using rep_last_entry_index [OF rep] rep_last_index [OF rep] by simp_all
  have id: "split ?id '':'' = [host, port]" "c_string ?id = ?id"
    using split_id [OF assms(9,10)] assms(8,11) by (simp_all add: c_string_id)
  let ?n = "\<lparr>n_id = ?id, n_host = host, n_port = port, n_alive = False, n_next_index = 1, n_match_index = 0,
      n_transfer_leader_to = False, n_transfer_data_to = False\<rparr>"
  let ?x = "r_fresh r"
  define r2 where "r2 = r\<lparr>r_nodes := (r_nodes r)(?x \<mapsto> ?n), r_fresh := Suc ?x, r_cluster := [(?id, ?x)]\<rparr>"
  have made: "make_node ?id (r_rpc_port r) r = (?x, r\<lparr>r_nodes := (r_nodes r)(?x \<mapsto> ?n), r_fresh := Suc ?x\<rparr>)"
    using id assms(8) reads(1) by (simp add: make_node_def)
  have emp: "emplace ?id ?x (r\<lparr>r_nodes := (r_nodes r)(?x \<mapsto> ?n), r_fresh := Suc ?x\<rparr>) = r2"
    using assms(3) by (simp add: emplace_def contains_def r2_def)
  have conf: "serialize_configuration r2 = Some ?id" by (simp add: serialize_configuration_def r2_def members_def)
  define e where "e = make_entry 0 ?id 1 1 True"
  have b: "total (al_entries empty_alog) + length ?id + 72 < 2 ^ 59" "al_last empty_alog + 1 < u64_bound" "(1::nat) < u64_bound"
    using assms(12) by simp_all
  note ok = live_append_entry [OF assms(1) b(3,1,2), of True, unfolded assms(2) reads(1)]
  have ok1: "alog_ok (al_append empty_alog [e])" using ok(1) by (simp add: e_def)
  obtain l where l: "append os [e] True (r_log r) = Some (RC_GOOD, l)" "live_rep os l (al_append empty_alog [e])"
    using file_log.app_good [OF assms(1) ok1] by blast
  have last: "last_entry_index l = 1" using l(2) rep_last_entry_index(1) [of l "al_append empty_alog [e]"] by (simp add: live_rep_def)
  define r4 where "r4 = (set_node ?x (\<lambda>n. n\<lparr>n_next_index := 2, n_match_index := 1\<rparr>) (r2\<lparr>r_log := l\<rparr>))\<lparr>r_commit_index := 1\<rparr>"
  have "load_config os p r = bootstrap_cluster_config os p r" using assms(2) reads(2) by (simp add: load_config_def)
  also have "\<dots> = Some (RC_GOOD, r4)"
    using assms(2,5-7) made emp conf l(1) last reads(1)
    by (simp add: bootstrap_cluster_config_def Let_def e_def [symmetric] r4_def split_pieces) (simp add: r2_def e_def numeral_2_eq_2)
  finally have run: "load_config os p r = Some (RC_GOOD, r4)" .
  have "e_cfg e" "e_index e = 1" "e_term e = 1" "str e = ?id" using assms(12) by (simp_all add: e_def str_make_entry)
  moreover have "r_cluster r4 = [(?id, ?x)]" "node_at r4 ?x = Some (?n\<lparr>n_next_index := 2, n_match_index := 1\<rparr>)" "r_commit_index r4 = 1"
    "r_self_id r4 = ?id" "r_recfg r4 = None" "r_curr_term r4 = r_curr_term r" "r_log r4 = l"
    using assms(4) by (simp_all add: r4_def r2_def set_node_def)
  ultimately show ?thesis using run l(2)
    by (intro exI [of _ r4] exI [of _ e] exI [of _ ?x] exI [of _ "?n\<lparr>n_next_index := 2, n_match_index := 1\<rparr>"]) simp
qed

theorem bootstrap_alone_witness:
  "\<exists>r' e. load_config demo_os ((new_config_parser ''conf'')\<lparr>cp_config := [(''servers'', ''127.0.0.1'')]\<rparr>)
      ((demo_raft ''127.0.0.1:2023'' demo_log)\<lparr>r_cluster := []\<rparr>) = Some (RC_GOOD, r') \<and>
    live_rep demo_os (r_log r') (al_append empty_alog [e]) \<and> str e = ''127.0.0.1:2023'' \<and> r_commit_index r' = 1"
proof -
  let ?p = "(new_config_parser ''conf'')\<lparr>cp_config := [(''servers'', ''127.0.0.1'')]\<rparr>"
  let ?r = "(demo_raft ''127.0.0.1:2023'' demo_log)\<lparr>r_cluster := []\<rparr>"
  have s: "split ''127.0.0.1'' '','' = [''127.0.0.1'']" "split ''127.0.0.1'' '':'' = [''127.0.0.1'']" by (simp_all add: split_pieces pieces.simps)
  have r: "live_rep demo_os (r_log ?r) empty_alog" "lg_cfg (r_log ?r) = 0" "r_cluster ?r = []" "r_recfg ?r = None"
    "config_find ''servers'' ?p = Some ''127.0.0.1''" "is_ipv4 (split ''127.0.0.1'' '','' ! 0)"
    "make_id ?r (split ''127.0.0.1'' '','' ! 0) = r_self_id ?r" "r_self_id ?r = ''127.0.0.1'' @ '':'' @ ''2023''"
    "CHR '':'' \<notin> set ''127.0.0.1''" "CHR '':'' \<notin> set ''2023''" "CHR 0x00 \<notin> set (r_self_id ?r)" "length (r_self_id ?r) < 2 ^ 58"
    using demo_live demo_log(4) loopback by (simp_all add: demo_raft_def config_find_def s make_id_def default_rpc_port_def)
  from bootstrap_alone [OF r] show ?thesis by (auto simp: demo_follower)
qed

lemma scan_nothing: "0 < lo \<Longrightarrow> commit_scan r 0 lo = Some None"
  by (subst commit_scan.simps) simp

text \<open>C37: the only member of a cluster becomes its leader as soon as the election timer fires, without asking
  anybody, and commits everything its log holds.\<close>

theorem alone_leads:
  assumes "log_rep (r_log r) a" and "0 < al_last a" and "r_cluster r = [(r_self_id r, x)]" and "node_at r x = Some n"
    and "n_id n = r_self_id r" and "r_recfg r = None"
  shows "\<exists>r'. on_election_timeout w False r = Some r' \<and> r_role r' = LEADER \<and> r_leader r' = r_self_id r \<and>
    r_curr_term r' = r_curr_term r + 1 \<and> r_voted_for r' = c_string (r_self_id r) \<and> r_commit_index r' = al_last a \<and>
    r_log r' = r_log r \<and> ballots r' = ballots r"
proof -
  have last: "last_entry_index (r_log r) = al_last a" using rep_last_entry_index [OF assms(1)] by simp
  note scan = scan_nothing [OF assms(2)]
  let ?r0 = "r\<lparr>r_role := CANDIDATE, r_leader := ''unknown'', r_curr_term := r_curr_term r + 1,
      r_voted_for := c_string (r_self_id r), r_votes := 1\<rparr>"
  have one: "contains r (r_self_id r)" "cluster_size r = 1" using assms(3) by (simp_all add: contains_def cluster_size_def)
  have "on_election_timeout w False r = step_up w ?r0"
    using one by (simp add: on_election_timeout_def pre_vote_def leader_election_def contains_def cluster_size_def Let_def)
  moreover have "\<exists>r'. step_up w ?r0 = Some r' \<and> r_role r' = LEADER \<and> r_leader r' = r_self_id r \<and>
    r_curr_term r' = r_curr_term r + 1 \<and> r_voted_for r' = c_string (r_self_id r) \<and> r_commit_index r' = al_last a \<and>
    r_log r' = r_log r \<and> ballots r' = ballots r"
    using assms(2-6) last
    by (simp add: step_up_def append_entries_def to_peer_def members_def set_node_def remove_election_timer_def reset_heartbeat_timer_def
        emit_def cluster_size_def contains_def adjust_commit_index_def scan set_commit_def commit_alone_def
        commit_configuration_def log_committed_def ballots_def Let_def)
  ultimately show ?thesis by simp
qed

theorem alone_leads_witness:
  "\<exists>r'. on_election_timeout demo_world False ((demo_raft ''a:1'' demo_log2)\<lparr>r_cluster := [(''a:1'', 0)]\<rparr>) = Some r' \<and>
    r_role r' = LEADER \<and> r_curr_term r' = 1 \<and> r_commit_index r' = 2"
proof -
  let ?r = "(demo_raft ''a:1'' demo_log2)\<lparr>r_cluster := [(''a:1'', 0)]\<rparr>"
  have r: "log_rep (r_log ?r) demo_alog" "0 < al_last demo_alog" "r_cluster ?r = [(r_self_id ?r, 0)]" "node_at ?r 0 = Some (demo_node ''a'')"
    "n_id (demo_node ''a'') = r_self_id ?r" "r_recfg ?r = None"
    using demo_log2(2) by (simp_all add: demo_raft_def demo_node_def)
  from alone_leads [OF r, of demo_world] show ?thesis by (auto simp: demo_follower numeral_2_eq_2)
qed

end
