(* ===== verification/Commit_Properties.thy ===== *)
theory Commit_Properties
  imports Replication_Properties
begin

text \<open>
  What counting the answers of the followers does not show: a follower reports the last index of its
  log, not the last index it shares with the leader, and the leader commits what only it holds.
\<close>

lemma adjust_commit_only:
  assumes "adjust_commit_index r = Some r'" and "r_recfg r = None"
  shows "r' = r\<lparr>r_commit_index := r_commit_index r', r_log_committed_queue := r_log_committed_queue r'\<rparr>"
  using assms
  by (auto simp: adjust_commit_index_def commit_configuration_def commit_alone_def set_commit_def log_committed_def Let_def
      split: bind_splits option.splits if_splits)

lemma set_node_sel [simp]:
  "members (set_node x f r) = members r" "cluster_size (set_node x f r) = cluster_size r" "contains (set_node x f r) s = contains r s"
  "r_self_id (set_node x f r) = r_self_id r" "r_log (set_node x f r) = r_log r" "r_recfg (set_node x f r) = r_recfg r"
  "r_commit_index (set_node x f r) = r_commit_index r" "r_curr_term (set_node x f r) = r_curr_term r"
  "node_at (set_node x f r) y = (if y = x then map_option f (node_at r y) else node_at r y)"
  by (simp_all add: set_node_def members_def cluster_size_def contains_def)

lemma has_match_set_node:
  "node_at r x = Some n \<Longrightarrow> n_id (f n) = n_id n \<Longrightarrow>
   has_match (set_node x f r) i y = (if y = x then n_id n \<noteq> r_self_id r \<and> i \<le> n_match_index (f n) else has_match r i y)"
  by (auto simp: has_match_def split: option.split)

text \<open>An answer that reports an entry of the current term is counted: with the leader that makes two of three.\<close>

lemma answer_counted:
  assumes "log_rep (r_log r) a" and "al_index a \<le> r_commit_index r" and "r_role r = LEADER" and "r_recfg r = None"
    and "t_node t = x" and "x \<in> set (members r)" and "node_at r x = Some n" and "n_id n \<noteq> r_self_id r" and "\<not> n_transfer_leader_to n"
    and "cluster_size r \<le> 3" and "contains r (r_self_id r)"
    and "\<forall>y \<in> set (members r). \<exists>m. node_at r y = Some m \<and> n_match_index m < al_last a"
    and "as_success v" and "as_match_index v = al_last a" and "r_commit_index r < al_last a"
    and "al_get a (al_last a) = Some e" and "e_term e = r_curr_term r"
  shows "\<exists>r'. on_append_entries w t (Some v) r = Some r' \<and> r_log r' = r_log r \<and> al_last a \<le> r_commit_index r' \<and>
    (\<forall>y \<in> set (members r'). has_match r' (al_last a) y \<longrightarrow> y = x)"
proof -
  let ?f = "\<lambda>n. n\<lparr>n_match_index := as_match_index v, n_next_index := add64 (as_match_index v) 1\<rparr>"
  let ?r = "set_node x ?f r"
  have all: "\<forall>y \<in> set (members ?r). \<exists>m. node_at ?r y = Some m \<and> n_match_index m \<le> al_last a"
  proof
    fix y assume "y \<in> set (members ?r)"
    then obtain m where "node_at r y = Some m" "n_match_index m < al_last a" using assms(12) by auto
    then show "\<exists>m. node_at ?r y = Some m \<and> n_match_index m \<le> al_last a" using assms(7,14) by simp
  qed
  have other: "\<not> has_match r (al_last a) y" if "y \<in> set (members r)" for y using that assms(12) by (fastforce simp: has_match_def)
  have mine: "has_match ?r (al_last a) x" using assms(7,8,14) by (simp add: has_match_set_node)
  then have "filter (has_match ?r (al_last a)) (members ?r) \<noteq> []" using assms(6) by (auto simp: filter_empty_conv)
  then have "count_matching ?r (al_last a) > cluster_size ?r div 2" using assms(10,11) by (simp add: count_matching_def Suc_lessI length_greater_0_conv [symmetric] del: length_greater_0_conv)
  moreover have "0 < al_last a" using assms(15) by linarith
  ultimately obtain r' where r': "adjust_commit_index ?r = Some r'" "al_last a \<le> r_commit_index r'"
    using adjust_commit_progress [of ?r a] all assms(1,2,4,6-8,14-17) by (auto simp: rep_get [OF assms(1)])
  obtain c q where c: "r' = ?r\<lparr>r_commit_index := c, r_log_committed_queue := q\<rparr>"
    using adjust_commit_only [OF r'(1)] assms(4) by simp
  have "node_at r' x = Some (?f n)" "\<not> newly r' x" "r_log r' = r_log r" "members r' = members r" "r_nodes r' = r_nodes ?r" "r_self_id r' = r_self_id r"
    using assms(4,7) by (simp_all add: c set_node_def newly_def members_def)
  moreover have "has_match r' k y = has_match r k y" if "y \<noteq> x" for k y using that by (auto simp: c has_match_def set_node_def split: option.split)
  ultimately show ?thesis using assms(3,5,7,9,13) r' other
    by (intro exI [of _ r']) (auto simp: on_append_entries_def Let_def)
qed

text \<open>C40: a request is on its way to a follower whose log agrees with the leader's up to its end and holds
  one entry more, of an older leader; the leader appends an entry of its own; then the answer, which
  reports the follower's last index, makes the leader commit its entry, although the follower holds
  another entry there and nobody else has confirmed it.  The leader of a cluster of three has committed
  an entry that only itself holds.\<close>

theorem commit_without_majority:
  assumes "live_rep (w_os w) (r_log r) a" and "r_role r = LEADER" and "r_recfg r = None" and "x \<in> set (members r)"
    and "node_at r x = Some n" and "n_id n \<noteq> r_self_id r" and "\<not> n_transfer_leader_to n" and "n_next_index n = al_last a + 1"
    and "cluster_size r \<le> 3" and "contains r (r_self_id r)" and "al_index a \<le> r_commit_index r" and "r_commit_index r \<le> al_last a"
    and "\<forall>y \<in> set (members r). \<exists>m. node_at r y = Some m \<and> n_match_index m \<le> al_last a"
    and "total (al_entries a) + length cmd + 72 < 2 ^ 59" and "al_last a + 1 < u64_bound" and "r_curr_term r < u64_bound"
    and "live_rep (w_os w) (r_log f) b" and "r_curr_term f \<le> r_curr_term r" and "r_transfer_leader_to f = None"
    and "al_index b \<le> al_last a" and "al_get b (al_last a) = al_get a (al_last a)" and "al_get a (al_last a) \<noteq> None"
    and "al_last b = al_last a + 1" and "al_get b (al_last b) = Some stale" and "e_term stale \<noteq> r_curr_term r"
  shows "\<exists>t req r1 res f' r2 r3 e. append_entries_to x r = Some r1 \<and> r_out r1 = r_out r @ [Append_Entries t req] \<and>
    rpc_append_entries w req f = Some (res, False, f') \<and> raft_append (w_os w) cmd r1 = Some (al_last a + 1, r2) \<and>
    on_append_entries w t (Some res) r2 = Some r3 \<and> al_last a + 1 \<le> r_commit_index r3 \<and>
    get_entry (r_log r3) (al_last a + 1) = Some e \<and> str e = cmd \<and> e_term e = r_curr_term r \<and>
    get_entry (r_log f') (al_last a + 1) = Some stale \<and> (\<forall>y \<in> set (members r3). has_match r3 (al_last a + 1) y \<longrightarrow> y = x)"
proof -
  obtain t req r1 where q: "append_entries_to x r = Some r1" "r_out r1 = r_out r @ [Append_Entries t req]" "t_node t = x"
    "aq_term req = r_curr_term r" "aq_prev_log_index req = al_last a" "has_prev a req" "aq_entries req = []"
    using request_of_leader [OF assms(1,5)] assms(8) by auto
  have prev: "has_prev b req" using q(5,6) assms(20-22) by (auto simp: has_prev_def split: option.splits)
  have "total (al_entries b) < 2 ^ 59" using assms(17) by (simp add: live_rep_def alog_ok_def)
  then have "fits b req" using q(5,7) assms(15) by (simp add: fits_def sized_def built_def total_def)
  with append_entries_stored [OF assms(17) _ assms(19) prev] q(4,7) assms(18) obtain res f' where
    s: "rpc_append_entries w req f = Some (res, False, f')" "as_success res" "as_match_index res = al_last b" "live_rep (w_os w) (r_log f') b"
    by (auto simp: merged_def)
  obtain i out where r1: "r1 = r\<lparr>r_append_entries_id := i, r_out := out\<rparr>" using append_entries_to_same [OF q(1)] by blast
  let ?e = "make_next_entry cmd False r1"
  have l1: "live_rep (w_os w) (r_log r1) a" "r_role r1 = LEADER" "r_curr_term r1 < u64_bound" using assms(1,2,16) by (simp_all add: r1)
  obtain l where l: "raft_append (w_os w) cmd r1 = Some (al_last a + 1, r1\<lparr>r_log := l\<rparr>)" "live_rep (w_os w) l (al_append a [?e])"
    using raft_append_leader [OF l1 assms(14,15)] by blast
  let ?r2 = "r1\<lparr>r_log := l\<rparr>" and ?a = "al_append a [?e]"
  have rep2: "log_rep (r_log ?r2) ?a" using l(2) by (simp add: live_rep_def)
  have e: "al_last ?a = al_last a + 1" "al_get ?a (al_last ?a) = Some ?e" "str ?e = cmd" "e_term ?e = r_curr_term r"
    using live_append_next [OF l1(1,3) assms(14,15)] assms(1) by (simp_all add: al_get_def r1 make_next_entry_def)
  have cnt: "\<exists>r'. on_append_entries w t (Some res) ?r2 = Some r' \<and> r_log r' = r_log ?r2 \<and> al_last ?a \<le> r_commit_index r' \<and>
    (\<forall>y \<in> set (members r'). has_match r' (al_last ?a) y \<longrightarrow> y = x)"
    by (rule answer_counted [OF rep2, where n = n and e = ?e])
      (use assms(2-13,23) s(2,3) q(3) e in \<open>auto simp: r1 members_def cluster_size_def contains_def less_Suc_eq_le\<close>)
  then obtain r3 where r3: "on_append_entries w t (Some res) ?r2 = Some r3" "r_log r3 = l" "al_last a + 1 \<le> r_commit_index r3"
    "\<forall>y \<in> set (members r3). has_match r3 (al_last a + 1) y \<longrightarrow> y = x" using e(1) by auto
  have "get_entry (r_log r3) (al_last a + 1) = Some ?e" "get_entry (r_log f') (al_last a + 1) = Some stale"
    using rep_get [OF rep2, of "al_last ?a"] rep_get [of "r_log f'" b "al_last b"] s(4) r3(2) e(1,2) assms(23,24) by (simp_all add: live_rep_def)
  with q(1,2) s(1) l(1) r3(1,3,4) e(3,4) show ?thesis by blast
qed

text \<open>For example, a follower with an entry of term 1 and a leader of term 2 on an empty log.\<close>

definition demo_new_leader :: raft where
  "demo_new_leader = (demo_raft ''a:1'' demo_log)\<lparr>r_role := LEADER, r_curr_term := 2\<rparr>"

lemma demo_new_leader:
  "live_rep (w_os demo_world) (r_log demo_new_leader) empty_alog" "r_role demo_new_leader = LEADER" "r_recfg demo_new_leader = None"
  "1 \<in> set (members demo_new_leader)" "node_at demo_new_leader 1 = Some (demo_node ''b'')" "n_id (demo_node ''b'') \<noteq> r_self_id demo_new_leader"
  "\<not> n_transfer_leader_to (demo_node ''b'')" "n_next_index (demo_node ''b'') = al_last empty_alog + 1" "cluster_size demo_new_leader \<le> 3"
  "contains demo_new_leader (r_self_id demo_new_leader)" "al_index empty_alog \<le> r_commit_index demo_new_leader"
  "r_commit_index demo_new_leader \<le> al_last empty_alog" "r_curr_term demo_new_leader = 2"
  "\<forall>y \<in> set (members demo_new_leader). \<exists>m. node_at demo_new_leader y = Some m \<and> n_match_index m \<le> al_last empty_alog"
  using demo_live by (simp_all add: demo_new_leader_def demo_raft_def demo_world_def demo_node_def members_def cluster_size_def contains_def)

lemma demo_stale_follower:
  obtains f :: raft and b stale where "live_rep (w_os demo_world) (r_log f) b" "r_curr_term f = 1" "r_transfer_leader_to f = None" "al_index b = 0"
    "al_last b = 1" "al_get b (al_last b) = Some stale" "e_term stale = 1"
proof -
  let ?f = "(demo_raft ''b:1'' demo_log)\<lparr>r_role := LEADER, r_curr_term := 1\<rparr>"
  let ?e = "make_next_entry ''set k v'' False ?f"
  have "live_rep demo_os (r_log ?f) empty_alog" using demo_live by (simp add: demo_follower)
  from raft_append_leader [OF this, of "''set k v''"] obtain l where "live_rep demo_os l (al_append empty_alog [?e])"
    by (auto simp: demo_follower)
  then show ?thesis
    by (intro that [of "?f\<lparr>r_log := l\<rparr>" "al_append empty_alog [?e]" ?e])
      (simp_all add: demo_follower al_get_def make_next_entry_def)
qed

theorem commit_without_majority_witness:
  "\<exists>t req f r1 res f' r2 r3 e e'. append_entries_to 1 demo_new_leader = Some r1 \<and> rpc_append_entries demo_world req f = Some (res, False, f') \<and>
    raft_append (w_os demo_world) ''set k w'' r1 = Some (1, r2) \<and> on_append_entries demo_world t (Some res) r2 = Some r3 \<and>
    1 \<le> r_commit_index r3 \<and> get_entry (r_log r3) 1 = Some e \<and> e_term e = 2 \<and> get_entry (r_log f') 1 = Some e' \<and> e_term e' = 1"
proof -
  obtain f :: raft and b stale where f: "live_rep (w_os demo_world) (r_log f) b" "r_curr_term f = 1" "r_transfer_leader_to f = None" "al_index b = 0"
    "al_last b = 1" "al_get b (al_last b) = Some stale" "e_term stale = 1" by (rule demo_stale_follower)
  have z: "total (al_entries empty_alog) + length ''set k w'' + 72 < 2 ^ 59" "al_last empty_alog + 1 < u64_bound"
    "r_curr_term demo_new_leader < u64_bound" "r_curr_term f \<le> r_curr_term demo_new_leader" "al_index b \<le> al_last empty_alog"
    "al_get b (al_last empty_alog) = al_get empty_alog (al_last empty_alog)" "al_get empty_alog (al_last empty_alog) \<noteq> None"
    "al_last b = al_last empty_alog + 1" "e_term stale \<noteq> r_curr_term demo_new_leader"
    using f demo_new_leader(13) by (simp_all add: al_get_def)
  note n = demo_new_leader
  from commit_without_majority [OF n(1-12,14) z(1-3) f(1) z(4) f(3) z(5-8) f(6) z(9)]
  obtain t req r1 res f' r2 r3 e where r: "append_entries_to 1 demo_new_leader = Some r1"
    "rpc_append_entries demo_world req f = Some (res, False, f')" "raft_append (w_os demo_world) ''set k w'' r1 = Some (al_last empty_alog + 1, r2)"
    "on_append_entries demo_world t (Some res) r2 = Some r3" "al_last empty_alog + 1 \<le> r_commit_index r3"
    "get_entry (r_log r3) (al_last empty_alog + 1) = Some e" "e_term e = r_curr_term demo_new_leader"
    "get_entry (r_log f') (al_last empty_alog + 1) = Some stale" by blast
  then show ?thesis using f(7) n(13)
    by (intro exI [of _ t] exI [of _ req] exI [of _ f] exI [of _ r1] exI [of _ res] exI [of _ f'] exI [of _ r2] exI [of _ r3] exI [of _ e]
        exI [of _ stale]) simp
qed

section \<open>Servers that refuse each other\<close>

text \<open>
  A vote is refused to a candidate whose last term or whose last index is smaller.  Of two servers
  one may have the greater term and the other the longer log: then neither votes for the other, in
  pre-votes and in votes and whatever the terms, and when they are all that is left of a cluster of
  three there is no leader any more.
\<close>

theorem neither_elects:
  assumes "last_entry_term (r_log a) < last_entry_term (r_log b)" and "last_entry_index (r_log b) < last_entry_index (r_log a)"
    and "good_id (r_self_id a)" and "good_id (r_self_id b)"
  shows "\<not> vs_vote_granted (fst (rpc_pre_vote w (fill_vote a early) b)) \<and> \<not> vs_vote_granted (fst (rpc_pre_vote w (fill_vote b early) a)) \<and>
    (\<forall>res b'. rpc_request_vote (fill_vote a early) b = Some (res, b') \<longrightarrow> \<not> vs_vote_granted res) \<and>
    (\<forall>res a'. rpc_request_vote (fill_vote b early) a = Some (res, a') \<longrightarrow> \<not> vs_vote_granted res)"
proof -
  have n: "log_newer b (fill_vote a early)" "log_newer a (fill_vote b early)"
    using assms(1,2) by (simp_all add: log_newer_def fill_vote_def)
  have id: "good_id (vq_candidate_id (fill_vote a early))" "good_id (vq_candidate_id (fill_vote b early))"
    using assms(3,4) by (simp_all add: fill_vote_def)
  show ?thesis using n rpc_request_vote_effect(4) [OF _ id(1)] rpc_request_vote_effect(4) [OF _ id(2)]
    by (auto simp: rpc_pre_vote_def Let_def)
qed

end
