(* ===== verification/Log_History.thy ===== *)
theory Log_History
  imports Replication_Correct
begin

text \<open>
  Logs as lists of entries, and the history of each term: the log of its leader, which only grows
  while the term lasts.  All logs begin with the log \<open>P\<close> that the servers started from.  A log agrees
  with the histories when each of its longer prefixes is a prefix of the history of the term its last
  entry has.  Two such logs match.
\<close>

type_synonym history = "nat \<Rightarrow> LogEntry list"

definition agrees :: "LogEntry list \<Rightarrow> history \<Rightarrow> LogEntry list \<Rightarrow> bool" where
  "agrees P H L \<longleftrightarrow> take (length P) L = P \<and>
     (\<forall>k < length L. length P \<le> k \<longrightarrow> take (Suc k) L = take (Suc k) (H (le_term (L ! k))))"

definition histories :: "LogEntry list \<Rightarrow> history \<Rightarrow> bool" where
  "histories P H \<longleftrightarrow> (\<forall>t. H t = [] \<or> agrees P H (H t))"

lemma agrees_start [simp]: "agrees P H P"
  by (simp add: agrees_def)

lemma agrees_length: "agrees P H L \<Longrightarrow> length P \<le> length L"
  unfolding agrees_def by (metis length_take min.cobounded1)

lemma agrees_take: "agrees P H L \<Longrightarrow> length P \<le> n \<Longrightarrow> agrees P H (take n L)"
  by (auto simp: agrees_def min_def)

lemma agrees_matching:
  assumes "agrees P H L" and "agrees P H M" and "k < length L" and "k < length M" and "le_term (L ! k) = le_term (M ! k)"
  shows "take (Suc k) L = take (Suc k) M"
proof (cases "length P \<le> k")
  case False
  then have "take (Suc k) L = take (Suc k) (take (length P) L)" "take (Suc k) M = take (Suc k) (take (length P) M)" by simp_all
  then show ?thesis using assms(1,2) by (simp only: agrees_def)
qed (use assms in \<open>simp add: agrees_def\<close>)

lemma agrees_same_prefix:
  assumes "histories P H" and "agrees P H L" and "q \<le> length L" and "q \<le> length (H t)"
    and "0 < q \<Longrightarrow> le_term (L ! (q - 1)) = le_term (H t ! (q - 1))"
  shows "take q L = take q (H t)"
proof (cases q)
  case (Suc k)
  then have "H t \<noteq> []" using assms(4) by auto
  then have "agrees P H (H t)" using assms(1) by (auto simp: histories_def)
  then show ?thesis using agrees_matching [OF assms(2), of "H t" k] assms Suc by simp
qed simp

section \<open>Growing histories\<close>

text \<open>A leader adds an entry of its term.\<close>

lemma agrees_grow:
  assumes "agrees P H L" and "le_term e = t"
  shows "agrees P (H(t := H t @ [e])) L"
  unfolding agrees_def
proof (intro conjI allI impI)
  show "take (length P) L = P" using assms(1) by (simp add: agrees_def)
  fix k assume k: "k < length L" "length P \<le> k"
  have eq: "take (Suc k) L = take (Suc k) (H (le_term (L ! k)))" using assms(1) k by (simp add: agrees_def)
  have "Suc k \<le> length (H (le_term (L ! k)))" using arg_cong [OF eq, of length] k by simp
  then show "take (Suc k) L = take (Suc k) ((H(t := H t @ [e])) (le_term (L ! k)))" using eq by (cases "le_term (L ! k) = t") auto
qed

lemma histories_grow:
  assumes "histories P H" and "le_term e = t" and "agrees P H (H t)"
  shows "histories P (H(t := H t @ [e]))" "agrees P (H(t := H t @ [e])) (H t @ [e])"
proof -
  let ?H = "H(t := H t @ [e])"
  have old: "agrees P ?H (H t)" using assms(3,2) by (rule agrees_grow)
  show new: "agrees P ?H (H t @ [e])"
    unfolding agrees_def
  proof (intro conjI allI impI)
    show "take (length P) (H t @ [e]) = P" using assms(3) agrees_length [OF assms(3)] by (simp add: agrees_def)
    fix k assume k: "k < length (H t @ [e])" "length P \<le> k"
    show "take (Suc k) (H t @ [e]) = take (Suc k) (?H (le_term ((H t @ [e]) ! k)))"
    proof (cases "k < length (H t)")
      case True
      then show ?thesis using old k(2) by (simp add: agrees_def nth_append)
    next
      case False
      then have "k = length (H t)" using k by simp
      then show ?thesis using assms(2) by simp
    qed
  qed
  have "?H u = [] \<or> agrees P ?H (?H u)" for u
    using new assms(1) agrees_grow [OF _ assms(2)] by (auto simp: histories_def)
  then show "histories P ?H" by (simp add: histories_def)
qed

text \<open>A new leader's log is where the history of its term begins.\<close>

lemma agrees_begin:
  assumes "agrees P H L" and "H t = []"
  shows "agrees P (H(t := M)) L"
proof -
  have "le_term (L ! k) \<noteq> t" if "k < length L" "length P \<le> k" for k
  proof
    assume "le_term (L ! k) = t"
    then have "take (Suc k) L = []" using assms that by (simp add: agrees_def)
    then show False using that by auto
  qed
  then show ?thesis using assms(1) by (simp add: agrees_def)
qed

lemma histories_begin: "histories P H \<Longrightarrow> agrees P H L \<Longrightarrow> H t = [] \<Longrightarrow> histories P (H(t := L))"
  by (auto simp: histories_def agrees_begin)

section \<open>Segments\<close>

text \<open>What a request of the leader of term \<open>t\<close> says of its log: a segment after position \<open>p\<close>.\<close>

definition segment :: "LogEntry list \<Rightarrow> nat \<Rightarrow> nat \<Rightarrow> LogEntry list \<Rightarrow> bool" where
  "segment L p u es \<longleftrightarrow> p \<le> length L \<and> es = take (length es) (drop p L) \<and>
     u = (if p = 0 then 0 else le_term (L ! (p - 1)))"

lemma segment_length: "segment L p u es \<Longrightarrow> p + length es \<le> length L"
  unfolding segment_def by (metis le_diff_conv2 add.commute length_drop length_take min.cobounded1 min.commute)

lemma segment_extend:
  assumes "segment L p u es"
  shows "segment (L @ M) p u es"
proof -
  have len: "length es \<le> length L - p" using segment_length [OF assms] by simp
  have "take (length es) (drop p (L @ M)) = take (length es) (drop p L)" using len assms by (simp add: segment_def)
  then show ?thesis using assms by (auto simp: segment_def nth_append)
qed

lemma segment_rest: "p \<le> length L \<Longrightarrow> segment L p (if p = 0 then 0 else le_term (L ! (p - 1))) (drop p L)"
  by (simp add: segment_def)

text \<open>A follower that keeps what matches and takes the rest of the segment has a prefix of the history.\<close>

lemma segment_taken:
  assumes "histories P H" and "agrees P H L" and s: "segment (H t) p u es" and "p + j \<le> length L" and "j \<le> length es"
    and prev: "p \<noteq> 0 \<Longrightarrow> le_term (L ! (p - 1)) = u" and mat: "\<And>m. m < j \<Longrightarrow> le_term (L ! (p + m)) = le_term (es ! m)"
  shows "take (p + j) L @ drop j es = take (p + length es) (H t)"
proof -
  have len: "p + length es \<le> length (H t)" using s by (rule segment_length)
  have es: "es = take (length es) (drop p (H t))" using s by (simp add: segment_def)
  have "take (p + j) L = take (p + j) (H t)"
  proof (rule agrees_same_prefix [OF assms(1,2,4)])
    show "p + j \<le> length (H t)" using len assms(5) by simp
    show "le_term (L ! (p + j - 1)) = le_term (H t ! (p + j - 1))" if "0 < p + j"
    proof (cases j)
      case 0
      then show ?thesis using that prev s by (simp add: segment_def)
    next
      case (Suc m)
      then have "es ! m = H t ! (p + m)" using assms(5) len arg_cong [OF es, of "\<lambda>x. x ! m"] by simp
      then show ?thesis using mat [of m] Suc by simp
    qed
  qed
  moreover have "drop j es = take (length es - j) (drop (p + j) (H t))"
    using arg_cong [OF es, of "drop j"] by (simp add: drop_take add.commute)
  moreover have "p + length es = (p + j) + (length es - j)" using assms(5) by simp
  ultimately show ?thesis by (simp only: take_add)
qed

section \<open>Numbered and sized lists\<close>

lemma numbered_append: "numbered p (xs @ ys) \<longleftrightarrow> numbered p xs \<and> numbered (p + length xs) ys"
  by (induction xs arbitrary: p) auto

lemma numbered_nth: "numbered p es \<Longrightarrow> k < length es \<Longrightarrow> le_index (es ! k) = p + k + 1"
  by (induction es arbitrary: p k) (auto simp: nth_Cons split: nat.split)

lemma numbered_take: "numbered p es \<Longrightarrow> numbered p (take n es)"
  using numbered_append [of p "take n es" "drop n es"] by simp

lemma numbered_drop: "numbered p es \<Longrightarrow> n \<le> length es \<Longrightarrow> numbered (p + n) (drop n es)"
  using numbered_append [of p "take n es" "drop n es"] by simp

text \<open>
  A log that begins with \<open>P\<close> and goes on with commands, and the entries of a request at position \<open>p\<close>
  of such a log.
\<close>

definition plain :: "LogEntry list \<Rightarrow> LogEntry list \<Rightarrow> bool" where
  "plain P L \<longleftrightarrow> numbered 0 L \<and> sized L \<and> take (length P) L = P \<and> (\<forall>e \<in> set (drop (length P) L). \<not> le_config e)"

definition part_of :: "LogEntry list \<Rightarrow> nat \<Rightarrow> LogEntry list \<Rightarrow> bool" where
  "part_of P p es \<longleftrightarrow> numbered p es \<and> sized es \<and>
     (\<forall>m < length es. if p + m < length P then es ! m = P ! (p + m) else \<not> le_config (es ! m))"

lemma part_of_Nil [simp]: "part_of P p []"
  by (simp add: part_of_def sized_def)

lemma plain_segment:
  assumes "plain P L" and "segment L p u es"
  shows "part_of P p es"
proof -
  have es: "es = take (length es) (drop p L)" "p \<le> length L" using assms(2) by (auto simp: segment_def)
  then have sub: "set es \<subseteq> set L" by (metis set_drop_subset set_take_subset subset_trans)
  have num: "numbered p es" using numbered_take numbered_drop [of 0 L p] assms(1) es by (metis add_0 plain_def)
  have sz: "sized es" using sub assms(1) by (auto simp: plain_def sized_def)
  have at: "es ! m = L ! (p + m) \<and> p + m < length L" if "m < length es" for m
  proof -
    have "p + m < length L" using segment_length [OF assms(2)] that by simp
    then show ?thesis using that arg_cong [OF es(1), of "\<lambda>x. x ! m"] by simp
  qed
  have "if p + m < length P then es ! m = P ! (p + m) else \<not> le_config (es ! m)" if "m < length es" for m
  proof (cases "p + m < length P")
    case True
    then have "P ! (p + m) = take (length P) L ! (p + m)" using assms(1) by (simp add: plain_def)
    then show ?thesis using True at [OF that] by simp
  next
    case False
    then have "L ! (p + m) = drop (length P) L ! (p + m - length P)" "p + m - length P < length (drop (length P) L)"
      using at [OF that] by auto
    then have "L ! (p + m) \<in> set (drop (length P) L)" by (metis nth_mem)
    then show ?thesis using False at [OF that] assms(1) by (simp add: plain_def)
  qed
  with num sz show ?thesis by (simp add: part_of_def)
qed

lemma segment_Nil: "segment [] p u es \<Longrightarrow> es = []"
  by (auto simp: segment_def)

end
