(* ===== verification/Log_Plain.thy ===== *)
theory Log_Plain
  imports Log_Effects Log_History
begin

text \<open>
  Logs that begin at the first index with the entries \<open>P\<close> the servers started from, configuration entries
  among them, and go on with commands, as lists of entries: what is read from them, what a leader's
  request says of them, and what the handlers \<open>append\<close> and \<open>append_entries\<close> make of them.
\<close>

text \<open>The index of the last configuration entry, and its text.\<close>

definition config_index :: "LogEntry list \<Rightarrow> nat" where
  "config_index P = fold (\<lambda>e c. if le_config e then le_index e else c) P 0"

definition config_text :: "LogEntry list \<Rightarrow> string" where
  "config_text P = (if config_index P = 0 then [] else le_data (P ! (config_index P - 1)))"

definition plain_rep :: "os \<Rightarrow> LogEntry list \<Rightarrow> logger \<Rightarrow> LogEntry list \<Rightarrow> bool" where
  "plain_rep os P l L \<longleftrightarrow> (\<exists>a. live_rep os l a \<and> al_index a = 0 \<and> al_term a = 0 \<and> map to_LogEntry (al_entries a) = L \<and>
     take (length P) L = P \<and> (\<forall>e \<in> set (drop (length P) L). \<not> le_config e) \<and> lg_cfg l = config_index P)"

lemma config_index_bound: "numbered p P \<Longrightarrow> c \<le> p \<Longrightarrow> fold (\<lambda>e c. if le_config e then le_index e else c) P c \<le> p + length P"
  by (induction P arbitrary: p c) (fastforce)+

lemma config_index_le: "numbered 0 P \<Longrightarrow> config_index P \<le> length P"
  using config_index_bound [of 0 P 0] by (simp add: config_index_def)

text \<open>It is what the logger keeps as the configuration index.\<close>

lemma config_index_after: "config_index (map to_LogEntry es) = cfg_after 0 es"
proof -
  have "fold (\<lambda>e c. if le_config e then le_index e else c) (map to_LogEntry es) c = cfg_after c es" for c
    by (induction es arbitrary: c) simp_all
  then show ?thesis by (simp add: config_index_def)
qed

lemma log_field_inj [simp]: "r\<lparr>r_log := l\<rparr> = r\<lparr>r_log := l'\<rparr> \<longleftrightarrow> l = l'"
  by (cases r) simp

lemma total_member: "e \<in> set es \<Longrightarrow> e_size e \<le> total es"
  unfolding total_def by (simp add: member_le_sum_list)

lemma plain_repD:
  assumes "plain_rep os P l L"
  shows "plain P L" "lg_cfg l = config_index P" "length L < u64_bound" "config_index P \<le> length P" "length P \<le> length L"
proof -
  obtain a where a: "live_rep os l a" "al_index a = 0" "map to_LogEntry (al_entries a) = L" "take (length P) L = P"
    "\<forall>e \<in> set (drop (length P) L). \<not> le_config e" and c: "lg_cfg l = config_index P"
    using assms by (auto simp: plain_rep_def)
  then have r: "log_rep l a" "total (al_entries a) < 2 ^ 59" by (auto simp: live_rep_def)
  have "length (str e) < 2 ^ 59 \<and> e_index e < u64_bound \<and> e_term e < u64_bound" if "e \<in> set (al_entries a)" for e
  proof -
    have "wf_entry e" using log_repD(5) [OF r(1)] that by (auto simp: list_all_iff)
    then show ?thesis using total_member [OF that] r(2) by (auto simp: wf_entry_def str_def)
  qed
  then have "sized L" using a(3) by (auto simp: sized_def)
  moreover have num: "numbered 0 L" using numbered_map [OF log_repD(6) [OF r(1)]] a(2,3) by simp
  ultimately show "plain P L" using a(4,5) by (simp add: plain_def)
  show "lg_cfg l = config_index P" by (fact c)
  show "length L < u64_bound" using log_repD(7) [OF r(1)] a by auto
  have "numbered 0 (take (length P) L)" by (rule numbered_take [OF num])
  then show "config_index P \<le> length P" using a(4) config_index_le by simp
  show "length P \<le> length L" using a(4) by (metis length_take min.cobounded1)
qed

lemma plain_rep_get:
  assumes "plain_rep os P l L"
  shows "map_option to_LogEntry (get_entry l (Suc k)) = (if k < length L then Some (L ! k) else None)"
    "last_entry_index l = length L" "last_index l = 0" "last_term l = 0"
    "get_entry l 0 = Some log_entry_sentry" "0 < i \<Longrightarrow> entries_from l i = drop (i - 1) L"
proof -
  obtain a where a: "log_rep l a" "al_index a = 0" "al_term a = 0" "map to_LogEntry (al_entries a) = L"
    using assms by (auto simp: plain_rep_def live_rep_def)
  show "map_option to_LogEntry (get_entry l (Suc k)) = (if k < length L then Some (L ! k) else None)"
    "last_entry_index l = length L" "last_index l = 0" "last_term l = 0"
    "get_entry l 0 = Some log_entry_sentry"
    using a rep_get [OF a(1)] rep_last_entry_index(1) [OF a(1)] rep_last_index [OF a(1)] by (auto simp: al_get_def)
  show "0 < i \<Longrightarrow> entries_from l i = drop (i - 1) L" using entries_from_rep [OF a(1), of i] a by (auto simp: drop_map)
qed

text \<open>The configuration in force is that of \<open>P\<close>.\<close>

lemma plain_config:
  assumes "plain_rep os P l L"
  shows "config l = config_text P"
proof (cases "config_index P")
  case 0
  then show ?thesis using plain_repD(2) [OF assms] plain_rep_get(5) [OF assms]
    by (simp add: config_def config_entry_def config_text_def str_def)
next
  case (Suc k)
  note d = plain_repD [OF assms]
  have k: "k < length P" "k < length L" using d(4,5) Suc by simp_all
  have "take (length P) L = P" using d(1) by (simp add: plain_def)
  then have "P ! k = L ! k" using k by (metis nth_take)
  moreover obtain e where "get_entry l (Suc k) = Some e" "to_LogEntry e = L ! k"
    using plain_rep_get(1) [OF assms, of k] k(2) by auto
  then have "get_entry l (Suc k) = Some e" "str e = le_data (L ! k)" by (simp_all flip: to_LogEntry_sel(3))
  ultimately show ?thesis using d(2) Suc by (simp add: config_def config_entry_def config_text_def)
qed

text \<open>A log has one list of entries.\<close>

lemma plain_rep_unique: "plain_rep os P l L \<Longrightarrow> plain_rep os' P' l M \<Longrightarrow> L = M"
  using plain_rep_get(6) [of os P l L 1] plain_rep_get(6) [of os' P' l M 1] by simp

text \<open>A log that is opened again has its entries and its configuration.\<close>

lemma plain_reopen:
  assumes "plain_rep os P l L"
    and "\<And>a. live_rep os l a \<Longrightarrow> live_rep os l' a \<and> lg_cfg l' = cfg_after 0 (al_entries a)"
  shows "plain_rep os P l' L"
proof -
  obtain a where a: "live_rep os l a" "al_index a = 0" "al_term a = 0" "map to_LogEntry (al_entries a) = L"
    "take (length P) L = P" "\<forall>e \<in> set (drop (length P) L). \<not> le_config e"
    using assms(1) by (auto simp: plain_rep_def)
  have "fold (\<lambda>e c. if le_config e then le_index e else c) es c = c" if "\<forall>e \<in> set es. \<not> le_config e" for es c
    using that by (induction es) simp_all
  then have "config_index (take (length P) L @ drop (length P) L) = config_index P"
    using a(5,6) by (simp only: config_index_def fold_append comp_apply)
  then have "lg_cfg l' = config_index P" using assms(2) [OF a(1)] config_index_after [of "al_entries a"] a(4) by simp
  then show ?thesis unfolding plain_rep_def using a assms(2) [OF a(1)] by blast
qed

text \<open>A log that was opened, or begun, represents its own entries.\<close>

lemma plain_start:
  "live_rep os l a \<Longrightarrow> al_index a = 0 \<Longrightarrow> al_term a = 0 \<Longrightarrow> lg_cfg l = cfg_after 0 (al_entries a) \<Longrightarrow>
   plain_rep os (map to_LogEntry (al_entries a)) l (map to_LogEntry (al_entries a))"
  unfolding plain_rep_def by (rule exI [of _ a]) (simp add: config_index_after)

section \<open>The configuration index of the logger\<close>

lemma grow_ldbs_loop_cfg: "grow_ldbs_loop os n l = Some (rc, l') \<Longrightarrow> lg_cfg l' = lg_cfg l"
proof -
  have "lg_cfg (snd y) = lg_cfg l" if "grow_ldbs_loop os n l = Some y" for y
    by (rule grow_ldbs_loop.raw_induct [OF _ that, where P = "\<lambda>_ _ l y. lg_cfg (snd y) = lg_cfg l"])
      (auto simp: grow_ldbs_def split: if_splits prod.splits)
  then show "grow_ldbs_loop os n l = Some (rc, l') \<Longrightarrow> lg_cfg l' = lg_cfg l" by fastforce
qed

lemma append_cfg:
  assumes "append os es sync l = Some (rc, l')" and "\<forall>e \<in> set es. \<not> e_cfg e"
  shows "lg_cfg l' = lg_cfg l"
proof -
  have "c_cfg (fold copy_step es c) = c_cfg c" for c
    using assms(2) by (induction es arbitrary: c) (simp_all add: copy_step_def Let_def)
  then show ?thesis using assms(1)
    by (auto simp: append_def Let_def dest!: grow_ldbs_loop_cfg split: bind_splits if_splits prod.splits)
qed

lemma chop_keeps_cfg: "chop os i sync l = Some (rc, l') \<Longrightarrow> lg_cfg l < i \<Longrightarrow> lg_cfg l' = lg_cfg l"
  by (auto simp: chop_def cfg_walk_done Let_def split: if_splits prod.splits)

section \<open>The request of a leader\<close>

lemma request_segment:
  assumes "plain_rep os P (r_log r) L" and "0 < n_next_index n" and "req = fill_append_entries r n i (entries_from (r_log r) (n_next_index n))"
  shows "segment L (aq_prev_log_index req) (aq_prev_log_term req) (aq_entries req)" "aq_term req = r_curr_term r"
    "aq_leader_id req = r_self_id r"
proof -
  note get = plain_rep_get [OF assms(1)]
  have at: "k < length L \<and> L ! k = to_LogEntry e \<and> e_index e = Suc k" if "get_entry (r_log r) (Suc k) = Some e" for k e
  proof -
    have k: "k < length L" "L ! k = to_LogEntry e" using get(1) [of k] that by (auto split: if_splits)
    then show ?thesis using numbered_nth [of 0 L k] plain_repD(1) [OF assms(1)] by (simp add: plain_def)
  qed
  show "aq_term req = r_curr_term r" "aq_leader_id req = r_self_id r" using assms(3) by (simp_all add: fill_append_entries_def Let_def)
  let ?p = "n_next_index n - 1"
  have es: "aq_entries req = drop ?p L" using assms(2,3) get(6) by (simp add: fill_append_entries_def Let_def)
  show "segment L (aq_prev_log_index req) (aq_prev_log_term req) (aq_entries req)"
  proof (cases "?p \<le> length L")
    case True
    then have s: "sub64 (n_next_index n) 1 = ?p" using assms(2) plain_repD(3) [OF assms(1)] by (simp add: sub64_def)
    have "aq_prev_log_index req = ?p \<and> aq_prev_log_term req = (if ?p = 0 then 0 else le_term (L ! (?p - 1)))"
    proof (cases ?p)
      case 0
      then show ?thesis using assms(3) get(5) s by (simp add: fill_append_entries_def Let_def)
    next
      case (Suc k)
      then obtain e where "get_entry (r_log r) ?p = Some e" using True get(1) [of k] by auto
      then show ?thesis using Suc assms(3) s at by (simp add: fill_append_entries_def Let_def)
    qed
    then show ?thesis using segment_rest [OF True] es by simp
  next
    case False
    then have "aq_entries req = []" using es by simp
    moreover have "aq_prev_log_index req = 0 \<and> aq_prev_log_term req = 0 \<or>
        (\<exists>k < length L. aq_prev_log_index req = Suc k \<and> aq_prev_log_term req = le_term (L ! k))"
    proof (cases "sub64 (n_next_index n) 1")
      case 0
      then show ?thesis using assms(3) get(5) by (simp add: fill_append_entries_def Let_def)
    next
      case (Suc k)
      then show ?thesis using assms(3) get(3,4) at [of k]
        by (cases "get_entry (r_log r) (Suc k)") (auto simp: fill_append_entries_def Let_def split: if_splits)
    qed
    ultimately show ?thesis by (auto simp: segment_def)
  qed
qed

section \<open>A command\<close>

definition command_room :: "string \<Rightarrow> raft \<Rightarrow> bool" where
  "command_room txt r \<longleftrightarrow> r_curr_term r < u64_bound \<and> lg_payload (r_log r) + length txt + 72 < 2 ^ 59 \<and>
     last_entry_index (r_log r) + 1 < u64_bound"

definition command_entry :: "string \<Rightarrow> raft \<Rightarrow> LogEntry" where
  "command_entry txt r = \<lparr>le_term = r_curr_term r, le_index = last_entry_index (r_log r) + 1, le_data = txt, le_config = False\<rparr>"

lemma plain_command:
  assumes "plain_rep os P (r_log r) L" and "r_role r = LEADER" and "command_room txt r"
  shows "\<exists>i l. raft_append os txt r = Some (i, r\<lparr>r_log := l\<rparr>) \<and> plain_rep os P l (L @ [command_entry txt r])"
proof -
  obtain a where a: "live_rep os (r_log r) a" "al_index a = 0" "al_term a = 0" "map to_LogEntry (al_entries a) = L"
    "take (length P) L = P" "\<forall>e \<in> set (drop (length P) L). \<not> le_config e"
    using assms(1) by (auto simp: plain_rep_def)
  then have rep: "log_rep (r_log r) a" by (simp add: live_rep_def)
  have last: "last_entry_index (r_log r) = al_last a" using rep_last_entry_index(1) [OF rep] .
  have room: "r_curr_term r < u64_bound" "total (al_entries a) + length txt + 72 < 2 ^ 59" "al_last a + 1 < u64_bound"
    using assms(3) rep_infos(5) [OF log_repD(2) [OF rep]] last by (auto simp: command_room_def)
  obtain l where l: "raft_append os txt r = Some (al_last a + 1, r\<lparr>r_log := l\<rparr>)"
    "live_rep os l (al_append a [make_next_entry txt False r])"
    using raft_append_leader [OF a(1) assms(2) room] by blast
  have "to_LogEntry (make_next_entry txt False r) = command_entry txt r"
    using live_append_next(3) [OF a(1) room] by (simp add: to_LogEntry_def command_entry_def make_next_entry_def)
  moreover have "lg_cfg l = config_index P"
    using append_cfg [of os "[make_next_entry txt False r]" True "r_log r" _ l] l(1) assms(2) plain_repD(2) [OF assms(1)]
    by (auto simp: raft_append_def make_next_entry_def Let_def split: bind_splits if_splits)
  moreover have "take (length P) (L @ [command_entry txt r]) = P" "drop (length P) (L @ [command_entry txt r]) = drop (length P) L @ [command_entry txt r]"
    using a(5) plain_repD(5) [OF assms(1)] by simp_all
  ultimately have "plain_rep os P l (L @ [command_entry txt r])"
    unfolding plain_rep_def using l(2) a(2-4,6)
    by (intro exI [of _ "al_append a [make_next_entry txt False r]"]) (simp add: command_entry_def)
  with l(1) show ?thesis by blast
qed

section \<open>A request at the follower\<close>

definition request_room :: "append_entries_req \<Rightarrow> raft \<Rightarrow> bool" where
  "request_room req r \<longleftrightarrow> lg_payload (r_log r) + total (built 0 (aq_entries req)) < 2 ^ 59 \<and>
     aq_prev_log_index req + length (aq_entries req) < u64_bound"

text \<open>A cut above the configuration entry in force leaves it in force.\<close>

lemma match_entries_cfg:
  assumes "live_rep os l a" and "\<forall>e \<in> set es. matches a e \<or> lg_cfg l < le_index e"
    and "match_entries os es adj l = Some (Inr (rest, adj', l'))"
  shows "lg_cfg l' = lg_cfg l"
  using assms(2,3)
proof (induction es arbitrary: adj)
  case (Cons e es)
  have rep: "log_rep l a" using assms(1) by (simp add: live_rep_def)
  show ?case
  proof (cases "entry_conflicted l (le_index e) (le_term e)")
    case True
    then have "\<not> matches a e" by (auto simp: rep_conflicted [OF rep] matches_def split: option.splits)
    then have "lg_cfg l < le_index e" using Cons.prems(1) by simp
    moreover obtain rc where "chop os (le_index e) True l = Some (rc, l')" "rc = RC_GOOD"
      using True Cons.prems(2) by (auto simp: Let_def bind_eq_Some_conv split: if_splits)
    ultimately show ?thesis using chop_keeps_cfg by simp
  next
    case False
    then show ?thesis using Cons.IH [of "adj \<or> le_config e"] Cons.prems by (auto simp: Let_def split: if_splits)
  qed
qed simp

lemma part_of_matches:
  assumes "map to_LogEntry (al_entries a) = L" and "al_index a = 0" and "take (length P) L = P" and "part_of P p es"
    and "m < length es" and "p + m < length P"
  shows "matches a (es ! m)"
proof -
  have "length P \<le> length L" using assms(3) by (metis length_take min.cobounded1)
  then have k: "p + m < length (al_entries a)" using assms(1,6) by auto
  have "es ! m = P ! (p + m)" using assms(4-6) by (auto simp: part_of_def)
  also have "\<dots> = L ! (p + m)" using assms(3,6) by (metis nth_take)
  also have "\<dots> = to_LogEntry (al_entries a ! (p + m))" using assms(1) k by auto
  finally have "es ! m = to_LogEntry (al_entries a ! (p + m))" .
  moreover have "le_index (es ! m) = p + m + 1" using assms(4,5) numbered_nth by (auto simp: part_of_def)
  ultimately show ?thesis using k assms(2) by (simp add: matches_def al_get_def)
qed

lemma plain_store:
  assumes "plain_rep os P (r_log r) L" and "p \<le> length L" and "part_of P p es"
    and room: "lg_payload (r_log r) + total (built 0 es) < 2 ^ 59" "p + length es < u64_bound"
  shows "\<exists>adj l M. store_entries os es r = Some (Inr (adj, r\<lparr>r_log := l\<rparr>)) \<and> plain_rep os P l M \<and>
    (M = L \<or> (\<exists>j < length es. length P \<le> p + j \<and> p + j \<le> length L \<and> (\<forall>m < j. le_term (L ! (p + m)) = le_term (es ! m)) \<and>
       M = take (p + j) L @ drop j es))"
proof -
  obtain a where a: "live_rep os (r_log r) a" "al_index a = 0" "al_term a = 0" "map to_LogEntry (al_entries a) = L"
    "take (length P) L = P" "\<forall>e \<in> set (drop (length P) L). \<not> le_config e"
    using assms(1) by (auto simp: plain_rep_def)
  have rep: "log_rep (r_log r) a" using a(1) by (simp add: live_rep_def)
  have num: "numbered p es" "sized es" using assms(3) by (auto simp: part_of_def)
  have p: "al_index a \<le> p" "p \<le> al_last a" using a(2,4) assms(2) by auto
  have "total (al_entries a) + total (built 0 es) < 2 ^ 59" using room(1) rep_infos(5) [OF log_repD(2) [OF rep]] by simp
  from store_entries_result [OF a(1) num(1) p num(2) this room(2)] obtain adj l c where
    l: "store_entries os es r = Some (Inr (adj, r\<lparr>r_log := l\<rparr>))" "live_rep os l (merged a es c)" by blast
  obtain pre rest adj' l' where m: "match_entries os es False (r_log r) = Some (Inr (rest, adj', l'))" "es = pre @ rest"
    "\<forall>e \<in> set pre. matches a e" and ne: "\<And>e rest'. rest = e # rest' \<Longrightarrow> \<not> matches a e \<and> le_index e \<le> al_last a + 1"
    using match_entries_result [OF a(1) num(1) p, of False] by blast
  have old: "matches a (es ! k)" if "k < length es" "p + k < length P" for k
    using part_of_matches [OF a(4,2,5) assms(3) that] .
  note d = plain_repD [OF assms(1)]
  have "matches a e \<or> lg_cfg (r_log r) < le_index e" if e: "e \<in> set es" for e
  proof -
    obtain k where k: "k < length es" "e = es ! k" using e by (auto simp: in_set_conv_nth)
    then show ?thesis using old [of k] numbered_nth [OF num(1), of k] d(2,4) by (cases "p + k < length P") auto
  qed
  then have cfg: "lg_cfg l' = config_index P" using match_entries_cfg [OF a(1) _ m(1)] d(2) by simp
  have un: "unmatched a es = rest" using m(2,3) ne unmatched_split [of pre a rest] by (cases rest) auto
  show ?thesis
  proof (cases rest)
    case Nil
    then have "l = l'" using l(1) m(1) by (auto simp: store_entries_def)
    moreover have "merged a es c = a" using un Nil by (simp add: merged_def)
    ultimately have "plain_rep os P l L" using l(2) a cfg unfolding plain_rep_def by (intro exI [of _ a]) simp
    then show ?thesis using l(1) by blast
  next
    case (Cons e rest')
    let ?j = "length pre"
    have lt: "?j < length es" "es ! ?j = e" "drop ?j es = rest" using m(2) Cons by simp_all
    have "\<not> matches a e" "le_index e \<le> al_last a + 1" using ne [OF Cons] by simp_all
    then have j: "length P \<le> p + ?j" "le_index e = p + ?j + 1" "p + ?j \<le> length L"
      using old [OF lt(1)] lt(2) numbered_nth [OF num(1) lt(1)] a(2,4) not_le [of "length P" "p + ?j"] by auto
    have plainrest: "\<forall>e \<in> set rest. \<not> le_config e"
    proof
      fix x assume "x \<in> set rest"
      then obtain k where k: "k < length rest" "x = es ! (?j + k)" "?j + k < length es" using m(2) by (auto simp: in_set_conv_nth nth_append)
      have "\<not> p + (?j + k) < length P" using j(1) by simp
      then show "\<not> le_config x" using assms(3) k(2,3) by (simp add: part_of_def)
    qed
    have terms: "le_term (L ! (p + k)) = le_term (es ! k)" if "k < ?j" for k
    proof -
      have "es ! k \<in> set pre" "le_index (es ! k) = p + k + 1" using that m(2) numbered_nth [OF num(1), of k] by (simp_all add: nth_append)
      then show ?thesis using m(3) j(3) that a(2,4) by (auto simp: matches_def al_get_def)
    qed
    let ?M = "take (p + ?j) L @ rest"
    have b: "merged a es c = al_append (al_chop a (p + ?j + 1)) (built c rest)" using un Cons j(2) by (simp add: merged_def)
    have sz: "sized rest" using num(2) m(2) by (simp add: sized_def)
    have M: "map to_LogEntry (al_entries (merged a es c)) = ?M" "al_index (merged a es c) = 0" "al_term (merged a es c) = 0"
      using a(2,3) by (simp_all add: b to_LogEntry_built [OF sz] take_map flip: a(4))
    have P: "take (length P) ?M = P" using a(5) j(1,3) by simp
    have "set (drop (length P) ?M) \<subseteq> set (drop (length P) L) \<union> set rest"
      using j(1,3) by (auto simp: drop_take dest: in_set_takeD)
    then have plainM: "\<forall>e \<in> set (drop (length P) ?M). \<not> le_config e" using a(6) plainrest by blast
    have "append os (built (lg_cfg l') rest) True l' = Some (RC_GOOD, l)"
      using l(1) m(1) Cons by (auto simp: store_entries_def built_def Let_def split: bind_splits if_splits)
    moreover have "\<forall>e \<in> set (built x rest). \<not> e_cfg e" for x using plainrest by (auto simp: built_def)
    ultimately have "lg_cfg l = config_index P" using append_cfg cfg by simp
    then have "plain_rep os P l ?M" unfolding plain_rep_def using l(2) M P plainM by blast
    then show ?thesis using l(1) j(1,3) terms lt(1,3) by (intro exI [of _ adj] exI [of _ l] exI [of _ ?M]) auto
  qed
qed

text \<open>What is left as it was, besides the log.\<close>

definition follows :: "raft \<Rightarrow> raft \<Rightarrow> bool" where
  "follows r r' \<longleftrightarrow> ready r' \<and> appends r' = appends r \<and> r_cluster r' = r_cluster r \<and> r_self_id r' = r_self_id r \<and>
     peer_names r' = peer_names r \<and> r_curr_term r \<le> r_curr_term r' \<and> r_role r' = FOLLOWER"

lemma follows_step:
  assumes "ready r" and "\<not> aq_term req < r_curr_term r"
    and "(if aq_term req > r_curr_term r then step_down (aq_term req) (aq_leader_id req) (r\<lparr>r_voted_for := []\<rparr>)
      else Some ((reset_election_timer r)\<lparr>r_role := FOLLOWER\<rparr>)) = Some r1"
  shows "follows r r1 \<and> r_log r1 = r_log r"
proof -
  have "r_transfer_leader_to (r\<lparr>r_voted_for := []\<rparr>) = None" using assms(1) by (simp add: ready_def)
  from step_down_ready [OF this] show ?thesis
    using assms by (auto simp: follows_def ready_def appends_def peer_names_def members_def emit_def
        reset_election_timer_def remove_heartbeat_timer_def split: if_splits)
qed

lemma follows_fields:
  assumes "follows r r1"
  shows "follows r ((follow_commit c (r1\<lparr>r_log := l\<rparr>))\<lparr>r_leader := s, r_last_heartbeat := h\<rparr>)"
    "r_log ((follow_commit c (r1\<lparr>r_log := l\<rparr>))\<lparr>r_leader := s, r_last_heartbeat := h\<rparr>) = l"
  using assms by (fastforce simp: follows_def ready_def appends_def peer_names_def members_def follow_commit_def log_committed_def)+

text \<open>The configuration of \<open>P\<close> is the one the servers have in their cluster maps.\<close>

definition serves :: "string set \<Rightarrow> LogEntry list \<Rightarrow> bool" where
  "serves ids P \<longleftrightarrow> config_text P = [] \<or> set (split (config_text P) '','') = ids"

lemma adjust_kept:
  assumes "conf = [] \<or> set (split conf '','') = fst ` set (r_cluster r)"
  shows "adjust_configuration conf r = r"
proof (cases "conf = []")
  case False
  then have s: "set (split conf '','') = fst ` set (r_cluster r)" using assms by simp
  have "fold add_missing xs r = r" if "set xs \<subseteq> fst ` set (r_cluster r)" for xs
    using that by (induction xs) (simp_all add: add_missing_def contains_def)
  moreover have "fold (\<lambda>x r. if x \<in> A then r else erase x r) ks r = r" if "set ks \<subseteq> A" for ks A and r :: raft
    using that by (induction ks) simp_all
  ultimately show ?thesis using False s by (simp add: adjust_configuration_def Let_def)
qed (simp add: adjust_configuration_def)

lemma plain_request:
  assumes ready: "ready r" and L: "plain_rep (w_os w) P (r_log r) L" and es: "part_of P (aq_prev_log_index req) (aq_entries req)"
    and serves: "serves (fst ` set (r_cluster r)) P" and room: "request_room req r"
  shows "\<exists>res r'. rpc_append_entries w req r = Some (res, False, r') \<and> (r' = r \<or> follows r r') \<and> (\<exists>M. plain_rep (w_os w) P (r_log r') M \<and> (M = L \<or>
    (\<exists>j < length (aq_entries req). length P \<le> aq_prev_log_index req + j \<and> aq_prev_log_index req + j \<le> length L \<and>
       (aq_prev_log_index req \<noteq> 0 \<longrightarrow> le_term (L ! (aq_prev_log_index req - 1)) = aq_prev_log_term req) \<and>
       (\<forall>m < j. le_term (L ! (aq_prev_log_index req + m)) = le_term (aq_entries req ! m)) \<and>
       M = take (aq_prev_log_index req + j) L @ drop j (aq_entries req))))"
proof (cases "aq_term req < r_curr_term r")
  case True
  then show ?thesis using L by (auto simp: rpc_append_entries_def)
next
  case False
  let ?p = "aq_prev_log_index req" and ?es = "aq_entries req"
  have "r_transfer_leader_to (r\<lparr>r_voted_for := []\<rparr>) = None" using ready by (simp add: ready_def)
  from step_down_ready [OF this] obtain r1 where r1: "(if aq_term req > r_curr_term r
      then step_down (aq_term req) (aq_leader_id req) (r\<lparr>r_voted_for := []\<rparr>)
      else Some ((reset_election_timer r)\<lparr>r_role := FOLLOWER\<rparr>)) = Some r1" by (cases "aq_term req > r_curr_term r") auto
  have f: "follows r r1" "r_log r1 = r_log r" using follows_step [OF ready False r1] by auto
  have rest: "rpc_append_entries w req r = (if \<not> has_entry (r_log r1) ?p (aq_prev_log_term req) then
          Some (append_result r1 (aq_id req) False, False, r1)
        else do {
          s \<leftarrow> (if ?es \<noteq> [] then store_entries (w_os w) ?es r1 else Some (Inr (False, r1)));
          case s of
            Inl r2 \<Rightarrow> Some (append_result r2 (aq_id req) False, True, r2)
          | Inr (adj, r2) \<Rightarrow>
              let r3 = follow_commit (aq_leader_commit req) r2;
                  r4 = r3\<lparr>r_leader := aq_leader_id req, r_last_heartbeat := w_now w\<rparr>;
                  r5 = (if adj then adjust_configuration (config (r_log r4)) r4 else r4)
              in Some (append_result r5 (aq_id req) True, False, r5)
        })"
    using False r1 by (simp add: rpc_append_entries_def)
  show ?thesis
  proof (cases "has_entry (r_log r1) ?p (aq_prev_log_term req)")
    case no: False
    then have "rpc_append_entries w req r = Some (append_result r1 (aq_id req) False, False, r1)" using rest by simp
    then show ?thesis using f L by auto
  next
    case has: True
    obtain a where a: "log_rep (r_log r) a" "al_index a = 0" "al_term a = 0" "map to_LogEntry (al_entries a) = L"
      using L by (auto simp: plain_rep_def live_rep_def)
    have prev: "?p \<le> length L \<and> (?p \<noteq> 0 \<longrightarrow> le_term (L ! (?p - 1)) = aq_prev_log_term req)"
      using has f(2) a by (auto simp: rep_has_entry [OF a(1)] al_get_def split: if_splits)
    have "\<exists>adj l M. (if ?es \<noteq> [] then store_entries (w_os w) ?es r1 else Some (Inr (False, r1))) = Some (Inr (adj, r1\<lparr>r_log := l\<rparr>)) \<and>
      plain_rep (w_os w) P l M \<and> (M = L \<or> (\<exists>j < length ?es. length P \<le> ?p + j \<and> ?p + j \<le> length L \<and>
        (\<forall>m < j. le_term (L ! (?p + m)) = le_term (?es ! m)) \<and> M = take (?p + j) L @ drop j ?es))"
    proof (cases "?es = []")
      case True
      then show ?thesis using L f(2) by (intro exI [of _ False] exI [of _ "r_log r1"] exI [of _ L]) simp
    next
      case False
      have "plain_rep (w_os w) P (r_log r1) L" "?p \<le> length L" using L f(2) prev by simp_all
      from plain_store [OF this es] show ?thesis using False room f(2) by (simp add: request_room_def)
    qed
    then obtain adj l M where st: "(if ?es \<noteq> [] then store_entries (w_os w) ?es r1 else Some (Inr (False, r1))) = Some (Inr (adj, r1\<lparr>r_log := l\<rparr>))"
      "plain_rep (w_os w) P l M" "M = L \<or> (\<exists>j < length ?es. length P \<le> ?p + j \<and> ?p + j \<le> length L \<and>
        (\<forall>m < j. le_term (L ! (?p + m)) = le_term (?es ! m)) \<and> M = take (?p + j) L @ drop j ?es)" by blast
    define r' where "r' = (follow_commit (aq_leader_commit req) (r1\<lparr>r_log := l\<rparr>))\<lparr>r_leader := aq_leader_id req, r_last_heartbeat := w_now w\<rparr>"
    have r': "follows r r'" "r_log r' = l" using follows_fields [OF f(1)] by (simp_all add: r'_def)
    then have "adjust_configuration (config (r_log r')) r' = r'"
      using serves plain_config [OF st(2)] by (intro adjust_kept) (simp add: serves_def follows_def)
    then have "rpc_append_entries w req r = Some (append_result r' (aq_id req) True, False, r')"
      using rest has by (simp add: st(1) Let_def r'_def [symmetric])
    then show ?thesis using st(2,3) prev r' by blast
  qed
qed

end
