(* ===== verification/Log_Kept.thy ===== *)
theory Log_Kept
  imports Election_Effects
begin

text \<open>
  Elections leave the log and the membership alone, and a server that is a leader after a step in which
  its term did not change was one before or was a candidate (\<open>stays\<close>).
\<close>

definition fixed :: "raft \<Rightarrow> raft \<Rightarrow> bool" where
  "fixed r r' \<longleftrightarrow> r_log r' = r_log r \<and> r_cluster r' = r_cluster r"

definition stays :: "raft \<Rightarrow> raft \<Rightarrow> bool" where
  "stays r r' \<longleftrightarrow> fixed r r' \<and> r_curr_term r \<le> r_curr_term r' \<and>
     (r_curr_term r' = r_curr_term r \<longrightarrow>
        r_role r' = FOLLOWER \<or> r_role r' = r_role r \<or> r_role r = CANDIDATE \<and> r_role r' = LEADER)"

lemma fixed_refl [simp, intro]: "fixed r r"
  by (simp add: fixed_def)

lemma fixed_trans: "fixed r1 r2 \<Longrightarrow> fixed r2 r3 \<Longrightarrow> fixed r1 r3"
  by (simp add: fixed_def)

lemma fixed_frame: "frame r r' \<Longrightarrow> fixed r r'"
  by (simp add: fixed_def frameD)

lemma fixed_core: "vote_core r' = vote_core r \<Longrightarrow> fixed r r'"
  by (simp add: fixed_def vote_core_def)

lemma fixed_for_nodes:
  assumes "\<And>a r r'. f a r = Some r' \<Longrightarrow> fixed r r'" and "for_nodes f as r = Some r'"
  shows "fixed r r'"
  using assms(2)
proof (induction "as" arbitrary: r)
  case (Cons a "as")
  then obtain r1 where "f a r = Some r1" "for_nodes f as r1 = Some r'" by (auto split: bind_splits)
  with Cons.IH assms(1) show ?case by (blast intro: fixed_trans)
qed simp

lemma fixed_frame_fields: "frame (f r) r' \<Longrightarrow> fixed r (f r) \<Longrightarrow> fixed r r'"
  by (blast intro: fixed_trans fixed_frame)

lemma fixed_step_up: "step_up w r = Some r' \<Longrightarrow> fixed r r'"
  using step_up_effect by (fastforce simp: fixed_def dest: frameD(6,7))

lemma fixed_step_down: "step_down t s r = Some r' \<Longrightarrow> fixed r r'"
  using step_down_effect by (fastforce simp: fixed_def dest: frameD(6,7))

lemma fixed_leader_election:
  assumes "leader_election w r = Some r'"
  shows "fixed r r'"
proof -
  define r1 where "r1 = r\<lparr>r_role := CANDIDATE, r_leader := ''unknown'', r_curr_term := r_curr_term r + 1,
      r_voted_for := c_string (r_self_id r), r_votes := of_bool (contains r (r_self_id r))\<rparr>"
  have run: "(if cluster_size r1 = 1 \<and> r_votes r1 \<noteq> 0 then step_up w r1
      else map_option reset_election_timer (for_nodes (to_peer request_vote) (members r1) r1)) = Some r'"
    using assms unfolding leader_election_def Let_def r1_def .
  have ask: "fixed q q'" if "to_peer request_vote a q = Some q'" for a q q'
    using request_vote_effect [OF that] fixed_core by blast
  have "fixed r r1" by (simp add: r1_def fixed_def)
  moreover have "fixed r1 r'"
  proof (cases "cluster_size r1 = 1 \<and> r_votes r1 \<noteq> 0")
    case True
    then show ?thesis using run fixed_step_up by simp
  next
    case False
    then obtain r2 where r2: "for_nodes (to_peer request_vote) (members r1) r1 = Some r2" "r' = reset_election_timer r2"
      using run by auto
    have "fixed r1 r2" by (rule fixed_for_nodes [OF _ r2(1)]) (rule ask)
    then show ?thesis unfolding r2(2) by (rule fixed_trans) (rule fixed_frame [OF frame_timers(2)])
  qed
  ultimately show ?thesis by (rule fixed_trans)
qed

lemma fixed_pre_vote:
  assumes "pre_vote w early r = Some r'"
  shows "fixed r r'"
proof (cases "cluster_size r = 1 \<and> contains r (r_self_id r)")
  case True
  then show ?thesis using assms fixed_leader_election by (simp add: pre_vote_def Let_def)
next
  case False
  let ?r1 = "r\<lparr>r_pre_votes_granted := of_bool (contains r (r_self_id r)), r_pre_votes_refused := 0, r_role := FOLLOWER\<rparr>"
  have run: "for_nodes (to_peer (send_pre_vote early)) (members ?r1) ?r1 = Some r'"
    using assms False by (auto simp: pre_vote_def Let_def)
  have "frame ?r1 r'" by (rule frame_for_nodes [OF _ run]) (rule frame_to_peer [OF frame_send_pre_vote])
  then show ?thesis by (simp add: fixed_def frameD)
qed

lemma fixed_checkout: "checkout w r = Some r' \<Longrightarrow> fixed r r'"
  using fixed_leader_election fixed_frame [OF frame_timers(2), of r] by (auto simp: checkout_def split: if_splits)

lemma fixed_handlers:
  "on_pre_vote w ans r = Some r' \<Longrightarrow> fixed r r'"
  "on_request_vote w v r = Some r' \<Longrightarrow> fixed r r'"
  "on_election_timeout w ec r = Some r' \<Longrightarrow> fixed r r'"
  "rpc_timeout_now w q r = Some (res, r') \<Longrightarrow> fixed r r'"
  "rpc_request_vote req r = Some (vs, r') \<Longrightarrow> fixed r r'"
proof -
  show "on_pre_vote w ans r = Some r' \<Longrightarrow> fixed r r'"
    using fixed_checkout by (fastforce simp: on_pre_vote_def fixed_def split: if_splits option.splits)
  show "on_request_vote w v r = Some r' \<Longrightarrow> fixed r r'"
    using fixed_step_up fixed_step_down by (fastforce simp: on_request_vote_def Let_def fixed_def split: if_splits option.splits)
  show "on_election_timeout w ec r = Some r' \<Longrightarrow> fixed r r'"
    using fixed_pre_vote by (auto simp: on_election_timeout_def split: if_splits)
  show "rpc_timeout_now w q r = Some (res, r') \<Longrightarrow> fixed r r'"
    using fixed_pre_vote [of w True "remove_election_timer r" r'] fixed_frame [OF frame_timers(1), of r]
    by (auto simp: rpc_timeout_now_def intro: fixed_trans split: bind_splits)
  show "rpc_request_vote req r = Some (vs, r') \<Longrightarrow> fixed r r'"
    using fixed_step_down by (fastforce simp: rpc_request_vote_def Let_def fixed_def split: bind_splits if_splits)
qed

section \<open>The role\<close>

lemma staysI:
  "fixed r r' \<Longrightarrow> quiet r r' \<Longrightarrow> stays r r'"
  "fixed r r' \<Longrightarrow> raised r r' \<Longrightarrow> stays r r'"
  "fixed r r' \<Longrightarrow> candidacy ids i r r' \<Longrightarrow> stays r r'"
  by (auto simp: stays_def quiet_def raised_def candidacy_def)

lemma stays_may_elect: "fixed r r' \<Longrightarrow> may_elect ids i r r' \<Longrightarrow> stays r r'"
  by (auto simp: may_elect_def intro: staysI)

lemma stays_frame: "frame r r' \<Longrightarrow> stays r r'"
  by (blast intro: staysI(1) fixed_frame frame_quiet)

lemma stays_on_request_vote: "on_request_vote w v r = Some r' \<Longrightarrow> stays r r'"
  using on_request_vote_effect(2) [of w v r r'] fixed_handlers(2) [of w v r r'] staysI(1,2) by (fastforce simp: stays_def)

lemma stays_rpc_request_vote:
  assumes "rpc_request_vote req r = Some (vs, r')" and "good_id (vq_candidate_id req)"
  shows "stays r r'"
  using rpc_request_vote_effect(3,4) [OF assms] fixed_handlers(5) [OF assms(1)] staysI(1,2)
  by (cases "vs_vote_granted vs") (auto simp: stays_def)

end
