(* ===== verification/Log_Matching.thy ===== *)
theory Log_Matching
  imports Log_Plain Log_Kept Append_Quiet Election_Safety
begin

text \<open>
  The cluster of \<open>Election_Safety\<close> with its logs: elections, heartbeats, commands at the leader,
  the delivery of any \<open>append_entries\<close> request that was ever sent, as often as the network likes,
  any answer to it, and servers that crash and start again.  The servers start from a common log \<open>P\<close>,
  whose last configuration entry lists them; the membership stays fixed and no log is compacted.  The
  invariant keeps a history of every term, and gives log matching.
\<close>

section \<open>The system\<close>

text \<open>
  What a crash and a new start leave of a server: the term and the vote of the vote file and the log,
  opened again (see \<open>server_restarts\<close> for \<open>init\<close>).  What it has sent is still on its way.
\<close>

definition restarted :: "os \<Rightarrow> raft \<Rightarrow> raft \<Rightarrow> bool" where
  "restarted os r r' \<longleftrightarrow> r_curr_term r' = r_curr_term r \<and> r_voted_for r' = r_voted_for r \<and> r_role r' = FOLLOWER \<and>
     r_out r' = r_out r \<and> ready r' \<and>
     (\<forall>a. live_rep os (r_log r) a \<longrightarrow> live_rep os (r_log r') a \<and> lg_cfg (r_log r') = cfg_after 0 (al_entries a))"

inductive log_step :: "os \<Rightarrow> string set \<Rightarrow> sys \<Rightarrow> sys \<Rightarrow> bool" for os ids where
  Elect: "election_step ids \<sigma> \<sigma>' \<Longrightarrow> log_step os ids \<sigma> \<sigma>'"
| Command: "i \<in> ids \<Longrightarrow> command_room txt (s_server \<sigma> i) \<Longrightarrow> raft_append os txt (s_server \<sigma> i) = Some (n, r') \<Longrightarrow>
    log_step os ids \<sigma> (update i r' \<sigma>)"
| Append: "i \<in> ids \<Longrightarrow> (t, req) \<in> set (appends (s_server \<sigma> i)) \<Longrightarrow> j \<in> ids \<Longrightarrow> t_host t @ '':'' @ t_port t = j \<Longrightarrow>
    request_room req (s_server \<sigma> j) \<Longrightarrow> w_os w = os \<Longrightarrow> rpc_append_entries w req (s_server \<sigma> j) = Some (res, failed, r') \<Longrightarrow>
    log_step os ids \<sigma> (update j r' \<sigma>)"
| Append_answer: "i \<in> ids \<Longrightarrow> dest_ok (s_server \<sigma> i) t \<Longrightarrow>
    (\<And>v. ans = Some v \<Longrightarrow> as_match_index v + 1 < u64_bound) \<Longrightarrow> on_append_entries w t ans (s_server \<sigma> i) = Some r' \<Longrightarrow>
    log_step os ids \<sigma> (update i r' \<sigma>)"
| Restart: "i \<in> ids \<Longrightarrow> restarted os (s_server \<sigma> i) r' \<Longrightarrow> member_ok ids i r' \<Longrightarrow> log_step os ids \<sigma> (update i r' \<sigma>)"

definition log_start :: "os \<Rightarrow> string set \<Rightarrow> LogEntry list \<Rightarrow> sys \<Rightarrow> bool" where
  "log_start os ids P \<sigma> \<longleftrightarrow> sys_start ids \<sigma> \<and> serves ids P \<and>
     (\<forall>i \<in> ids. plain_rep os P (r_log (s_server \<sigma> i)) P \<and> ready (s_server \<sigma> i) \<and> appends (s_server \<sigma> i) = [])"

inductive log_reachable :: "os \<Rightarrow> string set \<Rightarrow> LogEntry list \<Rightarrow> sys \<Rightarrow> bool" for os ids P where
  start: "log_start os ids P \<sigma> \<Longrightarrow> log_reachable os ids P \<sigma>"
| step: "log_reachable os ids P \<sigma> \<Longrightarrow> log_step os ids \<sigma> \<sigma>' \<Longrightarrow> log_reachable os ids P \<sigma>'"

section \<open>The invariant\<close>

definition inv_logs :: "os \<Rightarrow> string set \<Rightarrow> LogEntry list \<Rightarrow> sys \<Rightarrow> history \<Rightarrow> bool" where
  "inv_logs os ids P \<sigma> H \<longleftrightarrow> (\<forall>i \<in> ids. ready (s_server \<sigma> i) \<and> (\<exists>L. plain_rep os P (r_log (s_server \<sigma> i)) L \<and> agrees P H L \<and>
     (r_role (s_server \<sigma> i) = LEADER \<longrightarrow> L = H (r_curr_term (s_server \<sigma> i)))))"

definition inv_requests :: "string set \<Rightarrow> sys \<Rightarrow> history \<Rightarrow> bool" where
  "inv_requests ids \<sigma> H \<longleftrightarrow> (\<forall>i \<in> ids. \<forall>(t, req) \<in> set (appends (s_server \<sigma> i)).
     segment (H (aq_term req)) (aq_prev_log_index req) (aq_prev_log_term req) (aq_entries req))"

definition inv_history :: "LogEntry list \<Rightarrow> sys \<Rightarrow> history \<Rightarrow> bool" where
  "inv_history P \<sigma> H \<longleftrightarrow> histories P H \<and> (\<forall>t. H t = [] \<or> plain P (H t)) \<and> (\<forall>t. H t \<noteq> [] \<longrightarrow> (\<exists>i. (t, i) \<in> s_leaders \<sigma>))"

definition inv_terms :: "string set \<Rightarrow> sys \<Rightarrow> bool" where
  "inv_terms ids \<sigma> \<longleftrightarrow> (\<forall>i \<in> ids. r_role (s_server \<sigma> i) = CANDIDATE \<longrightarrow> (r_curr_term (s_server \<sigma> i), i) \<notin> s_leaders \<sigma>) \<and>
     (\<forall>(t, i) \<in> s_leaders \<sigma>. t \<le> r_curr_term (s_server \<sigma> i))"

definition log_inv :: "os \<Rightarrow> string set \<Rightarrow> LogEntry list \<Rightarrow> sys \<Rightarrow> history \<Rightarrow> bool" where
  "log_inv os ids P \<sigma> H \<longleftrightarrow> serves ids P \<and> inv_logs os ids P \<sigma> H \<and> inv_requests ids \<sigma> H \<and> inv_history P \<sigma> H \<and> inv_terms ids \<sigma>"

lemma log_inv_start: "log_start os ids P \<sigma> \<Longrightarrow> log_inv os ids P \<sigma> (\<lambda>_. [])"
  by (auto simp: log_start_def sys_start_def log_inv_def inv_logs_def inv_requests_def inv_history_def inv_terms_def histories_def)

lemma log_invD:
  assumes "log_inv os ids P \<sigma> H" and "i \<in> ids"
  obtains L where "ready (s_server \<sigma> i)" "plain_rep os P (r_log (s_server \<sigma> i)) L" "agrees P H L"
    "r_role (s_server \<sigma> i) = LEADER \<Longrightarrow> L = H (r_curr_term (s_server \<sigma> i))"
  using assms by (auto simp: log_inv_def inv_logs_def)

lemma leader_known:
  "reachable ids \<sigma> \<Longrightarrow> i \<in> ids \<Longrightarrow> r_role (s_server \<sigma> i) = LEADER \<Longrightarrow> (r_curr_term (s_server \<sigma> i), i) \<in> s_leaders \<sigma>"
  using sys_inv_reachable by (auto simp: sys_inv_def inv_roles_def)

text \<open>A server moved.\<close>

definition moves :: "string \<Rightarrow> raft \<Rightarrow> sys \<Rightarrow> sys \<Rightarrow> bool" where
  "moves i r' \<sigma> \<sigma>' \<longleftrightarrow> s_server \<sigma>' = (s_server \<sigma>)(i := r') \<and>
     s_leaders \<sigma>' = s_leaders \<sigma> \<union> (if r_role r' = LEADER then {(r_curr_term r', i)} else {})"

lemma moves_update [simp]: "moves i r' \<sigma> (update i r' \<sigma>)"
  by (simp add: moves_def)

definition extends :: "LogEntry list \<Rightarrow> history \<Rightarrow> history \<Rightarrow> bool" where
  "extends P H H' \<longleftrightarrow> (\<forall>t. \<exists>M. H' t = H t @ M) \<and> (\<forall>L. agrees P H L \<longrightarrow> agrees P H' L)"

lemma extends_refl [simp]: "extends P H H"
  by (simp add: extends_def)

lemma inv_requests_moves:
  assumes "inv_requests ids \<sigma> H" and "moves i r' \<sigma> \<sigma>'" and "extends P H H'"
    and "\<And>t req. (t, req) \<in> set (appends r') \<Longrightarrow> (t, req) \<in> set (appends (s_server \<sigma> i)) \<or>
      segment (H' (aq_term req)) (aq_prev_log_index req) (aq_prev_log_term req) (aq_entries req)"
  shows "inv_requests ids \<sigma>' H'"
proof -
  have s: "segment (H' u) p v es" if "segment (H u) p v es" for u p v es
    using segment_extend [OF that] assms(3) unfolding extends_def by metis
  have old: "segment (H (aq_term req)) (aq_prev_log_index req) (aq_prev_log_term req) (aq_entries req)"
    if "j \<in> ids" "(t, req) \<in> set (appends (s_server \<sigma> j))" for j t req
    using that assms(1) by (auto simp: inv_requests_def)
  show ?thesis
    unfolding inv_requests_def
  proof (intro ballI)
    fix j x assume j: "j \<in> ids" and x: "x \<in> set (appends (s_server \<sigma>' j))"
    obtain t req where tr: "x = (t, req)" by (cases x)
    show "case x of (t, req) \<Rightarrow>
        segment (H' (aq_term req)) (aq_prev_log_index req) (aq_prev_log_term req) (aq_entries req)"
    proof (cases "j = i")
      case True
      then show ?thesis using x j tr assms(2) assms(4) [of t req] s [OF old] by (auto simp: moves_def)
    next
      case False
      then show ?thesis using x j tr assms(2) s [OF old] by (auto simp: moves_def)
    qed
  qed
qed

lemma inv_terms_moves:
  assumes "inv_terms ids \<sigma>" and "moves i r' \<sigma> \<sigma>'" and "r_curr_term (s_server \<sigma> i) \<le> r_curr_term r'"
    and "r_role r' = CANDIDATE \<Longrightarrow> r_curr_term r' = r_curr_term (s_server \<sigma> i) \<Longrightarrow> r_role (s_server \<sigma> i) = CANDIDATE"
  shows "inv_terms ids \<sigma>'"
  unfolding inv_terms_def
proof (intro conjI ballI impI)
  fix j assume j: "j \<in> ids" "r_role (s_server \<sigma>' j) = CANDIDATE"
  show "(r_curr_term (s_server \<sigma>' j), j) \<notin> s_leaders \<sigma>'"
  proof (cases "j = i")
    case True
    then have r: "s_server \<sigma>' j = r'" "s_leaders \<sigma>' = s_leaders \<sigma>" using assms(2) j by (auto simp: moves_def)
    show ?thesis
    proof
      assume "(r_curr_term (s_server \<sigma>' j), j) \<in> s_leaders \<sigma>'"
      then have l: "(r_curr_term r', i) \<in> s_leaders \<sigma>" using r True by simp
      then have "r_curr_term r' \<le> r_curr_term (s_server \<sigma> i)" using assms(1) by (auto simp: inv_terms_def)
      then have "r_curr_term r' = r_curr_term (s_server \<sigma> i)" using assms(3) by simp
      then show False using l assms(1,4) j True r by (auto simp: inv_terms_def)
    qed
  next
    case False
    then show ?thesis using assms(1,2) j by (auto simp: inv_terms_def moves_def)
  qed
next
  fix x assume x: "x \<in> s_leaders \<sigma>'"
  obtain t j where tj: "x = (t, j)" by (cases x)
  show "case x of (t, j) \<Rightarrow> t \<le> r_curr_term (s_server \<sigma>' j)"
    using x tj assms(1-3) by (fastforce simp: inv_terms_def moves_def split: if_splits)
qed

lemma inv_logs_moves:
  assumes "inv_logs os ids P \<sigma> H" and "moves i r' \<sigma> \<sigma>'" and "extends P H H'" and "ready r'"
    and "plain_rep os P (r_log r') L" and "agrees P H' L" and "r_role r' = LEADER \<Longrightarrow> L = H' (r_curr_term r')"
    and "\<And>j. j \<in> ids \<Longrightarrow> j \<noteq> i \<Longrightarrow> r_role (s_server \<sigma> j) = LEADER \<Longrightarrow>
      H' (r_curr_term (s_server \<sigma> j)) = H (r_curr_term (s_server \<sigma> j))"
  shows "inv_logs os ids P \<sigma>' H'"
  unfolding inv_logs_def
proof (intro ballI)
  fix j assume j: "j \<in> ids"
  show "ready (s_server \<sigma>' j) \<and> (\<exists>L. plain_rep os P (r_log (s_server \<sigma>' j)) L \<and> agrees P H' L \<and>
     (r_role (s_server \<sigma>' j) = LEADER \<longrightarrow> L = H' (r_curr_term (s_server \<sigma>' j))))"
  proof (cases "j = i")
    case True
    then show ?thesis using assms(2,4-7) by (auto simp: moves_def)
  next
    case False
    then have "s_server \<sigma>' j = s_server \<sigma> j" using assms(2) by (simp add: moves_def)
    then show ?thesis using assms(1,3) assms(8) [OF j False] j unfolding inv_logs_def extends_def by fastforce
  qed
qed

lemma inv_history_moves:
  assumes "inv_history P \<sigma> H" and "moves i r' \<sigma> \<sigma>'" and "histories P H'"
    and "\<And>t. H' t = H t \<or> plain P (H' t) \<and> (t, i) \<in> s_leaders \<sigma>'"
  shows "inv_history P \<sigma>' H'"
proof -
  have "s_leaders \<sigma> \<subseteq> s_leaders \<sigma>'" using assms(2) by (auto simp: moves_def)
  then have "(H' t = [] \<or> plain P (H' t)) \<and> (H' t \<noteq> [] \<longrightarrow> (\<exists>i. (t, i) \<in> s_leaders \<sigma>'))" for t
    using assms(1) assms(4) [of t] unfolding inv_history_def by (metis subsetD)
  then show ?thesis using assms(3) by (simp add: inv_history_def)
qed

text \<open>A step that leaves the log alone; when it makes a leader, the history of its term begins.\<close>

lemma log_inv_stays:
  assumes inv: "log_inv os ids P \<sigma> H" and reach: "reachable ids \<sigma>'" and i: "i \<in> ids"
    and mv: "moves i r' \<sigma> \<sigma>'" and st: "stays (s_server \<sigma> i) r'" and snd: "sends (s_server \<sigma> i) r'"
  shows "\<exists>H'. log_inv os ids P \<sigma>' H'"
proof -
  let ?r = "s_server \<sigma> i" and ?t = "r_curr_term r'"
  obtain L where L: "ready ?r" "plain_rep os P (r_log ?r) L" "agrees P H L" "r_role ?r = LEADER \<Longrightarrow> L = H (r_curr_term ?r)"
    using log_invD [OF inv i] by blast
  from inv have parts: "inv_logs os ids P \<sigma> H" "inv_requests ids \<sigma> H" "inv_history P \<sigma> H" "inv_terms ids \<sigma>"
    and ser: "serves ids P" by (auto simp: log_inv_def)
  have s: "r_log r' = r_log ?r" "r_cluster r' = r_cluster ?r" "r_curr_term ?r \<le> ?t"
    using st by (auto simp: stays_def fixed_def)
  obtain new where new: "ready r'" "appends r' = appends ?r @ new" "\<And>x. x \<in> set new \<Longrightarrow> told r' x"
    using snd L(1) by (auto simp: sends_def)
  define H' where "H' = (if r_role r' = LEADER \<and> (?t, i) \<notin> s_leaders \<sigma> then H(?t := L) else H)"
  have fresh: "H ?t = []" if "r_role r' = LEADER" "(?t, i) \<notin> s_leaders \<sigma>"
  proof (rule ccontr)
    assume "H ?t \<noteq> []"
    then obtain k where k: "(?t, k) \<in> s_leaders \<sigma>" using parts(3) by (auto simp: inv_history_def)
    then have "(?t, k) \<in> s_leaders \<sigma>'" "(?t, i) \<in> s_leaders \<sigma>'" using mv that(1) by (auto simp: moves_def)
    then have "k = i" using unique_leader [OF reach] by blast
    then show False using k that(2) by simp
  qed
  have own: "L = H' ?t" if "r_role r' = LEADER"
  proof (cases "(?t, i) \<in> s_leaders \<sigma>")
    case True
    then have "?t \<le> r_curr_term ?r" using parts(4) by (auto simp: inv_terms_def)
    then have "?t = r_curr_term ?r" using s(3) by simp
    moreover have "r_role ?r \<noteq> CANDIDATE" using True calculation parts(4) i by (auto simp: inv_terms_def)
    ultimately have "r_role ?r = LEADER" using st that by (auto simp: stays_def)
    then show ?thesis using L(4) True \<open>?t = r_curr_term ?r\<close> by (simp add: H'_def)
  qed (use that in \<open>simp add: H'_def\<close>)
  have ext: "extends P H H'" using fresh agrees_begin by (auto simp: H'_def extends_def)
  have hist: "histories P H'" using parts(3) L(3) fresh histories_begin by (auto simp: H'_def inv_history_def)
  have ag: "agrees P H' L" using ext L(3) by (simp add: extends_def)
  have "inv_logs os ids P \<sigma>' H'"
  proof (rule inv_logs_moves [OF parts(1) mv ext new(1) _ ag own])
    show "plain_rep os P (r_log r') L" using L(2) s(1) by simp
    fix j assume j: "j \<in> ids" "j \<noteq> i" "r_role (s_server \<sigma> j) = LEADER"
    have "(r_curr_term (s_server \<sigma> j), j) \<in> s_leaders \<sigma>'"
      using leader_known [OF reach j(1)] j mv by (simp add: moves_def)
    moreover have "(?t, i) \<in> s_leaders \<sigma>'" if "r_role r' = LEADER" using that mv by (simp add: moves_def)
    ultimately have "r_role r' = LEADER \<Longrightarrow> r_curr_term (s_server \<sigma> j) \<noteq> ?t" using unique_leader [OF reach] j(2) by metis
    then show "H' (r_curr_term (s_server \<sigma> j)) = H (r_curr_term (s_server \<sigma> j))" by (auto simp: H'_def)
  qed
  moreover have "inv_requests ids \<sigma>' H'"
  proof (rule inv_requests_moves [OF parts(2) mv ext])
    fix t req assume x: "(t, req) \<in> set (appends r')"
    show "(t, req) \<in> set (appends ?r) \<or>
      segment (H' (aq_term req)) (aq_prev_log_index req) (aq_prev_log_term req) (aq_entries req)"
    proof (cases "(t, req) \<in> set (appends ?r)")
      case False
      then have "told r' (t, req)" using x new(2,3) by auto
      then obtain q n k where q: "r_role r' = LEADER" "vote_core q = vote_core r'" "0 < n_next_index n"
        "req = fill_append_entries q n k (entries_from (r_log r') (n_next_index n))"
        by (auto simp: told_def vote_core_def)
      have q': "r_log q = r_log r'" "r_curr_term q = ?t" using q(2) by (auto simp: vote_core_def)
      have "plain_rep os P (r_log q) L" using L(2) s(1) q'(1) by simp
      from request_segment [OF this q(3), of req k] show ?thesis using q own q' by auto
    qed simp
  qed
  moreover have "inv_history P \<sigma>' H'"
    by (rule inv_history_moves [OF parts(3) mv hist]) (use plain_repD(1) [OF L(2)] mv in \<open>auto simp: H'_def moves_def\<close>)
  moreover have "inv_terms ids \<sigma>'"
    by (rule inv_terms_moves [OF parts(4) mv s(3)]) (use st in \<open>auto simp: stays_def\<close>)
  ultimately show ?thesis using ser by (auto simp: log_inv_def)
qed

section \<open>Commands and requests\<close>

lemma log_inv_command:
  assumes inv: "log_inv os ids P \<sigma> H" and reach: "reachable ids \<sigma>" and i: "i \<in> ids" "r_role (s_server \<sigma> i) = LEADER"
    and room: "command_room txt (s_server \<sigma> i)" and run: "raft_append os txt (s_server \<sigma> i) = Some (n, r')"
  shows "(\<exists>H'. log_inv os ids P (update i r' \<sigma>) H') \<and> (\<exists>l. r' = (s_server \<sigma> i)\<lparr>r_log := l\<rparr>)"
proof -
  let ?r = "s_server \<sigma> i" and ?\<sigma> = "update i r' \<sigma>"
  let ?t = "r_curr_term ?r" and ?e = "command_entry txt ?r"
  obtain L where L: "ready ?r" "plain_rep os P (r_log ?r) L" "agrees P H L" "L = H ?t"
    using log_invD [OF inv i(1)] i(2) by metis
  from inv have parts: "inv_logs os ids P \<sigma> H" "inv_requests ids \<sigma> H" "inv_history P \<sigma> H" "inv_terms ids \<sigma>"
    and ser: "serves ids P" by (auto simp: log_inv_def)
  obtain l where l: "r' = ?r\<lparr>r_log := l\<rparr>" "plain_rep os P l (L @ [?e])"
    using plain_command [OF L(2) i(2) room] run by auto
  have mv: "moves i r' \<sigma> ?\<sigma>" by simp
  have tm: "le_term ?e = ?t" by (simp add: command_entry_def)
  let ?H = "H(?t := H ?t @ [?e])"
  have ext: "extends P H ?H" using agrees_grow [OF _ tm] by (auto simp: extends_def)
  have hist: "histories P ?H" "agrees P ?H (L @ [?e])"
    using histories_grow [OF _ tm, of P H] parts(3) L(3,4) by (simp_all add: inv_history_def)
  have lead: "(?t, i) \<in> s_leaders \<sigma>" using leader_known [OF reach i] .
  have "inv_logs os ids P ?\<sigma> ?H"
  proof (rule inv_logs_moves [OF parts(1) mv ext _ _ hist(2)])
    show "ready r'" using L(1) l(1) by (simp add: ready_def)
    show "plain_rep os P (r_log r') (L @ [?e])" using l by simp
    show "L @ [?e] = ?H (r_curr_term r')" using l(1) L(4) by simp
    fix j assume j: "j \<in> ids" "j \<noteq> i" "r_role (s_server \<sigma> j) = LEADER"
    have "r_curr_term (s_server \<sigma> j) \<noteq> ?t" using leader_known [OF reach j(1,3)] lead unique_leader [OF reach] j(2) by metis
    then show "?H (r_curr_term (s_server \<sigma> j)) = H (r_curr_term (s_server \<sigma> j))" by simp
  qed
  moreover have "inv_requests ids ?\<sigma> ?H"
    by (rule inv_requests_moves [OF parts(2) mv ext]) (use l(1) in \<open>simp_all add: appends_def\<close>)
  moreover have "inv_history P ?\<sigma> ?H"
    by (rule inv_history_moves [OF parts(3) mv hist(1)]) (use plain_repD(1) [OF l(2)] L(4) lead in auto)
  moreover have "inv_terms ids ?\<sigma>"
    by (rule inv_terms_moves [OF parts(4) mv]) (simp_all add: l(1))
  ultimately show ?thesis using l(1) ser by (auto simp: log_inv_def)
qed

text \<open>A step that makes a follower, with a log that agrees with the histories.\<close>

lemma log_inv_follower:
  assumes inv: "log_inv os ids P \<sigma> H" and "ready r'" and "appends r' = appends (s_server \<sigma> j)" and "r_role r' = FOLLOWER"
    and "r_curr_term (s_server \<sigma> j) \<le> r_curr_term r'" and "plain_rep os P (r_log r') M" and "agrees P H M"
  shows "log_inv os ids P (update j r' \<sigma>) H"
proof -
  have mv: "moves j r' \<sigma> (update j r' \<sigma>)" by simp
  from inv have parts: "inv_logs os ids P \<sigma> H" "inv_requests ids \<sigma> H" "inv_history P \<sigma> H" "inv_terms ids \<sigma>"
    and ser: "serves ids P" by (auto simp: log_inv_def)
  have "inv_logs os ids P (update j r' \<sigma>) H"
    by (rule inv_logs_moves [OF parts(1) mv extends_refl assms(2,6,7)]) (use assms(4) in simp_all)
  moreover have "inv_requests ids (update j r' \<sigma>) H"
    by (rule inv_requests_moves [OF parts(2) mv extends_refl]) (use assms(3) in simp)
  moreover have "inv_history P (update j r' \<sigma>) H"
    by (rule inv_history_moves [OF parts(3) mv]) (use parts(3) in \<open>simp_all add: inv_history_def\<close>)
  moreover have "inv_terms ids (update j r' \<sigma>)"
    by (rule inv_terms_moves [OF parts(4) mv assms(5)]) (use assms(4) in simp)
  ultimately show ?thesis using ser by (simp add: log_inv_def)
qed

lemma sent_part:
  assumes "log_inv os ids P \<sigma> H" and "i \<in> ids" and "(t, req) \<in> set (appends (s_server \<sigma> i))"
  shows "segment (H (aq_term req)) (aq_prev_log_index req) (aq_prev_log_term req) (aq_entries req)"
    and "part_of P (aq_prev_log_index req) (aq_entries req)"
proof -
  show seg: "segment (H (aq_term req)) (aq_prev_log_index req) (aq_prev_log_term req) (aq_entries req)"
    using assms by (fastforce simp: log_inv_def inv_requests_def)
  have "H (aq_term req) = [] \<or> plain P (H (aq_term req))" using assms(1) by (auto simp: log_inv_def inv_history_def)
  then show "part_of P (aq_prev_log_index req) (aq_entries req)" using plain_segment seg segment_Nil by fastforce
qed

lemma log_inv_request:
  assumes inv: "log_inv os ids P \<sigma> H" and i: "i \<in> ids" "(t, req) \<in> set (appends (s_server \<sigma> i))" and j: "j \<in> ids"
    and ok: "member_ok ids j (s_server \<sigma> j)" and room: "request_room req (s_server \<sigma> j)" and w: "w_os w = os"
    and run: "rpc_append_entries w req (s_server \<sigma> j) = Some (res, failed, r')"
  shows "r' = s_server \<sigma> j \<or> follows (s_server \<sigma> j) r' \<and> log_inv os ids P (update j r' \<sigma>) H"
proof -
  let ?r = "s_server \<sigma> j" and ?p = "aq_prev_log_index req" and ?es = "aq_entries req" and ?t = "aq_term req"
  obtain L where L: "ready ?r" "plain_rep (w_os w) P (r_log ?r) L" "agrees P H L"
    using log_invD [OF inv j] w by metis
  note seg = sent_part [OF inv i]
  have hist: "histories P H" using inv by (auto simp: log_inv_def inv_history_def)
  have "serves (fst ` set (r_cluster ?r)) P" using inv ok by (simp add: log_inv_def member_ok_def)
  note pl = plain_request [OF L(1,2) seg(2) this room, unfolded run]
  from pl obtain M where M: "plain_rep (w_os w) P (r_log r') M" "M = L \<or>
    (\<exists>j < length ?es. length P \<le> ?p + j \<and> ?p + j \<le> length L \<and> (?p \<noteq> 0 \<longrightarrow> le_term (L ! (?p - 1)) = aq_prev_log_term req) \<and>
       (\<forall>m < j. le_term (L ! (?p + m)) = le_term (?es ! m)) \<and> M = take (?p + j) L @ drop j ?es)" by blast
  have "M = L \<or> M = take (?p + length ?es) (H ?t) \<and> length P \<le> ?p + length ?es \<and> H ?t \<noteq> []"
    using M(2) segment_taken [OF hist L(3) seg(1)] segment_Nil [of ?p _ ?es] seg(1) by (fastforce dest: less_imp_le)
  then have ag: "agrees P H M" using L(3) hist agrees_take by (auto simp: histories_def)
  show ?thesis
  proof (cases "r' = ?r")
    case False
    then have f: "follows ?r r'" using pl by blast
    then have "log_inv os ids P (update j r' \<sigma>) H"
      using log_inv_follower [OF inv _ _ _ _ M(1) [unfolded w] ag] by (simp add: follows_def)
    then show ?thesis using f by blast
  qed simp
qed

lemma log_inv_restart:
  assumes inv: "log_inv os ids P \<sigma> H" and i: "i \<in> ids" and re: "restarted os (s_server \<sigma> i) r'"
  shows "log_inv os ids P (update i r' \<sigma>) H"
proof -
  obtain L where L: "plain_rep os P (r_log (s_server \<sigma> i)) L" "agrees P H L" using log_invD [OF inv i] by blast
  have "plain_rep os P (r_log r') L" using plain_reopen [OF L(1)] re by (simp add: restarted_def)
  then show ?thesis using log_inv_follower [OF inv _ _ _ _ _ L(2)] re by (simp add: restarted_def appends_def)
qed

section \<open>Every step\<close>

lemma election_moves:
  assumes "election_step ids \<sigma> \<sigma>'" and inv: "sys_inv ids \<sigma>"
  shows "s_server \<sigma>' = s_server \<sigma> \<and> s_leaders \<sigma>' = s_leaders \<sigma> \<or>
    (\<exists>i \<in> ids. \<exists>r'. moves i r' \<sigma> \<sigma>' \<and> stays (s_server \<sigma> i) r' \<and> sends (s_server \<sigma> i) r')"
  using assms(1)
proof cases
  have srv: "member_ok ids i (s_server \<sigma> i)" "good_id i" if "i \<in> ids" for i
    using inv that by (auto simp: sys_inv_def inv_servers_def)
  {
    case (Timeout i w ec r')
    then have "stays (s_server \<sigma> i) r'" "sends (s_server \<sigma> i) r'"
      using stays_may_elect [OF fixed_handlers(3) [OF Timeout(3)] on_election_timeout_may [OF Timeout(3)]]
        sends_on_election_timeout [OF Timeout(3)] srv [OF Timeout(2)] Timeout(2) by auto
    then show ?thesis using Timeout(1,2) moves_update by blast
  next
    case (Heartbeat i w ec r')
    then have "frame (s_server \<sigma> i) r'" using frame_append_entries by (auto simp: on_heartbeat_timeout_def split: if_splits)
    then have "stays (s_server \<sigma> i) r'" "sends (s_server \<sigma> i) r'"
      using stays_frame sends_on_heartbeat_timeout [OF Heartbeat(3)] srv [OF Heartbeat(2)] by auto
    then show ?thesis using Heartbeat(1,2) moves_update by blast
  next
    case (Timeout_now i w q res r')
    then have "stays (s_server \<sigma> i) r'" "sends (s_server \<sigma> i) r'"
      using stays_may_elect [OF fixed_handlers(4) [OF Timeout_now(3)] rpc_timeout_now_may [OF Timeout_now(3)]]
        sends_rpc_timeout_now [OF Timeout_now(3)] srv [OF Timeout_now(2)] Timeout_now(2) by auto
    then show ?thesis using Timeout_now(1,2) moves_update by blast
  next
    case (Pre_vote i w q res r')
    then have "r' = s_server \<sigma> i" by (auto simp: rpc_pre_vote_def Let_def split: if_splits)
    then have "stays (s_server \<sigma> i) r'" "sends (s_server \<sigma> i) r'" using stays_frame keeps_sends by auto
    then show ?thesis using Pre_vote(1,2) moves_update by blast
  next
    case (Pre_vote_answer i w ans r')
    then have "stays (s_server \<sigma> i) r'" "sends (s_server \<sigma> i) r'"
      using stays_may_elect [OF fixed_handlers(1) [OF Pre_vote_answer(3)] on_pre_vote_may [OF Pre_vote_answer(3)]]
        sends_on_pre_vote [OF Pre_vote_answer(3)] srv [OF Pre_vote_answer(2)] Pre_vote_answer(2) by auto
    then show ?thesis using Pre_vote_answer(1,2) moves_update by blast
  next
    case (Vote v xs c req ys res r')
    then have "good_id (vq_candidate_id req)" using inv srv by (auto simp: sys_inv_def inv_calls_def call_ok_def)
    then have "stays (s_server \<sigma> v) r'" "sends (s_server \<sigma> v) r'"
      using stays_rpc_request_vote [OF Vote(4)] keeps_sends [OF keeps_rpc_request_vote [OF Vote(4)]] by auto
    moreover have "moves v r' \<sigma> \<sigma>'" unfolding Vote(1) by (simp add: moves_def)
    ultimately show ?thesis using Vote(2) by blast
  next
    case (Vote_answer c xs v req res ys w r')
    then have "stays (s_server \<sigma> c) r'" "sends (s_server \<sigma> c) r'"
      using stays_on_request_vote [OF Vote_answer(4)] sends_on_request_vote [OF Vote_answer(4)] srv [OF Vote_answer(2)] by auto
    moreover have "moves c r' \<sigma> \<sigma>'" unfolding Vote_answer(1) by (simp add: moves_def)
    ultimately show ?thesis using Vote_answer(2) by blast
  next
    case (Lost xs x ys)
    then show ?thesis by simp
  next
    case (Lost_answer xs x ys)
    then show ?thesis by simp
  }
qed

lemma log_inv_cong: "s_server \<sigma>' = s_server \<sigma> \<Longrightarrow> s_leaders \<sigma>' = s_leaders \<sigma> \<Longrightarrow> log_inv os ids P \<sigma> H \<Longrightarrow> log_inv os ids P \<sigma>' H"
  by (simp add: log_inv_def inv_logs_def inv_requests_def inv_history_def inv_terms_def)

text \<open>One server's step, given what it did to the election state and to the log.\<close>

lemma log_inv_other:
  assumes inv: "log_inv os ids P \<sigma> H" and reach: "reachable ids \<sigma>" and i: "i \<in> ids"
    and qr: "quiet (s_server \<sigma> i) r' \<or> raised (s_server \<sigma> i) r'" and ok: "member_ok ids i r'"
    and eff: "fixed (s_server \<sigma> i) r' \<and> sends (s_server \<sigma> i) r' \<or> (\<exists>H'. log_inv os ids P (update i r' \<sigma>) H')"
  shows "reachable ids (update i r' \<sigma>) \<and> (\<exists>H'. log_inv os ids P (update i r' \<sigma>) H')"
proof -
  have r': "reachable ids (update i r' \<sigma>)" using reachable.step [OF reach] sys_step.Other [OF i qr ok] by blast
  have "\<exists>H'. log_inv os ids P (update i r' \<sigma>) H'" if "fixed (s_server \<sigma> i) r'" "sends (s_server \<sigma> i) r'"
    using log_inv_stays [OF inv r' i moves_update] staysI(1,2) qr that by blast
  with r' eff show ?thesis by blast
qed

lemma log_inv_step:
  assumes "log_step os ids \<sigma> \<sigma>'" and reach: "reachable ids \<sigma>" and inv: "log_inv os ids P \<sigma> H"
  shows "reachable ids \<sigma>' \<and> (\<exists>H'. log_inv os ids P \<sigma>' H')"
  using assms(1)
proof cases
  have srv: "member_ok ids i (s_server \<sigma> i)" if "i \<in> ids" for i
    using sys_inv_reachable [OF reach] that by (auto simp: sys_inv_def inv_servers_def)
  have idle: "reachable ids (update i r' \<sigma>) \<and> (\<exists>H'. log_inv os ids P (update i r' \<sigma>) H')" if "i \<in> ids" "r' = s_server \<sigma> i" for i r'
    unfolding that(2)
    by (rule log_inv_other [OF inv reach that(1)])
      (use srv [OF that(1)] keeps_sends [OF keeps_refl] frame_quiet [OF frame_refl] fixed_refl in \<open>blast\<close>)+
  {
    case Elect
    have r': "reachable ids \<sigma>'" using reachable_election [OF reach Elect] .
    have "\<exists>H'. log_inv os ids P \<sigma>' H'"
      using election_moves [OF Elect sys_inv_reachable [OF reach]]
    proof (elim disjE bexE exE conjE)
      fix i q assume i: "i \<in> ids" and q: "moves i q \<sigma> \<sigma>'" "stays (s_server \<sigma> i) q" "sends (s_server \<sigma> i) q"
      show ?thesis using log_inv_stays [OF inv r' i q] by blast
    qed (rule exI, rule log_inv_cong [OF _ _ inv])
    then show ?thesis using r' by blast
  next
    case (Command i text' n r')
    show ?thesis unfolding Command(1)
    proof (cases "r_role (s_server \<sigma> i) = LEADER")
      case True
      from log_inv_command [OF inv reach Command(2) True Command(3) Command(4)] obtain l where
        l: "r' = (s_server \<sigma> i)\<lparr>r_log := l\<rparr>" "\<exists>H'. log_inv os ids P (update i r' \<sigma>) H'" by blast
      have "quiet (s_server \<sigma> i) r'" "member_ok ids i r' = member_ok ids i (s_server \<sigma> i)"
        using l(1) member_ok_cong [of r' "s_server \<sigma> i"] by (simp_all add: quiet_def ballots_def peer_names_def members_def)
      then show "reachable ids (update i r' \<sigma>) \<and> (\<exists>H'. log_inv os ids P (update i r' \<sigma>) H')"
        using log_inv_other [OF inv reach Command(2)] l(2) srv [OF Command(2)] by blast
    next
      case False
      then have "r' = s_server \<sigma> i" using Command(4) by (simp add: raft_append_def)
      then show "reachable ids (update i r' \<sigma>) \<and> (\<exists>H'. log_inv os ids P (update i r' \<sigma>) H')"
        by (rule idle [OF Command(2)])
    qed
  next
    case (Append i t req j w res failed r')
    have e: "quiet (s_server \<sigma> j) r' \<or> raised (s_server \<sigma> j) r'" using rpc_append_entries_quiet [OF Append(8)] .
    from log_inv_request [OF inv Append(2,3,4) srv [OF Append(4)] Append(6,7,8)] show ?thesis unfolding Append(1)
    proof
      assume "r' = s_server \<sigma> j"
      then show "reachable ids (update j r' \<sigma>) \<and> (\<exists>H'. log_inv os ids P (update j r' \<sigma>) H')"
        by (rule idle [OF Append(4)])
    next
      assume f: "follows (s_server \<sigma> j) r' \<and> log_inv os ids P (update j r' \<sigma>) H"
      then have "member_ok ids j r' = member_ok ids j (s_server \<sigma> j)"
        using member_ok_cong [of r' "s_server \<sigma> j"] by (simp add: follows_def)
      then show "reachable ids (update j r' \<sigma>) \<and> (\<exists>H'. log_inv os ids P (update j r' \<sigma>) H')"
        using log_inv_other [OF inv reach Append(4) e] f srv [OF Append(4)] by blast
    qed
  next
    case (Append_answer i t ans w r')
    let ?r = "s_server \<sigma> i"
    have "ready ?r" using log_invD [OF inv Append_answer(2)] by blast
    moreover obtain k where "(k, t_node t) \<in> set (r_cluster ?r)" "k \<noteq> r_self_id ?r"
      using Append_answer(3) by (auto simp: dest_ok_def)
    ultimately have e: "sends ?r r' \<and> (frame ?r r' \<or> (\<exists>v s. ans = Some v \<and> r_curr_term ?r < as_term v \<and> step_down (as_term v) s ?r = Some r'))"
      using on_append_entries_effect [OF Append_answer(5) _ srv [OF Append_answer(2)] _ _ Append_answer(4)] by blast
    then have "fixed ?r r'" "quiet ?r r' \<or> raised ?r r'" "member_ok ids i r' = member_ok ids i ?r"
      using fixed_frame fixed_step_down frame_quiet step_down_raised(1) step_down_raised(4) [of _ _ ?r r' ids i] member_ok_frame by metis+
    then show ?thesis unfolding Append_answer(1)
      using log_inv_other [OF inv reach Append_answer(2)] e srv [OF Append_answer(2)] by blast
next
    case (Restart i r')
    have "quiet (s_server \<sigma> i) r'" using Restart(3) by (simp add: restarted_def quiet_def ballots_def)
    then show ?thesis unfolding Restart(1)
      using log_inv_other [OF inv reach Restart(2) _ Restart(4)] log_inv_restart [OF inv Restart(2,3)] by blast
  }
qed

lemma log_reachable_inv:
  assumes "log_reachable os ids P \<sigma>"
  shows "reachable ids \<sigma> \<and> (\<exists>H. log_inv os ids P \<sigma> H)"
  using assms
proof induction
  case (start \<sigma>)
  have "sys_start ids \<sigma>" using start by (simp add: log_start_def)
  then show ?case using log_inv_start [OF start] reachable.start by blast
next
  case (step \<sigma> \<sigma>')
  then show ?case using log_inv_step by blast
qed

section \<open>Log matching\<close>

lemma logs_match:
  assumes "log_reachable os ids P \<sigma>" and i: "i \<in> ids" and j: "j \<in> ids"
    and x: "get_entry (r_log (s_server \<sigma> i)) k = Some x" and y: "get_entry (r_log (s_server \<sigma> j)) k = Some y"
    and "e_term x = e_term y" and "m \<le> k"
  shows "map_option to_LogEntry (get_entry (r_log (s_server \<sigma> i)) m) = map_option to_LogEntry (get_entry (r_log (s_server \<sigma> j)) m)"
proof -
  obtain H where inv: "log_inv os ids P \<sigma> H" using log_reachable_inv [OF assms(1)] by blast
  obtain L where L: "plain_rep os P (r_log (s_server \<sigma> i)) L" "agrees P H L" using log_invD [OF inv i] by blast
  obtain M where M: "plain_rep os P (r_log (s_server \<sigma> j)) M" "agrees P H M" using log_invD [OF inv j] by blast
  show ?thesis
  proof (cases m)
    case 0
    then show ?thesis using plain_rep_get(5) L(1) M(1) by simp
  next
    case (Suc m')
    then obtain k' where k: "k = Suc k'" "m' \<le> k'" using assms(7) by (cases k) auto
    have "k' < length L \<and> L ! k' = to_LogEntry x" "k' < length M \<and> M ! k' = to_LogEntry y"
      using plain_rep_get(1) [OF L(1), of k'] plain_rep_get(1) [OF M(1), of k'] x y k(1) by (auto split: if_splits)
    then have lt: "k' < length L" "k' < length M" "le_term (L ! k') = le_term (M ! k')" using assms(6) by simp_all
    then have "take (Suc k') L = take (Suc k') M" using agrees_matching [OF L(2) M(2)] by blast
    then have "L ! m' = M ! m'" "m' < length L" "m' < length M" using k(2) lt by (metis le_imp_less_Suc nth_take, simp_all)
    then show ?thesis unfolding Suc plain_rep_get(1) [OF L(1)] plain_rep_get(1) [OF M(1)] by simp
  qed
qed

end
