(* ===== verification/Handlers_Return.thy ===== *)
theory Handlers_Return
  imports Log_Matching
begin

text \<open>
  No handler of a server with a fixed membership comes to a null pointer or a loop without end: each
  returns.  \<open>sound\<close> is the well-formedness this takes: the cluster map leads to a node for every
  member, nothing is in progress, and the log is represented.
\<close>

definition sound :: "os \<Rightarrow> string set \<Rightarrow> LogEntry list \<Rightarrow> string \<Rightarrow> raft \<Rightarrow> bool" where
  "sound os ids P i r \<longleftrightarrow> member_ok ids i r \<and> ready r \<and> (\<exists>L. plain_rep os P (r_log r) L)"

lemma sound_frame: "sound os ids P i r \<Longrightarrow> frame r r' \<Longrightarrow> ready r' \<Longrightarrow> sound os ids P i r'"
  by (simp add: sound_def member_ok_frame frameD(7))

lemma sound_node:
  assumes "sound os ids P i r" and "a \<in> set (members r)"
  shows "\<exists>n. node_at r a = Some n"
  using assms member_ok_node [of ids i r] by (fastforce simp: sound_def members_def)

text \<open>A loop over the members returns when its body does and keeps the members.\<close>

lemma for_nodes_returns:
  assumes "\<And>a r. P r \<Longrightarrow> a \<in> M \<Longrightarrow> \<exists>r'. f a r = Some r' \<and> P r'" and "P r" and "set as \<subseteq> M"
  shows "\<exists>r'. for_nodes f as r = Some r' \<and> P r'"
  using assms(2,3)
proof (induction "as" arbitrary: r)
  case (Cons a "as")
  then obtain r1 where "f a r = Some r1" "P r1" using assms(1) [of r a] by auto
  with Cons show ?case by auto
qed simp

text \<open>What a server sends changes a counter and adds an action.\<close>

definition sends_ok :: "os \<Rightarrow> string set \<Rightarrow> LogEntry list \<Rightarrow> string \<Rightarrow> raft \<Rightarrow> raft option \<Rightarrow> bool" where
  "sends_ok os ids P i r res \<longleftrightarrow> (\<exists>r'. res = Some r' \<and> sound os ids P i r' \<and> members r' = members r)"

lemma sound_emit [simp]: "sound os ids P i (emit act r) = sound os ids P i r"
  by (simp add: sound_def ready_def member_ok_def peer_names_def members_def emit_def)

lemma sound_ids [simp]:
  "sound os ids P i (r\<lparr>r_pre_vote_id := k\<rparr>) = sound os ids P i r" "sound os ids P i (r\<lparr>r_request_vote_id := k\<rparr>) = sound os ids P i r"
  "sound os ids P i (r\<lparr>r_append_entries_id := k\<rparr>) = sound os ids P i r" "sound os ids P i (r\<lparr>r_last_heartbeat := h\<rparr>) = sound os ids P i r"
  by (simp_all add: sound_def ready_def member_ok_def peer_names_def members_def)

lemma sound_timers [simp]:
  "sound os ids P i (remove_election_timer r) = sound os ids P i r" "sound os ids P i (reset_election_timer r) = sound os ids P i r"
  "sound os ids P i (reset_heartbeat_timer r) = sound os ids P i r"
  by (simp_all add: remove_election_timer_def reset_election_timer_def reset_heartbeat_timer_def)

lemma senders_return:
  assumes "sound os ids P i q" and "a \<in> set (members q)"
  shows "sends_ok os ids P i q (send_pre_vote early a q)" "sends_ok os ids P i q (request_vote a q)" "sends_ok os ids P i q (append_entries_to a q)"
proof -
  obtain n where "node_at q a = Some n" using sound_node [OF assms] by blast
  moreover have "members (q\<lparr>r_pre_vote_id := k\<rparr>) = members q" "members (q\<lparr>r_request_vote_id := k\<rparr>) = members q"
    "members (q\<lparr>r_append_entries_id := k\<rparr>) = members q" for k by (simp_all add: members_def)
  ultimately show "sends_ok os ids P i q (send_pre_vote early a q)" "sends_ok os ids P i q (request_vote a q)" "sends_ok os ids P i q (append_entries_to a q)"
    using assms(1) by (simp_all add: sends_ok_def send_pre_vote_def request_vote_def append_entries_to_def make_task_def Let_def)
qed

lemma peers_return:
  assumes "sound os ids P i r" and "\<And>a q. sound os ids P i q \<Longrightarrow> a \<in> set (members q) \<Longrightarrow> sends_ok os ids P i q (f a q)"
  shows "\<exists>r'. for_nodes (to_peer f) (members r) r = Some r' \<and> sound os ids P i r'"
proof -
  have "\<exists>r'. for_nodes (to_peer f) (members r) r = Some r' \<and> (sound os ids P i r' \<and> members r' = members r)"
  proof (rule for_nodes_returns [where M = "set (members r)"])
    fix a q assume q: "sound os ids P i q \<and> members q = members r" "a \<in> set (members r)"
    then obtain n q1 where "node_at q a = Some n" "f a q = Some q1" "sound os ids P i q1" "members q1 = members r"
      using sound_node [of os ids P i q a] assms(2) [of q a] by (auto simp: sends_ok_def)
    then show "\<exists>q'. to_peer f a q = Some q' \<and> (sound os ids P i q' \<and> members q' = members r)" using q by (simp add: to_peer_def)
  qed (use assms(1) in simp_all)
  then show ?thesis by blast
qed

section \<open>Sending\<close>

lemma step_down_returns: "ready r \<Longrightarrow> \<exists>r'. step_down t s r = Some r'"
  using step_down_ready by (auto simp: ready_def)

text \<open>A server alone has only itself to count.\<close>

lemma adjust_alone_returns:
  assumes "sound os ids P i r" and "cluster_size r = 1" and "contains r (r_self_id r)"
  shows "\<exists>r'. adjust_commit_index r = Some r'"
proof -
  obtain a where cl: "r_cluster r = [(r_self_id r, a)]"
    using assms(2,3) by (cases "r_cluster r") (auto simp: cluster_size_def contains_def)
  obtain n where n: "node_at r a = Some n" "n_id n = r_self_id r"
    using member_ok_node [of ids i r "r_self_id r" a] assms(1) cl by (auto simp: sound_def)
  let ?last = "last_entry_index (r_log r)"
  have "match_bounds r (members r) (?last, 0) = Some (?last, 0)" using cl n by (simp add: members_def)
  moreover have "count_matching r 0 > cluster_size r div 2" using assms(2,3) by (simp add: count_matching_def)
  then have "\<exists>found. commit_scan r 0 ?last = Some found" by (subst commit_scan.simps) simp
  moreover have "r_recfg q = None \<Longrightarrow> commit_configuration c q = Some q" for c q by (simp add: commit_configuration_def)
  moreover have "r_recfg (commit_alone c (set_commit f r)) = None" for c f
    using assms(1) by (auto simp: sound_def ready_def commit_alone_def set_commit_def log_committed_def Let_def split: option.split)
  ultimately show ?thesis by (auto simp: adjust_commit_index_def Let_def)
qed

lemma append_entries_returns:
  assumes "sound os ids P i r"
  shows "\<exists>r'. append_entries w r = Some r'"
proof (cases "r_role r = LEADER")
  case True
  let ?f = "\<lambda>a r. do { n \<leftarrow> node_at r a; if n_transfer_data_to n then Some r else append_entries_to a r }"
  let ?r1 = "(reset_heartbeat_timer r)\<lparr>r_last_heartbeat := w_now w\<rparr>"
  have s1: "sound os ids P i ?r1" using assms by simp
  have "\<exists>r2. for_nodes (to_peer ?f) (members ?r1) ?r1 = Some r2 \<and> sound os ids P i r2"
  proof (rule peers_return [OF s1])
    show "sends_ok os ids P i q (?f a q)" if "sound os ids P i q" "a \<in> set (members q)" for a q
      using senders_return(3) [OF that] sound_node [OF that] that(1) by (auto simp: sends_ok_def)
  qed
  then obtain r2 where r2: "for_nodes (to_peer ?f) (members ?r1) ?r1 = Some r2" and s2: "sound os ids P i r2" by blast
  have "\<exists>r'. (if cluster_size r2 = 1 \<and> contains r2 (r_self_id r2) then adjust_commit_index r2 else Some r2) = Some r'"
    using adjust_alone_returns [OF s2] by auto
  moreover have "members ?r1 = members (reset_heartbeat_timer r)" by (simp add: members_def)
  ultimately show ?thesis using r2 True by (simp add: append_entries_def Let_def)
qed (simp add: append_entries_def Let_def reset_heartbeat_timer_def emit_def)

section \<open>Elections\<close>

lemma sound_fields:
  assumes "sound os ids P i r"
  shows "sound os ids P i (r\<lparr>r_role := role, r_leader := s\<rparr>)" "sound os ids P i (r\<lparr>r_votes := v\<rparr>)" "sound os ids P i (r\<lparr>r_voted_for := s\<rparr>)"
    "sound os ids P i (r\<lparr>r_pre_votes_granted := g\<rparr>)" "sound os ids P i (r\<lparr>r_pre_votes_refused := g\<rparr>)"
    "sound os ids P i (r\<lparr>r_pre_votes_granted := g, r_pre_votes_refused := h, r_role := role\<rparr>)"
    "sound os ids P i (r\<lparr>r_role := role, r_leader := s, r_curr_term := t, r_voted_for := s', r_votes := v\<rparr>)"
  using assms by (simp_all add: sound_def ready_def member_ok_def peer_names_def members_def)

lemma step_up_returns:
  assumes "sound os ids P i r"
  shows "\<exists>r'. step_up w r = Some r'"
proof -
  let ?r1 = "r\<lparr>r_role := LEADER, r_leader := r_self_id r\<rparr>"
  let ?f = "\<lambda>a q. do { _ \<leftarrow> node_at q a;
      Some (set_node a (\<lambda>n. n\<lparr>n_match_index := 0, n_next_index := last_entry_index (r_log r) + 1\<rparr>) q) }"
  have "\<exists>r2. for_nodes ?f (members ?r1) ?r1 = Some r2 \<and> (sound os ids P i r2 \<and> members r2 = members ?r1)"
  proof (rule for_nodes_returns [where M = "set (members ?r1)"])
    fix a q assume q: "sound os ids P i q \<and> members q = members ?r1" "a \<in> set (members ?r1)"
    then obtain n where n: "node_at q a = Some n" using sound_node [of os ids P i q a] by auto
    let ?q = "set_node a (\<lambda>n. n\<lparr>n_match_index := 0, n_next_index := last_entry_index (r_log r) + 1\<rparr>) q"
    have "keeps q ?q" by (rule keeps_set_node) simp
    then have "ready ?q" using q by (simp add: keeps_def sound_def)
    moreover have "frame q ?q" by (rule frame_set_node) (simp add: peer_name_def)
    ultimately have "sound os ids P i ?q" using q sound_frame [of os ids P i q ?q] by simp
    then show "\<exists>q'. ?f a q = Some q' \<and> (sound os ids P i q' \<and> members q' = members ?r1)" using n q by simp
  qed (use sound_fields(1) [OF assms] in simp_all)
  then obtain r2 where r2: "for_nodes ?f (members ?r1) ?r1 = Some r2" "sound os ids P i r2" by blast
  then show ?thesis using append_entries_returns [of os ids P i "remove_election_timer r2" w] by (simp add: step_up_def Let_def)
qed

lemma leader_election_returns:
  assumes "sound os ids P i r"
  shows "\<exists>r'. leader_election w r = Some r'"
proof -
  define r1 where "r1 = r\<lparr>r_role := CANDIDATE, r_leader := ''unknown'', r_curr_term := r_curr_term r + 1,
      r_voted_for := c_string (r_self_id r), r_votes := of_bool (contains r (r_self_id r))\<rparr>"
  have s1: "sound os ids P i r1" unfolding r1_def by (rule sound_fields(7) [OF assms])
  have "\<exists>r2. for_nodes (to_peer request_vote) (members r1) r1 = Some r2 \<and> sound os ids P i r2"
    by (rule peers_return [OF s1 senders_return(2)])
  then show ?thesis using step_up_returns [OF s1] unfolding leader_election_def Let_def r1_def [symmetric] by auto
qed

lemma pre_vote_returns:
  assumes "sound os ids P i r"
  shows "\<exists>r'. pre_vote w early r = Some r'"
proof -
  let ?r1 = "r\<lparr>r_pre_votes_granted := of_bool (contains r (r_self_id r)), r_pre_votes_refused := 0, r_role := FOLLOWER\<rparr>"
  have "\<exists>r'. for_nodes (to_peer (send_pre_vote early)) (members ?r1) ?r1 = Some r' \<and> sound os ids P i r'"
    by (rule peers_return [OF sound_fields(6) [OF assms] senders_return(1)])
  then show ?thesis using leader_election_returns [OF assms] by (auto simp: pre_vote_def Let_def)
qed

lemma checkout_returns: "sound os ids P i r \<Longrightarrow> \<exists>r'. checkout w r = Some r'"
  using leader_election_returns by (auto simp: checkout_def)

lemma handlers_return:
  assumes "sound os ids P i r"
  shows "\<exists>r'. on_election_timeout w ec r = Some r'" "\<exists>r'. on_heartbeat_timeout w ec r = Some r'" "\<exists>res r'. rpc_timeout_now w q r = Some (res, r')"
    "\<exists>r'. on_pre_vote w ans r = Some r'" "\<exists>res r'. rpc_request_vote req r = Some (res, r')" "\<exists>r'. on_request_vote w ans r = Some r'"
proof -
  show "\<exists>r'. on_election_timeout w ec r = Some r'" using pre_vote_returns [OF assms] by (auto simp: on_election_timeout_def)
  show "\<exists>r'. on_heartbeat_timeout w ec r = Some r'" using append_entries_returns [OF assms] by (auto simp: on_heartbeat_timeout_def)
  show "\<exists>res r'. rpc_timeout_now w q r = Some (res, r')"
    using pre_vote_returns [of os ids P i "remove_election_timer r" w True] assms by (auto simp: rpc_timeout_now_def)
  show "\<exists>r'. on_pre_vote w ans r = Some r'"
    using checkout_returns [OF sound_fields(4) [OF assms]] checkout_returns [OF sound_fields(5) [OF assms]]
    by (auto simp: on_pre_vote_def split: option.split)
  have down: "\<exists>r'. step_down t s r = Some r'" "\<exists>r'. step_down t s (r\<lparr>r_voted_for := v\<rparr>) = Some r'" for t s v
    using step_down_returns assms sound_fields(3) [OF assms] by (auto simp: sound_def)
  show "\<exists>r'. on_request_vote w ans r = Some r'"
    using step_up_returns [OF sound_fields(2) [OF assms]] down(1) by (auto simp: on_request_vote_def Let_def split: option.split)
  obtain r1 where r1: "(if vq_term req > r_curr_term r then step_down (vq_term req) [] (r\<lparr>r_voted_for := []\<rparr>) else Some r) = Some r1"
    using down(2) [of "vq_term req" "[]" "[]"] by (cases "vq_term req > r_curr_term r") auto
  have "\<not> vq_term req > r_curr_term r1"
    using r1 step_down_raised(2) [of "vq_term req" "[]" "r\<lparr>r_voted_for := []\<rparr>" r1] by (auto split: if_splits)
  then show "\<exists>res r'. rpc_request_vote req r = Some (res, r')" using r1 by (simp add: rpc_request_vote_def Let_def)
qed

section \<open>The cluster\<close>

lemma log_reachable_sound:
  assumes "log_reachable os ids P \<sigma>" and "i \<in> ids"
  shows "sound os ids P i (s_server \<sigma> i)"
proof -
  obtain H where H: "reachable ids \<sigma>" "log_inv os ids P \<sigma> H" using log_reachable_inv [OF assms(1)] by blast
  then have "member_ok ids i (s_server \<sigma> i)" using sys_inv_reachable assms(2) by (auto simp: sys_inv_def inv_servers_def)
  then show ?thesis using log_invD [OF H(2) assms(2)] by (auto simp: sound_def)
qed

lemma command_returns:
  assumes "sound os ids P i r" and "command_room txt r"
  shows "\<exists>n r'. raft_append os txt r = Some (n, r')"
proof (cases "r_role r = LEADER")
  case True
  then show ?thesis using plain_command [OF _ True assms(2)] assms(1) by (fastforce simp: sound_def)
qed (simp add: raft_append_def)

lemma request_returns:
  assumes "log_reachable os ids P \<sigma>" and "i \<in> ids" "(t, req) \<in> set (appends (s_server \<sigma> i))" and "j \<in> ids"
    and room: "request_room req (s_server \<sigma> j)" and "w_os w = os"
  shows "\<exists>res r'. rpc_append_entries w req (s_server \<sigma> j) = Some (res, False, r')"
proof -
  obtain H where inv: "log_inv os ids P \<sigma> H" using log_reachable_inv [OF assms(1)] by blast
  obtain L where L: "ready (s_server \<sigma> j)" "plain_rep (w_os w) P (r_log (s_server \<sigma> j)) L" using log_invD [OF inv assms(4)] assms(6) by metis
  have "member_ok ids j (s_server \<sigma> j)" using log_reachable_sound [OF assms(1,4)] by (simp add: sound_def)
  then have "serves (fst ` set (r_cluster (s_server \<sigma> j))) P" using inv by (simp add: log_inv_def member_ok_def)
  from plain_request [OF L sent_part(2) [OF inv assms(2,3)] this room] show ?thesis by blast
qed

end
