(* ===== verification/Matching_Properties.thy ===== *)
theory Matching_Properties
  imports Handlers_Return Demo_Cluster
begin

text \<open>
  Log matching, applied to a run in which the demo cluster, which starts from a log with one configuration
  entry, elects a leader, a server crashes and starts again, the leader takes a command, its heartbeat sends
  the entry and the follower stores it.
\<close>

section \<open>The run\<close>

definition demo_start :: "LogEntry list" where
  "demo_start = [\<lparr>le_term = 1, le_index = 1, le_data = ''a:1,b:1,c:1'', le_config = True\<rparr>]"

lemma demo_start_entries: "map to_LogEntry (al_entries demo_alog3) = demo_start"
  by (simp add: demo_start_def to_LogEntry_def)

lemma demo_start_rep: "plain_rep demo_os demo_start demo_log3 demo_start"
proof -
  have "al_index demo_alog3 = 0" "al_term demo_alog3 = 0" "lg_cfg demo_log3 = cfg_after 0 (al_entries demo_alog3)"
    by (simp_all add: demo_log3(3))
  from plain_start [OF demo_live3 this] show ?thesis by (simp only: demo_start_entries)
qed

lemma demo_serves: "serves demo_ids demo_start"
proof -
  have "config_text demo_start = ''a:1,b:1,c:1''" by (simp add: config_text_def config_index_def demo_start_def)
  then show ?thesis by (simp add: serves_def split_pieces pieces.simps demo_ids_def)
qed

lemma demo_ready: "ready (demo_server i)" "appends (demo_server i) = []" "r_log (demo_server i) = demo_log3" "r_role (demo_server i) = FOLLOWER"
  by (auto simp: ready_def appends_def demo_server_def demo_raft_def demo_node_def)

lemma demo_log_start: "log_start demo_os demo_ids demo_start demo_sys0"
proof -
  have "sys_start demo_ids demo_sys0"
    using demo_ready(4) by (auto simp: sys_start_def demo_sys0_def demo_good_id) (simp add: demo_ids_def)
  then show ?thesis using demo_ready demo_start_rep demo_serves by (simp add: log_start_def demo_sys0_def)
qed

lemma demo_elected: "log_reachable demo_os demo_ids demo_start demo_sys4"
  by (rule log_reachable.step [OF log_reachable.step [OF log_reachable.step [OF log_reachable.step]]])
    (rule log_reachable.start demo_log_start log_step.Elect demo_step1 demo_step2 demo_step3 demo_step4)+

lemma demo_elected_state:
  "s_server demo_sys4 ''a:1'' = demo_leader" "s_server demo_sys4 ''b:1'' = demo_voter" "s_server demo_sys4 ''c:1'' = demo_server ''c:1''"
  by (simp_all add: demo_sys4_def demo_sys3_def demo_sys2_def demo_sys0_def)

lemma demo_leader_fields:
  "r_log demo_leader = demo_log3" "r_curr_term demo_leader = 2" "r_role demo_leader = LEADER" "r_self_id demo_leader = ''a:1''"
  "r_cluster demo_leader = [(''a:1'', 0), (''b:1'', 1), (''c:1'', 2)]" "r_commit_index demo_leader = 0"
  "node_at demo_leader 0 = Some ((demo_node ''a'')\<lparr>n_next_index := 2\<rparr>)" "node_at demo_leader 1 = Some ((demo_node ''b'')\<lparr>n_next_index := 2\<rparr>)"
  "node_at demo_leader 2 = Some ((demo_node ''c'')\<lparr>n_next_index := 2\<rparr>)" 
  by (simp_all add: demo_leader_def demo_candidate_def demo_asking_def demo_run_simps demo_server_def demo_raft_def demo_node_def Let_def)

lemma demo_voter_fields:
  "r_log demo_voter = demo_log3" "r_curr_term demo_voter = 2" "r_transfer_leader_to demo_voter = None" "r_role demo_voter = FOLLOWER"
  "ready demo_voter" "r_voted_for demo_voter = ''a:1''"
  by (simp_all add: demo_voter_def demo_run_simps demo_server_def demo_raft_def demo_node_def Let_def ready_def)

lemma live_rep_entries:
  assumes "live_rep os l a" and "live_rep os l b"
  shows "al_entries a = al_entries b"
proof (rule nth_equalityI)
  have idx: "al_index a = al_index b" using assms by (auto simp: live_rep_def log_rep_def stat_rep_def)
  have last: "al_last a = al_last b" using file_log.rep_final [OF assms(1)] file_log.rep_final [OF assms(2)] by simp
  with idx show "length (al_entries a) = length (al_entries b)" by simp
  fix k assume k: "k < length (al_entries a)"
  have "al_get a (al_index a + k + 1) = al_get b (al_index a + k + 1)"
    using file_log.rep_get [OF assms(1)] file_log.rep_get [OF assms(2)] by simp
  then show "al_entries a ! k = al_entries b ! k"
    using k idx last by (simp add: al_get_def)
qed

text \<open>The voter crashes and starts again: its candidacies are forgotten, its vote is not.\<close>

definition demo_again :: raft where
  "demo_again = demo_voter\<lparr>r_leader := [], r_votes := 0, r_pre_votes_granted := 0, r_last_heartbeat := 0\<rparr>"

lemma demo_again:
  "r_log demo_again = demo_log3" "r_curr_term demo_again = 2" "r_transfer_leader_to demo_again = None"
  by (simp_all add: demo_again_def demo_voter_fields)

lemma demo_restarts: "restarted demo_os demo_voter demo_again" "member_ok demo_ids ''b:1'' demo_again"
proof -
  have "al_entries a = [demo_members_entry]" if "live_rep demo_os demo_log3 a" for a
    using live_rep_entries [OF that demo_live3] by simp
  then show "restarted demo_os demo_voter demo_again"
    using demo_log3(3) demo_voter_fields by (auto simp: restarted_def demo_again_def ready_def)
  have "member_ok demo_ids ''b:1'' demo_voter"
    using sys_inv_reachable [OF demo_sys4(1)] by (auto simp: sys_inv_def inv_servers_def demo_elected_state(2) [symmetric] demo_ids_def)
  then show "member_ok demo_ids ''b:1'' demo_again"
    using member_ok_cong [of demo_again demo_voter] by (simp add: demo_again_def peer_names_def members_def)
qed

definition demo_sys5 :: sys where
  "demo_sys5 = update ''b:1'' demo_again demo_sys4"

lemma demo_sys5: "log_reachable demo_os demo_ids demo_start demo_sys5"
  unfolding demo_sys5_def
  by (rule log_reachable.step [OF demo_elected], rule log_step.Restart) (use demo_restarts in \<open>simp_all add: demo_elected_state demo_ids_def\<close>)

lemma demo_room: "command_room ''set k v'' demo_leader"
  using demo_log3(4) by (simp add: command_room_def demo_leader_fields)

definition demo_commanded :: raft where
  "demo_commanded = snd (the (raft_append demo_os ''set k v'' demo_leader))"

definition demo_line :: LogEntry where
  "demo_line = \<lparr>le_term = 2, le_index = 2, le_data = ''set k v'', le_config = False\<rparr>"

lemma demo_commanded:
  obtains n l where "raft_append demo_os ''set k v'' demo_leader = Some (n, demo_commanded)" "demo_commanded = demo_leader\<lparr>r_log := l\<rparr>"
    "plain_rep demo_os demo_start l (demo_start @ [demo_line])"
proof -
  have "plain_rep demo_os demo_start (r_log demo_leader) demo_start" using demo_start_rep by (simp add: demo_leader_fields)
  from plain_command [OF this demo_leader_fields(3) demo_room] obtain n l where
    l: "raft_append demo_os ''set k v'' demo_leader = Some (n, demo_leader\<lparr>r_log := l\<rparr>)"
      "plain_rep demo_os demo_start l (demo_start @ [command_entry ''set k v'' demo_leader])" by blast
  have "command_entry ''set k v'' demo_leader = demo_line" by (simp add: command_entry_def demo_line_def demo_leader_fields)
  then show thesis using l by (intro that [of n l]) (simp_all add: demo_commanded_def)
qed

lemma demo_commanded_log: "plain_rep demo_os demo_start (r_log demo_commanded) (demo_start @ [demo_line])"
proof -
  obtain n l where l: "demo_commanded = demo_leader\<lparr>r_log := l\<rparr>" "plain_rep demo_os demo_start l (demo_start @ [demo_line])" by (rule demo_commanded)
  show ?thesis unfolding l(1) using l(2) by simp
qed

definition demo_told :: append_entries_req where
  "demo_told = \<lparr>aq_term = 2, aq_leader_id = ''a:1'', aq_prev_log_index = 1, aq_prev_log_term = 1, aq_entries = [demo_line],
     aq_leader_commit = 0, aq_id = 3\<rparr>"

definition demo_beat :: raft where
  "demo_beat = the (on_heartbeat_timeout demo_world False demo_commanded)"

lemma demo_beat:
  "on_heartbeat_timeout demo_world False demo_commanded = Some demo_beat" "r_log demo_beat = r_log demo_commanded"
  "\<exists>t. (t, demo_told) \<in> set (appends demo_beat) \<and> t_host t @ '':'' @ t_port t = ''b:1''"
proof -
  obtain n l where l: "demo_commanded = demo_leader\<lparr>r_log := l\<rparr>" "plain_rep demo_os demo_start l (demo_start @ [demo_line])"
    using demo_commanded by metis
  have "map_option to_LogEntry (get_entry l 1) = Some (demo_start ! 0)" using plain_rep_get(1) [OF l(2), of 0] by (simp add: demo_start_def)
  then obtain e where e: "get_entry l 1 = Some e" "to_LogEntry e = demo_start ! 0" by auto
  have "e_index e = 1" "e_term e = 1"
    using arg_cong [OF e(2), of le_index] arg_cong [OF e(2), of le_term] by (simp_all add: demo_start_def)
  then have get: "\<exists>e. get_entry l (Suc 0) = Some e \<and> e_index e = 1 \<and> e_term e = 1" "entries_from l 2 = [demo_line]"
    using e(1) plain_rep_get(6) [OF l(2), of 2] by (simp_all add: demo_start_def)
  have id: "r_append_entries_id demo_leader = 2"
    by (simp add: demo_leader_def demo_candidate_def demo_asking_def demo_run_simps demo_server_def demo_raft_def demo_node_def Let_def)
  let ?r = "demo_leader\<lparr>r_log := l\<rparr>"
  have run: "on_heartbeat_timeout demo_world False ?r = Some (the (on_heartbeat_timeout demo_world False ?r)) \<and>
     r_log (the (on_heartbeat_timeout demo_world False ?r)) = l \<and>
     (\<exists>t. (t, demo_told) \<in> set (appends (the (on_heartbeat_timeout demo_world False ?r))) \<and> t_host t @ '':'' @ t_port t = ''b:1'')"
    using get id demo_leader_fields
    by (auto simp: on_heartbeat_timeout_def append_entries_def append_entries_to_def to_peer_def make_task_def fill_append_entries_def
        reset_heartbeat_timer_def emit_def members_def demo_node_def demo_told_def appends_def Let_def sub64_def cluster_size_def)
  then show "on_heartbeat_timeout demo_world False demo_commanded = Some demo_beat" "r_log demo_beat = r_log demo_commanded"
    "\<exists>t. (t, demo_told) \<in> set (appends demo_beat) \<and> t_host t @ '':'' @ t_port t = ''b:1''"
    by (simp_all add: demo_beat_def l(1))
qed

lemma demo_told_fits: "has_prev demo_alog3 demo_told" "fits demo_alog3 demo_told" "request_room demo_told demo_again"
proof -
  have "e_size (make_entry 0 ''set k v'' 2 2 False) < 100" by (simp add: round_up_eq cfg_offset_def)
  then have t: "total (built 0 [demo_line]) < 100" by (simp add: built_def demo_line_def total_def)
  then show "fits demo_alog3 demo_told" "request_room demo_told demo_again"
    using demo_log3(4) by (simp_all add: fits_def request_room_def demo_told_def sized_def demo_again) (simp_all add: demo_line_def)
  show "has_prev demo_alog3 demo_told" by (simp add: has_prev_def demo_told_def al_get_def)
qed

definition demo_sys6 :: sys where
  "demo_sys6 = update ''a:1'' demo_beat (update ''a:1'' demo_commanded demo_sys5)"

lemma demo_sys6: "log_reachable demo_os demo_ids demo_start demo_sys6" "s_server demo_sys6 ''a:1'' = demo_beat" "s_server demo_sys6 ''b:1'' = demo_again"
proof -
  have a: "''a:1'' \<in> demo_ids" by (simp add: demo_ids_def)
  obtain n where n: "raft_append demo_os ''set k v'' demo_leader = Some (n, demo_commanded)" using demo_commanded by metis
  have "log_step demo_os demo_ids demo_sys5 (update ''a:1'' demo_commanded demo_sys5)"
    by (rule log_step.Command [OF a, of "''set k v''"]) (use n demo_room in \<open>simp_all add: demo_sys5_def demo_elected_state\<close>)
  moreover have "log_step demo_os demo_ids (update ''a:1'' demo_commanded demo_sys5) demo_sys6"
    unfolding demo_sys6_def by (intro log_step.Elect election_step.Heartbeat [OF a]) (use demo_beat(1) in \<open>simp\<close>)
  ultimately show "log_reachable demo_os demo_ids demo_start demo_sys6" using demo_sys5 by (blast intro: log_reachable.step)
qed (simp_all add: demo_sys6_def demo_sys5_def demo_elected_state)

lemma demo_stored:
  obtains res r' x where "rpc_append_entries demo_world demo_told demo_again = Some (res, False, r')"
    "get_entry (r_log r') 2 = Some x" "e_term x = 2"
proof -
  have rep: "live_rep (w_os demo_world) (r_log demo_again) demo_alog3" using demo_live3 by (simp add: demo_again demo_world_def)
  have "r_curr_term demo_again \<le> aq_term demo_told" by (simp add: demo_again demo_told_def)
  from append_entries_stored [OF rep this demo_again(3) demo_told_fits(1,2)] obtain res r' c where
    r: "rpc_append_entries demo_world demo_told demo_again = Some (res, False, r')"
      "live_rep (w_os demo_world) (r_log r') (merged demo_alog3 (aq_entries demo_told) c)" by blast
  have "\<exists>x. al_get (merged demo_alog3 [demo_line] c) 2 = Some x \<and> e_term x = 2"
    using merged_reads(2) [of 1 "[demo_line]" demo_alog3 c] by (simp add: demo_line_def)
  then obtain x where "al_get (merged demo_alog3 (aq_entries demo_told) c) 2 = Some x" "e_term x = 2" by (auto simp: demo_told_def)
  then show thesis using r file_log.rep_get by (intro that [of res r' x]) auto
qed

lemma demo_both_store:
  obtains \<sigma> x y where "log_reachable demo_os demo_ids demo_start \<sigma>" "get_entry (r_log (s_server \<sigma> ''a:1'')) 2 = Some x" "to_LogEntry x = demo_line"
    "get_entry (r_log (s_server \<sigma> ''b:1'')) 2 = Some y" "e_term x = 2" "e_term y = 2"
proof -
  obtain t where t: "(t, demo_told) \<in> set (appends demo_beat)" "t_host t @ '':'' @ t_port t = ''b:1''" using demo_beat(3) by blast
  obtain res r' y where r: "rpc_append_entries demo_world demo_told demo_again = Some (res, False, r')"
    "get_entry (r_log r') 2 = Some y" "e_term y = 2" by (rule demo_stored)
  have "log_step demo_os demo_ids demo_sys6 (update ''b:1'' r' demo_sys6)"
    by (rule log_step.Append [where i = "''a:1''" and t = t and req = demo_told and w = demo_world and res = res and failed = False])
      (use t r(1) demo_told_fits(3) in \<open>simp_all add: demo_ids_def demo_sys6 demo_world_def\<close>)
  then have reach: "log_reachable demo_os demo_ids demo_start (update ''b:1'' r' demo_sys6)" using demo_sys6(1) by (rule log_reachable.step [rotated])
  have "plain_rep demo_os demo_start (r_log demo_beat) (demo_start @ [demo_line])" using demo_commanded_log by (simp add: demo_beat(2))
  from plain_rep_get(1) [OF this, of 1] obtain x where x: "get_entry (r_log demo_beat) 2 = Some x" "to_LogEntry x = demo_line"
    by (auto simp: demo_start_def numeral_2_eq_2)
  have "e_term x = 2" using arg_cong [OF x(2), of le_term] by (simp add: demo_line_def)
  then show thesis using that [OF reach] x r(2,3) by (simp add: demo_sys6)
qed

text \<open>C2: log matching, for a cluster of fixed membership.  The servers start as followers from the same log,
  uncompacted, whose last configuration entry lists them (\<open>log_start\<close>: what \<open>init\<close> makes of a cluster at rest).
  In every state they reach by elections, heartbeats, commands, \<open>append_entries\<close> requests that are delivered in any
  order and as often as the network likes, any answers to them, and crashes with a restart, two logs that hold an
  entry of the same index and term are equal up to that index.  Membership changes, compaction, data transfer and
  leadership transfer are not among the steps.\<close>

theorem log_matching:
  assumes "log_reachable os ids P \<sigma>" and "i \<in> ids" and "j \<in> ids"
    and "get_entry (r_log (s_server \<sigma> i)) k = Some x" and "get_entry (r_log (s_server \<sigma> j)) k = Some y"
    and "e_term x = e_term y" and "m \<le> k"
  shows "map_option to_LogEntry (get_entry (r_log (s_server \<sigma> i)) m) = map_option to_LogEntry (get_entry (r_log (s_server \<sigma> j)) m)"
  using assms by (rule logs_match)

theorem log_matching_witness:
  "\<exists>\<sigma> x y. log_reachable demo_os demo_ids demo_start \<sigma> \<and> get_entry (r_log (s_server \<sigma> ''a:1'')) 2 = Some x \<and>
    get_entry (r_log (s_server \<sigma> ''b:1'')) 2 = Some y \<and> to_LogEntry x = demo_line \<and> to_LogEntry y = demo_line"
proof -
  obtain \<sigma> x y where s: "log_reachable demo_os demo_ids demo_start \<sigma>" "get_entry (r_log (s_server \<sigma> ''a:1'')) 2 = Some x" "to_LogEntry x = demo_line"
    "get_entry (r_log (s_server \<sigma> ''b:1'')) 2 = Some y" "e_term x = 2" "e_term y = 2" by (rule demo_both_store)
  from log_matching [OF s(1) _ _ s(2,4), of 2] s(5,6) have
    "map_option to_LogEntry (get_entry (r_log (s_server \<sigma> ''a:1'')) 2) = map_option to_LogEntry (get_entry (r_log (s_server \<sigma> ''b:1'')) 2)"
    by (simp add: demo_ids_def)
  then have "to_LogEntry y = demo_line" using s(2-4) by simp
  then show ?thesis using s(1-4) by blast
qed

section \<open>No handler fails\<close>

text \<open>C9: in every state of such a run (\<open>log_reachable\<close>: a common start, fixed membership, no compaction, no transfer)
  each server is well formed - its map leads to a node for every member and its log is represented - and
  every handler returns: no null pointer is followed and no loop runs for ever in a timeout, in the vote calls
  and their answers, in a command that the log has room for, or in a request that was sent and that the log has
  room for.  Answers to \<open>append_entries\<close> are the exception: one with a match index beyond the leader's log is fatal.\<close>

theorem no_handler_fails:
  assumes "log_reachable os ids P \<sigma>" and "i \<in> ids" and "w_os w = os"
  shows "sound os ids P i (s_server \<sigma> i) \<and>
    (\<exists>r'. on_election_timeout w ec (s_server \<sigma> i) = Some r') \<and> (\<exists>r'. on_heartbeat_timeout w ec (s_server \<sigma> i) = Some r') \<and>
    (\<exists>res r'. rpc_timeout_now w q (s_server \<sigma> i) = Some (res, r')) \<and> (\<exists>r'. on_pre_vote w ans (s_server \<sigma> i) = Some r') \<and>
    (\<exists>res r'. rpc_request_vote req (s_server \<sigma> i) = Some (res, r')) \<and> (\<exists>r'. on_request_vote w ans (s_server \<sigma> i) = Some r') \<and>
    (command_room cmd (s_server \<sigma> i) \<longrightarrow> (\<exists>n r'. raft_append os cmd (s_server \<sigma> i) = Some (n, r'))) \<and>
    (\<forall>j \<in> ids. \<forall>(t, a) \<in> set (appends (s_server \<sigma> j)). request_room a (s_server \<sigma> i) \<longrightarrow>
      (\<exists>res r'. rpc_append_entries w a (s_server \<sigma> i) = Some (res, False, r')))"
proof -
  note s = log_reachable_sound [OF assms(1,2)]
  have "\<forall>j \<in> ids. \<forall>(t, a) \<in> set (appends (s_server \<sigma> j)). request_room a (s_server \<sigma> i) \<longrightarrow>
      (\<exists>res r'. rpc_append_entries w a (s_server \<sigma> i) = Some (res, False, r'))"
    using request_returns [OF assms(1) _ _ assms(2) _ assms(3)] by blast
  then show ?thesis using s handlers_return [OF s] command_returns [OF s, of cmd] by simp
qed

theorem no_handler_fails_witness:
  "(\<exists>r'. on_election_timeout demo_world False (s_server demo_sys6 ''b:1'') = Some r') \<and>
    (\<exists>res r'. rpc_append_entries demo_world demo_told (s_server demo_sys6 ''b:1'') = Some (res, False, r'))"
proof -
  have b: "''a:1'' \<in> demo_ids" "''b:1'' \<in> demo_ids" by (simp_all add: demo_ids_def)
  obtain t where t: "(t, demo_told) \<in> set (appends (s_server demo_sys6 ''a:1''))" using demo_beat(3) demo_sys6(2) by auto
  have room: "request_room demo_told (s_server demo_sys6 ''b:1'')" using demo_told_fits(3) by (simp add: demo_sys6)
  from no_handler_fails [OF demo_sys6(1) b(2), of demo_world False] show ?thesis
    using b(1) t room by (fastforce simp: demo_world_def)
qed

end
