(* ===== verification/Storage_Startup.thy ===== *)
theory Storage_Startup
  imports Storage_Server Raft_Startup
begin

text \<open>
  The life of the key-value server (\<^verbatim>\<open>src/server/storage_server.hpp\<close>, \<^verbatim>\<open>src/server/raft_server.cpp\<close>):
  \<open>init\<close>, the rounds of the snapshot thread, \<open>start\<close> and \<open>stop\<close>.  The files are a map from paths to
  contents; whether \<^verbatim>\<open>fork\<close>, \<^verbatim>\<open>fopen\<close>, \<^verbatim>\<open>wait\<close>, \<^verbatim>\<open>open\<close> and \<^verbatim>\<open>fstat\<close> succeed are parameters, and
  \<^const>\<open>None\<close> is \<^verbatim>\<open>exit(-1)\<close> or an exception.  The child of a fork works on its copy of the database.
\<close>

type_synonym files = "string \<Rightarrow> string option"

definition storage_init ::
    "program_options \<Rightarrow> files \<Rightarrow> (string \<Rightarrow> string) \<Rightarrow> world \<Rightarrow> bool \<Rightarrow> bool \<Rightarrow> boot \<Rightarrow> storage \<Rightarrow> (int \<times> boot \<times> storage) option" where
  "storage_init po files ipv4_of w open_ok fstat_ok b st =
     do {
       (rc, b1) \<leftarrow> raft_init po files ipv4_of w (b\<lparr>bt_raft := st_raft st\<rparr>);
       let st1 = st\<lparr>st_raft := bt_raft b1\<rparr>
       in if rc \<noteq> RC_GOOD then Some (-1, b1, st1)
          else do {
            (rc1, st2) \<leftarrow> load_database po files
              ((storage_set_path (r_path (bt_raft b1)) st1)\<lparr>st_snapshot_rate := r_snapshot_rate (bt_raft b1)\<rparr>);
            if rc1 \<noteq> 0 then Some (-1, b1, st2)
            else case update_snapshot_size files open_ok fstat_ok st2 of (rc2, st3) \<Rightarrow>
              Some (if rc2 \<noteq> 0 then -1 else 0, b1, st3)
          }
     }"

section \<open>The snapshot thread\<close>

text \<open>How long a round sleeps first, and without log compaction the condition to go on waiting.\<close>

definition snapshot_pause :: "storage \<Rightarrow> nat" where
  "snapshot_pause st = (if r_log_compaction_enabled (st_raft st) then st_snapshot_rate st else 1)"

definition snapshot_waits :: "storage \<Rightarrow> bool" where
  "snapshot_waits st \<longleftrightarrow> \<not> r_log_compaction_enabled (st_raft st) \<and>
     lg_payload (r_log (st_raft st)) \<le> (st_prev_snapshot_size st * 4) mod 2 ^ 64"

definition snapshot_round :: "bool \<Rightarrow> bool \<Rightarrow> bool \<Rightarrow> bool \<Rightarrow> bool \<Rightarrow> files \<Rightarrow> storage \<Rightarrow> (files \<times> storage) option" where
  "snapshot_round forked fopened waited open_ok fstat_ok files st =
     (if \<not> forked then None
      else
        let files1 = (if fopened then take_snapshot st files else files)
        in if \<not> waited then None else Some (files1, snd (update_snapshot_size files1 open_ok fstat_ok st)))"

section \<open>Start and stop\<close>

definition storage_start :: "world \<Rightarrow> storage \<Rightarrow> storage" where
  "storage_start w st = st\<lparr>st_raft := snd (raft_start w (st_raft st))\<rparr>"

definition storage_stop :: "storage \<Rightarrow> storage" where
  "storage_stop st = st\<lparr>st_raft := snd (raft_stop (st_raft st))\<rparr>"

text \<open>\<open>main\<close>: the exit code when \<open>init\<close> fails; otherwise the server runs.\<close>

definition server_main ::
    "program_options \<Rightarrow> files \<Rightarrow> (string \<Rightarrow> string) \<Rightarrow> world \<Rightarrow> bool \<Rightarrow> bool \<Rightarrow> boot \<Rightarrow> storage \<Rightarrow> (int + storage) option" where
  "server_main po files ipv4_of w open_ok fstat_ok b st =
     map_option (\<lambda>(rc, _, st'). if rc = -1 then Inl (-1) else Inr (storage_start w st'))
       (storage_init po files ipv4_of w open_ok fstat_ok b st)"

end
