(* ===== verification/Config_Client.thy ===== *)
theory Config_Client
  imports Client_Tools
begin

text \<open>
  The programs around the other parts: the connection of the configuration client
  (\<^verbatim>\<open>src/raft/config_client.hpp\<close>), its \<open>main\<close>, the mains of the interactive client and the log
  reader, and the handler of the example server (\<^verbatim>\<open>src/raft/config_server.cpp\<close>).
\<close>

section \<open>The connection\<close>

text \<open>What the connection does, in order: resolve, connect, write the request, read the reply, print.\<close>

datatype connection_event =
    Resolving string string
  | Connecting
  | Writing http_req
  | Reading
  | Failed string       \<comment> \<open>the text in front of the error message\<close>
  | Printed string

text \<open>The errors of the four callbacks and the body of the reply.\<close>

record connection_run =
  cr_resolve :: bool
  cr_connect :: bool
  cr_write :: bool
  cr_read :: bool
  cr_body :: string

definition config_on_read :: "connection_run \<Rightarrow> connection_event list" where
  "config_on_read x = (if cr_read x then [Failed ''read''] else if cr_body x \<noteq> [] then [Printed (cr_body x)] else [])"

definition config_on_write :: "connection_run \<Rightarrow> connection_event list" where
  "config_on_write x = (if cr_write x then [Failed ''write''] else Reading # config_on_read x)"

definition config_on_connect :: "connection_run \<Rightarrow> http_req \<Rightarrow> connection_event list" where
  "config_on_connect x req = (if cr_connect x then [Failed ''connect''] else Writing req # config_on_write x)"

definition config_on_resolve :: "connection_run \<Rightarrow> http_req \<Rightarrow> connection_event list" where
  "config_on_resolve x req = (if cr_resolve x then [Failed ''resolve''] else Connecting # config_on_connect x req)"

definition config_run :: "connection_run \<Rightarrow> string \<Rightarrow> string \<Rightarrow> string \<Rightarrow> connection_event list" where
  "config_run x host port target = Resolving host port # config_on_resolve x (client_request target)"

section \<open>main of the configuration client\<close>

text \<open>One connection after the other, each until it is done; \<open>answer\<close> gives the runs.\<close>

definition config_main ::
    "bool \<Rightarrow> string option \<Rightarrow> client_options \<Rightarrow> (string \<Rightarrow> connection_run) \<Rightarrow> connection_event list option" where
  "config_main help leader_address co answer =
     (if help then Some []
      else case leader_address of
        None \<Rightarrow> Some []
      | Some address \<Rightarrow>
          (case client_address address of (host, port) \<Rightarrow>
             map_option (\<lambda>targets. concat (map (\<lambda>t. config_run (answer t) host port t) targets)) (client_targets co)))"

section \<open>main of the interactive client\<close>

text \<open>
  \<^verbatim>\<open>std::getline\<close> until the end of the input; empty lines are passed over.  \<open>client_main\<close> gives the
  exit code, or the client and the commands posted to its event loop, in order.
\<close>

definition typed_commands :: "string \<Rightarrow> string list" where
  "typed_commands input = map (\<lambda>command. command @ [CR, LF]) (filter (\<lambda>l. l \<noteq> []) (split input [LF]))"

definition client_main :: "string list \<Rightarrow> string \<Rightarrow> int + raft_client \<times> string list" where
  "client_main argv input =
     (if length argv \<noteq> 2 then Inl 1 else Inr (new_client (argv ! 0) (argv ! 1), typed_commands input))"

section \<open>main of the log reader\<close>

definition reader_main :: "nat \<Rightarrow> os \<Rightarrow> fs \<Rightarrow> string list \<Rightarrow> string \<Rightarrow> (int \<times> logger option \<times> string list) option" where
  "reader_main junk os fs argv input =
     (if length argv \<noteq> 2 then Some (1, None, [''usage: <stat_file> <ldbs_file>'', reader_help])
      else do {
        (rc, l, _) \<leftarrow> init os fs (new_logger (argv ! 0) (argv ! 1) (5 / 4));
        if rc \<noteq> RC_GOOD then Some (1, Some l, [''failed to initialize log''])
        else map_option (\<lambda>(l', out). (0, Some l', out)) (reader_loop junk os input l)
      })"

section \<open>The example server\<close>

definition example_add_server :: "http_req \<Rightarrow> nat \<Rightarrow> raft \<Rightarrow> raft" where
  "example_add_server req h r =
     (if q_method req \<noteq> GET \<and> q_method req \<noteq> HEAD then fail req h ''Unknown HTTP method'' 400 r
      else if q_target req = [] \<or> q_target req ! 0 \<noteq> CHR ''/'' \<or> str_find (q_target req) ''..'' 0 \<noteq> None then
        fail req h ''illegal request target'' 400 r
      else set_reply h (\<lambda>p. p\<lparr>h_body := ''OK succeed'', h_status := 200, h_type := ''application/text'',
             h_keep_alive := q_keep_alive req\<rparr>) r)"

end
