(* ===== verification/Spec2Isabelle.thy ===== *)
theory Spec2Isabelle
  imports Base_Properties Log_Properties Transfer_Properties Membership_Properties Server_Properties Http_Properties Tool_Properties
    Startup_Properties Commit_Properties Matching_Properties Storage_Startup Config_Client
begin

text \<open>
  draft: a Raft consensus library in C++ (\<^verbatim>\<open>src/raft\<close>), a key-value server on top of it
  (\<^verbatim>\<open>src/server\<close>) and its clients (\<^verbatim>\<open>src/client\<close>, \<^verbatim>\<open>src/raft/config_client.cpp\<close>).

  \<^bold>\<open>The program.\<close>  A server is one \<^verbatim>\<open>raft_impl\<close> object.  It keeps its log in two memory-mapped
  files (\<^verbatim>\<open>entry_logger\<close> over \<^verbatim>\<open>mapped_file\<close>), its term and vote in a third, the members in a map
  of nodes, and reacts to four kinds of events on one event loop: timers, requests of other servers
  (\<^verbatim>\<open>rpc_service_impl\<close>), answers to its own requests, and HTTP requests of an administrator
  (\<^verbatim>\<open>config_server\<close>).  Committed entries go through a queue to a callback of the application; the
  key-value server (\<^verbatim>\<open>storage_server\<close>) applies them to its database, answers the sessions that wait
  for them, and writes snapshots, which other servers receive through the data transfer.

  \<^bold>\<open>How the model is built.\<close>  State is a record, an operation a function from the state before to the
  state after, in the order of the code.  Integers that can wrap around are naturals below \<open>2 ^ 64\<close>
  with \<^verbatim>\<open>sub64\<close> and \<^verbatim>\<open>add64\<close> for subtraction and addition, words where bits matter; terms and task numbers,
  which only ever count up by one or are copied, are unbounded.  Error codes are the type \<open>rc_errno\<close>.  The
  result is \<^const>\<open>None\<close> where the program has no defined behaviour or does not return: a null or
  dangling pointer, an exception that nobody catches, a loop that does not end.  Requests, timers and
  replies are appended to the list \<open>r_out\<close> of actions; pointers to nodes are addresses in a store, so
  that a node two owners share is one object.  Sessions of the key-value server are objects of the same
  kind: one that is closed lives on while a command of it waits.  The cluster map is a list in the
  order in which the \<^verbatim>\<open>unordered_map\<close> iterates; an insertion may leave it in any order (\<open>iteration\<close>).  What cannot be read here is a parameter: the operating
  system (\<open>os\<close>: which calls succeed), the clock and the file system (\<open>world\<close>), the reader of
  configuration files (\<open>program_options\<close>), the address of the network interface, the outcome of
  asynchronous calls, the number an uninitialised variable holds (\<open>extract_u64\<close>).

  \<^bold>\<open>Theories.\<close>
  \<^item> \<^verbatim>\<open>Prelude\<close>: memory as bytes, 64-bit encoding, lemmas shared by all; \<^verbatim>\<open>Utils\<close> (\<^verbatim>\<open>utils.hpp\<close>),
    \<^verbatim>\<open>Address\<close> (\<^verbatim>\<open>is_ipv4\<close>, \<^verbatim>\<open>get_ipv4\<close>), \<^verbatim>\<open>Concurrent_Queue\<close>, \<^verbatim>\<open>Config_Parser\<close>: the helpers.
  \<^item> \<^verbatim>\<open>Mapped_File\<close>, \<^verbatim>\<open>Entry_Layout\<close>, \<^verbatim>\<open>Entry_Logger\<close>: \<^verbatim>\<open>mapped_file.hpp\<close>, \<^verbatim>\<open>entry_iterator.hpp\<close> and
    \<^verbatim>\<open>entry_logger.hpp\<close>, byte by byte.  \<^verbatim>\<open>Logger_Rep\<close> states when a log represents an abstract log
    (index and term of the compaction point, configuration, list of entries); \<^verbatim>\<open>Logger_Append\<close>,
    \<^verbatim>\<open>Logger_Chop\<close>, \<^verbatim>\<open>Logger_Drop\<close>, \<^verbatim>\<open>Logger_Init\<close> show that each operation does to the bytes what it
    should do to the abstract log; \<^verbatim>\<open>Log_Interface\<close> is the interface the servers use, a locale
    interpreted on this log.
  \<^item> \<^verbatim>\<open>Raft_State\<close>, \<^verbatim>\<open>Raft_Send\<close>, \<^verbatim>\<open>Raft_Election\<close>, \<^verbatim>\<open>Raft_Transfer\<close>, \<^verbatim>\<open>Raft_Replication\<close>,
    \<^verbatim>\<open>Raft_Membership\<close>, \<^verbatim>\<open>Raft_Startup\<close>: \<^verbatim>\<open>raft_impl.hpp\<close>, \<^verbatim>\<open>raft_rpc.hpp\<close>, \<^verbatim>\<open>raft_base.hpp\<close>, \<^verbatim>\<open>raft.proto\<close>.
  \<^item> \<^verbatim>\<open>Http_Handlers\<close>: \<^verbatim>\<open>config_server.hpp\<close> and the handlers of \<^verbatim>\<open>raft_impl.hpp\<close>.
  \<^item> \<^verbatim>\<open>Command_Parser\<close>, \<^verbatim>\<open>Storage_Server\<close>, \<^verbatim>\<open>Storage_Startup\<close>: \<^verbatim>\<open>src/server\<close>.
  \<^item> \<^verbatim>\<open>Client_Tools\<close>, \<^verbatim>\<open>Config_Client\<close>: the clients, the log reader and their \<open>main\<close> functions.
  \<^item> \<^verbatim>\<open>Raft_Frame\<close>, \<^verbatim>\<open>Election_Effects\<close>: what each handler does to term, vote, role and log;
    \<^verbatim>\<open>Election_Safety\<close>: a cluster as a step relation over the handlers, with its invariant;
    \<^verbatim>\<open>Replication_Correct\<close>, \<^verbatim>\<open>Replication_Handlers\<close>, \<^verbatim>\<open>Append_Quiet\<close>: what a request does to the
    follower's log and to the election state; \<^verbatim>\<open>Broadcast\<close>: what a leader sends to its peers.
  \<^item> \<^verbatim>\<open>Log_History\<close>: logs as lists, and the history of each term; \<^verbatim>\<open>Log_Plain\<close>, \<^verbatim>\<open>Log_Effects\<close>,
    \<^verbatim>\<open>Log_Kept\<close>: what each handler does to such a log and which requests it sends; \<^verbatim>\<open>Log_Matching\<close>: the
    cluster with its logs as a step relation, with its invariant; \<^verbatim>\<open>Handlers_Return\<close>: that the handlers
    of such a cluster return; \<^verbatim>\<open>Transfer_Arrives\<close>: a data transfer from both sides.
  \<^item> \<^verbatim>\<open>Demo\<close>, \<^verbatim>\<open>Demo_Cluster\<close>: the concrete inputs of the witnesses; the \<^verbatim>\<open>_Properties\<close> theories state the
    properties, \<^verbatim>\<open>Base\<close>, \<^verbatim>\<open>Log\<close>, \<^verbatim>\<open>Election\<close>, \<^verbatim>\<open>Replication\<close>, \<^verbatim>\<open>Commit\<close>,
    \<^verbatim>\<open>Matching\<close>, \<^verbatim>\<open>Transfer\<close>, \<^verbatim>\<open>Membership\<close>,
    \<^verbatim>\<open>Startup\<close>, \<^verbatim>\<open>Server\<close>, \<^verbatim>\<open>Http\<close> and \<^verbatim>\<open>Tool\<close>.

  \<^bold>\<open>What is shown.\<close>  The log is a refinement of a list of entries, across growth, chopping, compaction
  and restarts.  There is at most one leader per term, with a majority of votes, while
  the membership is fixed.  Servers that start from a common uncompacted log with a configuration entry
  (\<open>log_start\<close>) and then elect, take commands, exchange requests that may be lost, repeated or
  reordered, crash and start again (\<open>log_step\<close>) keep the log matching property: two logs with an entry of the
  same index and term are equal up to it, and no handler fails, answers to requests apart; changes of the
  membership, compaction and transfers are not among these steps.  A follower that accepts a request
  holds its entries, text and all, and its log, when it matched the leader's before, agrees with it afterwards; what is refused
  changes nothing; committing is monotone and makes progress, entries are applied in order and once.
  A snapshot file arrives whole, and the log behind it is set to the leader's compaction point.
  Membership changes come one at a time and are logged as they should
  be; leadership is handed over.  A restarted server has its term, vote, log and members.  The leader's
  database and the replicas' agree, snapshots are read back, commands and configurations survive
  printing and parsing, and the tools do what they are told.

  \<^bold>\<open>What does not hold.\<close>  A leader may commit an entry that no majority has
  (\<open>commit_without_majority\<close>), so that state machine safety is not a property of this program; two
  servers can refuse each other for ever (\<open>neither_elects\<close>); a follower with a longer log crashes its
  leader (\<open>longer_follower_crashes_leader\<close>); the second transfer of a snapshot to the same server writes
  nothing (\<open>second_transfer_lost\<close>); a follower that stores two configurations out of one request and then loses the
  second forgets the first as well (\<open>batch_forgets_configuration\<close>).  These and smaller deviations are theorems too.

  \<^bold>\<open>Bounds.\<close>  The files of a log stay below \<open>2 ^ 60\<close> bytes (\<open>size_cap\<close>) and its entries below \<open>2 ^ 59\<close>,
  indices and terms below \<open>2 ^ 64\<close>: far beyond any disk, and enough for the growth by a quarter never to
  wrap around.  The growth factor is the default \<open>5 / 4\<close>.

  \<^bold>\<open>Not modelled.\<close>  Sockets, the event loop, threads and the \<^verbatim>\<open>arpc\<close>, \<^verbatim>\<open>boost\<close> and \<^verbatim>\<open>protobuf\<close> libraries:
  each callback is one atomic step, and which message arrives when is left to the step relations.
  The start-up code takes the address of its interface as a parameter.  Logging (\<^verbatim>\<open>severity_logger.hpp\<close>) and
  the version string have no influence on the state.  What \<^verbatim>\<open>memcpy\<close> reads behind a short string is a
  parameter in the vote file and left out for node ids.  A reply object is a number: that a reference
  to one may outlive its connection is not seen.
\<close>

end
